(* ===== verification/Agent_Prelude.thy ===== *)
theory Agent_Prelude
  imports Main "HOL-Library.AList" "HOL-Library.Sublist"
begin

text \<open>
  What every component theory shares: the named collections the proofs draw on, insertion
  ordered JavaScript \<open>Map\<close> and \<open>Set\<close> objects as lists, the key-value interface the clients
  of such a map rely on, and reachability with the contract of an inductive invariant.
\<close>

named_theorems agent_defs "definitions unfolded by the component proofs"
named_theorems agent_step "effect of one operation on one field of the state"

section \<open>JavaScript Map objects\<close>

text \<open>
  A \<open>Map\<close> iterates in insertion order and overwrites an existing key in place, so it is an
  association list with distinct keys. Setting is \<open>AList.update\<close>, deleting is
  \<open>AList.delete\<close>; \<open>has\<close> and \<open>get\<close> are \<open>map_of\<close>.
\<close>

type_synonym ('k, 'v) jsmap = "('k \<times> 'v) list"

definition jm_get :: "('k, 'v) jsmap \<Rightarrow> 'k \<Rightarrow> 'v option" where
  "jm_get m k = map_of m k"

definition jm_has :: "('k, 'v) jsmap \<Rightarrow> 'k \<Rightarrow> bool" where
  "jm_has m k = (map_of m k \<noteq> None)"

definition jm_set :: "'k \<Rightarrow> 'v \<Rightarrow> ('k, 'v) jsmap \<Rightarrow> ('k, 'v) jsmap" where
  "jm_set k v m = AList.update k v m"

definition jm_delete :: "'k \<Rightarrow> ('k, 'v) jsmap \<Rightarrow> ('k, 'v) jsmap" where
  "jm_delete k m = AList.delete k m"

definition jm_keys :: "('k, 'v) jsmap \<Rightarrow> 'k list" where
  "jm_keys m = map fst m"

definition jm_wf :: "('k, 'v) jsmap \<Rightarrow> bool" where
  "jm_wf m = distinct (map fst m)"

section \<open>The key-value interface\<close>

text \<open>
  What a client of a keyed store relies on: looking up after storing and after removing, and
  that both operations keep the store well formed. The agent's clients are the replay guard,
  the tables of tracked services and container snapshots, the terminal sessions and the
  key-value table \<open>AgentInfo\<close>.
\<close>

locale kv_store =
  fixes empty :: "'m"
    and get :: "'m \<Rightarrow> 'k \<Rightarrow> 'v option"
    and put :: "'k \<Rightarrow> 'v \<Rightarrow> 'm \<Rightarrow> 'm"
    and del :: "'k \<Rightarrow> 'm \<Rightarrow> 'm"
    and wf :: "'m \<Rightarrow> bool"
  assumes get_empty: "get empty k = None"
    and get_put: "get (put k v m) j = (if j = k then Some v else get m j)"
    and get_del: "get (del k m) j = (if j = k then None else get m j)"
    and wf_empty: "wf empty"
    and wf_put: "wf m \<Longrightarrow> wf (put k v m)"
    and wf_del: "wf m \<Longrightarrow> wf (del k m)"
begin

lemma get_put_same: "get (put k v m) k = Some v"
  by (simp add: get_put)

lemma get_put_other: "j \<noteq> k \<Longrightarrow> get (put k v m) j = get m j"
  by (simp add: get_put)

lemma get_del_same: "get (del k m) k = None"
  by (simp add: get_del)

lemma get_del_other: "j \<noteq> k \<Longrightarrow> get (del k m) j = get m j"
  by (simp add: get_del)

lemma put_put_get: "get (put k v (put k w m)) j = get (put k v m) j"
  by (simp add: get_put)

lemma del_put_get: "get (del k (put k v m)) j = get (del k m) j"
  by (simp add: get_put get_del)

lemmas kv_laws = get_empty get_put get_del
lemmas kv_wf = wf_empty wf_put wf_del

end

interpretation jsm: kv_store "[]" jm_get jm_set jm_delete jm_wf
proof unfold_locales
  fix k :: 'k and j and v :: 'v and m :: "('k, 'v) jsmap"
  show "jm_get ([] :: ('k, 'v) jsmap) k = None" by (simp add: jm_get_def)
  show "jm_get (jm_set k v m) j = (if j = k then Some v else jm_get m j)"
    by (simp add: jm_get_def jm_set_def update_conv')
  show "jm_get (jm_delete k m) j = (if j = k then None else jm_get m j)"
    by (simp add: jm_get_def jm_delete_def delete_conv')
  show "jm_wf ([] :: ('k, 'v) jsmap)" by (simp add: jm_wf_def)
  show "jm_wf m \<Longrightarrow> jm_wf (jm_set k v m)"
    by (simp add: jm_wf_def jm_set_def distinct_update)
  show "jm_wf m \<Longrightarrow> jm_wf (jm_delete k m)"
    by (simp add: jm_wf_def jm_delete_def distinct_delete)
qed

lemma jm_has_get: "jm_has m k \<longleftrightarrow> jm_get m k \<noteq> None"
  by (simp add: jm_has_def jm_get_def)

lemma jm_get_mem: "jm_wf m \<Longrightarrow> jm_get m k = Some v \<longleftrightarrow> (k, v) \<in> set m"
  by (simp add: jm_wf_def jm_get_def)

lemma jm_keys_iff: "k \<in> set (jm_keys m) \<longleftrightarrow> jm_has m k"
  by (auto simp: jm_keys_def jm_has_def map_of_eq_None_iff)

lemma jm_get_filter:
  "jm_wf m \<Longrightarrow> jm_get (filter p m) k =
    (case jm_get m k of None \<Rightarrow> None | Some v \<Rightarrow> if p (k, v) then Some v else None)"
  unfolding jm_wf_def jm_get_def
  by (induction m) (auto simp: map_of_eq_None_iff split: option.splits)

lemma jm_wf_filter: "jm_wf m \<Longrightarrow> jm_wf (filter p m)"
  by (auto simp: jm_wf_def distinct_map_filter)

section \<open>JavaScript Set objects\<close>

definition js_add :: "'a \<Rightarrow> 'a list \<Rightarrow> 'a list" where
  "js_add x xs = (if x \<in> set xs then xs else xs @ [x])"

lemma set_js_add [simp]: "set (js_add x xs) = insert x (set xs)"
  by (auto simp: js_add_def)

lemma distinct_js_add [simp]: "distinct (js_add x xs) = distinct xs"
  by (auto simp: js_add_def)

lemma length_js_add: "length (js_add x xs) = (if x \<in> set xs then length xs else Suc (length xs))"
  by (simp add: js_add_def)

lemma length_remove1_distinct:
  "length (remove1 x xs) = (if x \<in> set xs then length xs - 1 else length xs)"
  by (simp add: length_remove1)

section \<open>Reachability and invariants\<close>

inductive reach :: "('s \<Rightarrow> bool) \<Rightarrow> ('s \<Rightarrow> 'e \<Rightarrow> 's \<Rightarrow> bool) \<Rightarrow> 's \<Rightarrow> bool"
  for start :: "'s \<Rightarrow> bool" and trans :: "'s \<Rightarrow> 'e \<Rightarrow> 's \<Rightarrow> bool" where
  reach_start: "start s \<Longrightarrow> reach start trans s"
| reach_step: "reach start trans s \<Longrightarrow> trans s e t \<Longrightarrow> reach start trans t"

text \<open>
  The contract of an invariant: it holds where the machine starts and every step keeps it.
  Each component with a step relation discharges it once and reads the reachability form off.
\<close>

locale step_invariant =
  fixes start :: "'s \<Rightarrow> bool"
    and trans :: "'s \<Rightarrow> 'e \<Rightarrow> 's \<Rightarrow> bool"
    and inv :: "'s \<Rightarrow> bool"
  assumes inv_start: "start s \<Longrightarrow> inv s"
    and inv_step: "inv s \<Longrightarrow> trans s e t \<Longrightarrow> inv t"
begin

lemma inv_reach: "reach start trans s \<Longrightarrow> inv s"
  by (induction rule: reach.induct) (auto intro: inv_start inv_step)

lemma inv_reach_step: "reach start trans s \<Longrightarrow> trans s e t \<Longrightarrow> inv s \<and> inv t"
  by (auto intro: inv_reach inv_step)

end

section \<open>Results that may be an error\<close>

fun bind_res :: "'e + 'a \<Rightarrow> ('a \<Rightarrow> 'e + 'b) \<Rightarrow> 'e + 'b" where
  "bind_res (Inl e) f = Inl e"
| "bind_res (Inr a) f = f a"

lemma bind_res_Inr: "bind_res r f = Inr b \<longleftrightarrow> (\<exists>a. r = Inr a \<and> f a = Inr b)"
  by (cases r) auto

lemma bind_res_Inl: "bind_res r f = Inl e \<longleftrightarrow> r = Inl e \<or> (\<exists>a. r = Inr a \<and> f a = Inl e)"
  by (cases r) auto

fun mapM_res :: "('a \<Rightarrow> 'e + 'b) \<Rightarrow> 'a list \<Rightarrow> 'e + 'b list" where
  "mapM_res f [] = Inr []"
| "mapM_res f (x # xs) = bind_res (f x) (\<lambda>y. bind_res (mapM_res f xs) (\<lambda>ys. Inr (y # ys)))"

end
