(* ===== verification/Js_Text.thy ===== *)
theory Js_Text
  imports Agent_Prelude "HOL-Library.Char_ord" "HOL-Library.List_Lexorder"
    "HOL-Library.Code_Target_Nat"
begin

text \<open>
  JavaScript strings as the agent uses them. A \<open>string\<close> is a list of code units below 256, the
  Latin-1 part of UTF-16; every character class and literal the source tests is ASCII.
  Case mapping, trimming, splitting and joining follow ECMAScript on that range, and the decimal
  numerals that \<open>String(n)\<close> prints come with the reader that inverts them.
\<close>

section \<open>Characters\<close>

abbreviation code :: "char \<Rightarrow> nat" where
  "code c \<equiv> of_char c"

definition is_digit :: "char \<Rightarrow> bool" where
  "is_digit c = (48 \<le> code c \<and> code c \<le> 57)"

definition is_lower_alpha :: "char \<Rightarrow> bool" where
  "is_lower_alpha c = (97 \<le> code c \<and> code c \<le> 122)"

definition is_upper_alpha :: "char \<Rightarrow> bool" where
  "is_upper_alpha c = (65 \<le> code c \<and> code c \<le> 90)"

definition is_hex_lower :: "char \<Rightarrow> bool" where
  "is_hex_lower c = (is_digit c \<or> (97 \<le> code c \<and> code c \<le> 102))"

definition is_hex :: "char \<Rightarrow> bool" where
  "is_hex c = (is_hex_lower c \<or> (65 \<le> code c \<and> code c \<le> 70))"

text \<open>ECMAScript WhiteSpace and LineTerminator, on the range of the model.\<close>

definition is_space :: "char \<Rightarrow> bool" where
  "is_space c = (code c \<in> {9, 10, 11, 12, 13, 32, 160})"

definition lower_char :: "char \<Rightarrow> char" where
  "lower_char c =
    (let n = code c in
     if (65 \<le> n \<and> n \<le> 90) \<or> (192 \<le> n \<and> n \<le> 222 \<and> n \<noteq> 215) then char_of (n + 32) else c)"

definition js_lower :: "string \<Rightarrow> string" where
  "js_lower s = map lower_char s"

text \<open>
  Upper casing sharp s gives two letters. The micro sign and y with diaeresis leave the range
  and are kept as they are: no comparison of the source involves them.
\<close>

definition upper_char :: "char \<Rightarrow> string" where
  "upper_char c =
    (let n = code c in
     if n = 223 then ''SS''
     else if (97 \<le> n \<and> n \<le> 122) \<or> (224 \<le> n \<and> n \<le> 254 \<and> n \<noteq> 247) then [char_of (n - 32)]
     else [c])"

definition js_upper :: "string \<Rightarrow> string" where
  "js_upper s = concat (map upper_char s)"

lemma code_char_of: "n < 256 \<Longrightarrow> code (char_of n) = n"
  by (simp add: of_char_of)

lemma code_less_256: "code c < 256"
  using of_char_of[of "code c"] by (metis char_of_char mod_less_divisor zero_less_numeral)

lemma code_inject: "code c = code d \<longleftrightarrow> c = d"
  by (metis char_of_char)

lemma code_lower_char:
  "code (lower_char c) =
    (if (65 \<le> code c \<and> code c \<le> 90) \<or> (192 \<le> code c \<and> code c \<le> 222 \<and> code c \<noteq> 215)
     then code c + 32 else code c)"
  by (auto simp: lower_char_def Let_def of_char_of)

lemma lower_char_idem: "lower_char (lower_char c) = lower_char c"
  by (rule code_inject[THEN iffD1]) (auto simp: code_lower_char)

lemma lower_char_hex_lower: "is_hex_lower c \<Longrightarrow> lower_char c = c"
  by (rule code_inject[THEN iffD1]) (auto simp: code_lower_char is_hex_lower_def is_digit_def)

lemma is_hex_lower_lower_char: "is_hex c \<Longrightarrow> is_hex_lower (lower_char c)"
  by (auto simp: is_hex_def is_hex_lower_def is_digit_def code_lower_char)

lemma js_lower_idem [simp]: "js_lower (js_lower s) = js_lower s"
  by (simp add: js_lower_def lower_char_idem)

lemma length_js_lower [simp]: "length (js_lower s) = length s"
  by (simp add: js_lower_def)

lemma js_lower_hex: "list_all is_hex_lower s \<Longrightarrow> js_lower s = s"
  by (induction s) (auto simp: js_lower_def lower_char_hex_lower)

lemma is_hex_lower_is_hex: "is_hex_lower c \<Longrightarrow> is_hex c"
  by (simp add: is_hex_def)

section \<open>Trimming, splitting, joining\<close>

definition js_trim :: "string \<Rightarrow> string" where
  "js_trim s = rev (dropWhile is_space (rev (dropWhile is_space s)))"

fun split_on :: "char \<Rightarrow> string \<Rightarrow> string list" where
  "split_on d [] = [[]]"
| "split_on d (c # cs) =
    (if c = d then [] # split_on d cs
     else (case split_on d cs of [] \<Rightarrow> [[c]] | w # ws \<Rightarrow> (c # w) # ws))"

fun js_join :: "string \<Rightarrow> string list \<Rightarrow> string" where
  "js_join sep [] = []"
| "js_join sep [s] = s"
| "js_join sep (s # t # ss) = s @ sep @ js_join sep (t # ss)"

fun js_includes :: "string \<Rightarrow> string \<Rightarrow> bool" where
  "js_includes pat [] = (pat = [])"
| "js_includes pat (c # cs) = (take (length pat) (c # cs) = pat \<or> js_includes pat cs)"

definition starts_with :: "string \<Rightarrow> string \<Rightarrow> bool" where
  "starts_with s p = (take (length p) s = p)"

definition ends_with :: "string \<Rightarrow> string \<Rightarrow> bool" where
  "ends_with s p = starts_with (rev s) (rev p)"

lemma starts_with_append: "starts_with (p @ r) p"
  by (simp add: starts_with_def)

lemma starts_with_iff: "starts_with s p \<longleftrightarrow> (\<exists>r. s = p @ r)"
  unfolding starts_with_def by (metis append_eq_conv_conj append_take_drop_id)

lemma split_on_nonempty [simp]: "split_on d s \<noteq> []"
  by (induction s) (auto split: list.splits)

lemma split_on_no_delim: "w \<in> set (split_on d s) \<Longrightarrow> d \<notin> set w"
  by (induction s arbitrary: w) (auto split: list.splits if_splits)

lemma split_on_single: "d \<notin> set s \<Longrightarrow> split_on d s = [s]"
  by (induction s) auto

lemma split_on_app: "d \<notin> set w \<Longrightarrow> split_on d (w @ d # s) = w # split_on d s"
  by (induction w) auto

lemma join_split_on: "js_join [d] (split_on d s) = s"
proof (induction s)
  case (Cons c cs)
  obtain w ws where w: "split_on d cs = w # ws" by (cases "split_on d cs") auto
  have ih: "js_join [d] (w # ws) = cs" using Cons w by simp
  show ?case
  proof (cases "c = d")
    case True
    have "js_join [d] (split_on d (c # cs)) = js_join [d] ([] # w # ws)" using True w by simp
    also have "\<dots> = c # cs" using ih True by (simp only: js_join.simps append.simps)
    finally show ?thesis .
  next
    case False
    have "js_join [d] ((c # w) # ws) = c # js_join [d] (w # ws)" by (cases ws) simp_all
    then show ?thesis using False w ih by simp
  qed
qed simp

lemma split_on_join:
  assumes "ws \<noteq> []" "\<forall>w \<in> set ws. d \<notin> set w"
  shows "split_on d (js_join [d] ws) = ws"
  using assms
proof (induction ws rule: list_nonempty_induct)
  case (single w)
  then show ?case by (simp add: split_on_single)
next
  case (cons w ws)
  then obtain v vs where "ws = v # vs" by (cases ws) auto
  with cons show ?case by (simp add: split_on_app)
qed

lemma js_join_inj:
  assumes "us \<noteq> []" "vs \<noteq> []" "\<forall>w \<in> set us \<union> set vs. d \<notin> set w"
    and "js_join [d] us = js_join [d] vs"
  shows "us = vs"
proof -
  have "split_on d (js_join [d] us) = us" "split_on d (js_join [d] vs) = vs"
    by (rule split_on_join[OF assms(1)], use assms(3) in blast,
        rule split_on_join[OF assms(2)], use assms(3) in blast)
  with assms(4) show ?thesis by metis
qed

text \<open>
  Two strings cut at one occurrence of a separator: the pieces agree when neither first piece,
  or neither last piece, holds the separator.
\<close>

lemma cut_first_unique:
  assumes "d \<notin> set u" "d \<notin> set u'" "u @ d # r = u' @ d # r'"
  shows "u = u' \<and> r = r'"
  using assms by (induction u arbitrary: u') (auto simp: Cons_eq_append_conv append_eq_Cons_conv)

lemma cut_last_unique:
  assumes "d \<notin> set r" "d \<notin> set r'" "u @ d # r = u' @ d # r'"
  shows "u = u' \<and> r = r'"
proof -
  have "rev r @ d # rev u = rev r' @ d # rev u'"
    using arg_cong[OF assms(3), of rev] by simp
  with assms(1,2) have "rev r = rev r' \<and> rev u = rev u'"
    by (intro cut_first_unique) auto
  then show ?thesis by simp
qed

lemma js_trim_nil [simp]: "js_trim [] = []"
  by (simp add: js_trim_def)

lemma js_trim_no_space:
  assumes "s \<noteq> []" "\<not> is_space (hd s)" "\<not> is_space (last s)"
  shows "js_trim s = s"
proof -
  have "dropWhile is_space s = s" using assms(1,2) by (cases s) auto
  moreover have "dropWhile is_space (rev s) = rev s"
    using assms(1,3) by (cases "rev s") (auto simp: last_rev hd_rev dest: arg_cong[of _ _ rev])
  ultimately show ?thesis by (simp add: js_trim_def)
qed

section \<open>Decimal numerals\<close>

definition digit_char :: "nat \<Rightarrow> char" where
  "digit_char d = char_of (48 + d)"

definition digit_val :: "char \<Rightarrow> nat" where
  "digit_val c = code c - 48"

fun show_nat :: "nat \<Rightarrow> string" where
  "show_nat n = (if n < 10 then [digit_char n] else show_nat (n div 10) @ [digit_char (n mod 10)])"

declare show_nat.simps [simp del]

definition show_int :: "int \<Rightarrow> string" where
  "show_int i = (if i < 0 then CHR ''-'' # show_nat (nat (- i)) else show_nat (nat i))"

definition read_digits :: "string \<Rightarrow> nat" where
  "read_digits s = foldl (\<lambda>a c. 10 * a + digit_val c) 0 s"

lemma code_digit_char: "d < 10 \<Longrightarrow> code (digit_char d) = 48 + d"
  by (simp add: digit_char_def of_char_of)

lemma is_digit_digit_char: "d < 10 \<Longrightarrow> is_digit (digit_char d)"
  by (simp add: is_digit_def code_digit_char)

lemma digit_val_digit_char: "d < 10 \<Longrightarrow> digit_val (digit_char d) = d"
  by (simp add: digit_val_def code_digit_char)

lemma read_digits_snoc: "read_digits (s @ [c]) = 10 * read_digits s + digit_val c"
  by (simp add: read_digits_def)

lemma read_digits_Nil: "read_digits [] = 0"
  by (simp add: read_digits_def)

lemma read_digits_append: "read_digits (s @ t) = read_digits s * 10 ^ length t + read_digits t"
proof (induction t rule: rev_induct)
  case (snoc c t)
  have "read_digits (s @ t @ [c]) = 10 * read_digits (s @ t) + digit_val c"
    by (metis append_assoc read_digits_snoc)
  with snoc show ?case by (simp add: read_digits_snoc algebra_simps)
qed (simp add: read_digits_def)

lemma read_digits_zeros: "read_digits (replicate z (CHR ''0'')) = 0"
  by (induction z) (simp_all add: read_digits_def digit_val_def)

lemma read_show_nat: "read_digits (show_nat n) = n"
proof (induction n rule: show_nat.induct)
  case (1 n)
  then show ?case
    by (subst show_nat.simps) (auto simp: read_digits_snoc digit_val_digit_char read_digits_def)
qed

lemma show_nat_digits: "list_all is_digit (show_nat n)"
proof (induction n rule: show_nat.induct)
  case (1 n)
  then show ?case by (subst show_nat.simps) (auto simp: is_digit_digit_char)
qed

lemma show_nat_nonempty [simp]: "show_nat n \<noteq> []"
  by (subst show_nat.simps) simp

lemma show_nat_inj: "show_nat m = show_nat n \<Longrightarrow> m = n"
  by (metis read_show_nat)

lemma minus_not_digit: "\<not> is_digit (CHR ''-'')"
  by (simp add: is_digit_def)

lemma hd_show_nat: "is_digit (hd (show_nat n))"
  using show_nat_digits[of n] by (cases "show_nat n") auto

lemma show_int_inj: "show_int i = show_int j \<Longrightarrow> i = j"
proof -
  assume eq: "show_int i = show_int j"
  have clash: "CHR ''-'' # xs \<noteq> show_nat n" "show_nat n \<noteq> CHR ''-'' # xs" for xs n
    using hd_show_nat[of n] minus_not_digit by (metis list.sel(1))+
  from eq show ?thesis
    by (auto simp: show_int_def clash split: if_splits dest!: show_nat_inj)
qed

lemma set_show_int: "c \<in> set (show_int i) \<Longrightarrow> is_digit c \<or> c = CHR ''-''"
  using show_nat_digits by (auto simp: show_int_def list_all_iff split: if_splits)

lemma hd_show_nat_nonzero: "0 < n \<Longrightarrow> hd (show_nat n) \<noteq> CHR ''0''"
proof (induction n rule: show_nat.induct)
  case (1 n)
  show ?case
  proof (cases "n < 10")
    case True
    then have "digit_char n = CHR ''0'' \<Longrightarrow> False"
      using digit_val_digit_char[OF True] 1(2) by (simp add: digit_val_def)
    then show ?thesis using True by (subst show_nat.simps) auto
  next
    case False
    then have "hd (show_nat (n div 10)) \<noteq> CHR ''0''" using 1 by (simp add: div_greater_zero_iff)
    then show ?thesis using False by (subst show_nat.simps) simp
  qed
qed

lemma last_show_nat: "last (show_nat n) = digit_char (n mod 10)"
  by (subst show_nat.simps) simp

lemma digit_char_val: "is_digit c \<Longrightarrow> digit_char (digit_val c) = c"
  by (simp add: digit_char_def digit_val_def is_digit_def)

lemma digit_char_0 [simp]: "digit_char 0 = CHR ''0''"
  by code_simp

lemma digit_val_less: "is_digit c \<Longrightarrow> digit_val c < 10"
  by (auto simp: digit_val_def is_digit_def)

lemma show_nat_less_10: "n < 10 \<Longrightarrow> show_nat n = [digit_char n]"
  by (subst show_nat.simps) simp

lemma show_nat_ge_10: "\<not> n < 10 \<Longrightarrow> show_nat n = show_nat (n div 10) @ [digit_char (n mod 10)]"
  by (subst show_nat.simps) simp

text \<open>A decimal numeral without superfluous leading zeros is what printing its value gives.\<close>

lemma show_read_digits:
  assumes "s \<noteq> []" "list_all is_digit s" "s = ''0'' \<or> hd s \<noteq> CHR ''0''"
  shows "show_nat (read_digits s) = s"
  using assms
proof (induction s rule: rev_induct)
  case (snoc c s)
  then have c: "is_digit c" by simp
  show ?case
  proof (cases "s = []")
    case True
    with c show ?thesis
      by (simp add: read_digits_def show_nat_less_10 digit_val_less digit_char_val)
  next
    case False
    with snoc.prems have h: "hd s \<noteq> CHR ''0''" by auto
    with snoc False have ih: "show_nat (read_digits s) = s" by simp
    have "read_digits s \<noteq> 0"
    proof
      assume "read_digits s = 0"
      with ih have "s = ''0''" by (simp add: show_nat_less_10)
      with h show False by simp
    qed
    then have "\<not> read_digits (s @ [c]) < 10" by (simp add: read_digits_snoc)
    then have "show_nat (read_digits (s @ [c])) =
        show_nat (read_digits (s @ [c]) div 10) @ [digit_char (read_digits (s @ [c]) mod 10)]"
      by (rule show_nat_ge_10)
    also have "read_digits (s @ [c]) div 10 = read_digits s"
      using digit_val_less[OF c] by (simp add: read_digits_snoc)
    also have "read_digits (s @ [c]) mod 10 = digit_val c"
      using digit_val_less[OF c] by (simp add: read_digits_snoc)
    finally show ?thesis using ih c by (simp add: digit_char_val)
  qed
qed simp

end
