(* ===== verification/Js_Numbers.thy ===== *)
theory Js_Numbers
  imports Complex_Main Js_Text
begin

text \<open>
  JavaScript numbers. A finite number is kept as the shortest decimal that denotes it,
  \<open>NDec m e\<close> for \<open>m * 10 ^ e\<close> with \<open>m\<close> not a multiple of ten, which is what
  \<open>Number::toString\<close> prints; the two zeros are one. Rounding of results with more than
  seventeen digits to a double is not modelled. \<open>num_to_string\<close> is ECMAScript's
  \<open>Number::toString\<close>, \<open>string_to_num\<close> its \<open>StringToNumber\<close>; printing is shown injective.
\<close>

datatype jsnum = NNaN | NInf bool | NDec int int

fun strip10 :: "nat \<Rightarrow> int \<Rightarrow> nat \<times> int" where
  "strip10 m e =
    (if m = 0 then (0, 0) else if m mod 10 = 0 then strip10 (m div 10) (e + 1) else (m, e))"

declare strip10.simps [simp del]

definition mk_dec :: "int \<Rightarrow> int \<Rightarrow> jsnum" where
  "mk_dec m e = (let (a, b) = strip10 (nat \<bar>m\<bar>) e in NDec (sgn m * int a) b)"

definition num_of_int :: "int \<Rightarrow> jsnum" where
  "num_of_int i = mk_dec i 0"

fun num_wf :: "jsnum \<Rightarrow> bool" where
  "num_wf (NDec m e) = (if m = 0 then e = 0 else m mod 10 \<noteq> 0)"
| "num_wf _ = True"

fun num_finite :: "jsnum \<Rightarrow> bool" where
  "num_finite (NDec m e) = True"
| "num_finite _ = False"

text \<open>The value of a finite number; not used on \<open>NaN\<close> and the infinities.\<close>

fun num_val :: "jsnum \<Rightarrow> rat" where
  "num_val (NDec m e) =
    (if 0 \<le> e then of_int (m * 10 ^ nat e) else of_int m / 10 ^ nat (- e))"
| "num_val _ = 0"

text \<open>\<open>Number.isInteger\<close>, and the integer.\<close>

fun num_int :: "jsnum \<Rightarrow> int option" where
  "num_int (NDec m e) = (if 0 \<le> e then Some (m * 10 ^ nat e) else None)"
| "num_int _ = None"

section \<open>Printing\<close>

definition pos_to_string :: "nat \<Rightarrow> int \<Rightarrow> string" where
  "pos_to_string m e =
    (let s = show_nat m; k = int (length s); n = k + e;
         ex = (if n - 1 < 0 then CHR ''-'' else CHR ''+'') # show_nat (nat \<bar>n - 1\<bar>)
     in if k \<le> n \<and> n \<le> 21 then s @ replicate (nat (n - k)) (CHR ''0'')
        else if 0 < n \<and> n \<le> 21 then take (nat n) s @ CHR ''.'' # drop (nat n) s
        else if - 6 < n \<and> n \<le> 0 then CHR ''0'' # CHR ''.'' # replicate (nat (- n)) (CHR ''0'') @ s
        else if k = 1 then s @ CHR ''e'' # ex
        else (hd s # CHR ''.'' # tl s) @ CHR ''e'' # ex)"

fun num_to_string :: "jsnum \<Rightarrow> string" where
  "num_to_string NNaN = ''NaN''"
| "num_to_string (NInf neg) = (if neg then ''-Infinity'' else ''Infinity'')"
| "num_to_string (NDec m e) =
    (if m = 0 then ''0''
     else if m < 0 then CHR ''-'' # pos_to_string (nat (- m)) e else pos_to_string (nat m) e)"

section \<open>Reading\<close>

definition split_exp :: "string \<Rightarrow> int option" where
  "split_exp r =
    (case r of
       [] \<Rightarrow> Some 0
     | c # r' \<Rightarrow>
         if c = CHR ''e'' \<or> c = CHR ''E'' then
           (let (neg, ds) =
              (case r' of
                 [] \<Rightarrow> (False, [])
               | d # ds \<Rightarrow> if d = CHR ''-'' then (True, ds) else if d = CHR ''+'' then (False, ds)
                          else (False, r'))
            in if ds \<noteq> [] \<and> list_all is_digit ds
               then Some (if neg then - int (read_digits ds) else int (read_digits ds)) else None)
         else None)"

definition read_dec :: "string \<Rightarrow> jsnum" where
  "read_dec s =
    (let ip = takeWhile is_digit s; r = dropWhile is_digit s;
         dot = (r \<noteq> [] \<and> hd r = CHR ''.'');
         fp = (if dot then takeWhile is_digit (tl r) else []);
         r2 = (if dot then dropWhile is_digit (tl r) else r)
     in if ip = [] \<and> fp = [] then NNaN
        else (case split_exp r2 of
                None \<Rightarrow> NNaN
              | Some x \<Rightarrow> mk_dec (int (read_digits (ip @ fp))) (x - int (length fp))))"

definition hex_val :: "char \<Rightarrow> nat" where
  "hex_val c = (let n = code (lower_char c) in if n \<le> 57 then n - 48 else n - 87)"

definition read_radix :: "nat \<Rightarrow> string \<Rightarrow> jsnum" where
  "read_radix b s =
    (if s \<noteq> [] \<and> list_all (\<lambda>c. is_hex c \<and> hex_val c < b) s
     then num_of_int (int (foldl (\<lambda>a c. b * a + hex_val c) 0 s)) else NNaN)"

fun num_neg :: "jsnum \<Rightarrow> jsnum" where
  "num_neg (NDec m e) = NDec (- m) e"
| "num_neg (NInf b) = NInf (\<not> b)"
| "num_neg NNaN = NNaN"

definition read_unsigned :: "string \<Rightarrow> jsnum" where
  "read_unsigned s = (if s = ''Infinity'' then NInf False else read_dec s)"

definition string_to_num :: "string \<Rightarrow> jsnum" where
  "string_to_num s0 =
    (let s = js_trim s0; p = js_lower (take 2 s)
     in if s = [] then NDec 0 0
        else if p = ''0x'' then read_radix 16 (drop 2 s)
        else if p = ''0o'' then read_radix 8 (drop 2 s)
        else if p = ''0b'' then read_radix 2 (drop 2 s)
        else if hd s = CHR ''-'' then num_neg (read_unsigned (tl s))
        else if hd s = CHR ''+'' then read_unsigned (tl s)
        else read_unsigned s)"

section \<open>Canonical decimals\<close>

lemma strip10_canonical:
  "strip10 m e = (a, b) \<Longrightarrow> (if a = 0 then m = 0 \<and> b = 0 else m \<noteq> 0 \<and> a mod 10 \<noteq> 0)"
proof (induction m e rule: strip10.induct)
  case (1 m e)
  then show ?case
    by (subst (asm) (2) strip10.simps) (auto split: if_splits)
qed

lemma mk_dec_wf: "num_wf (mk_dec m e)"
proof -
  obtain a b where ab: "strip10 (nat \<bar>m\<bar>) e = (a, b)" by fastforce
  have "a mod 10 \<noteq> 0 \<Longrightarrow> int a mod 10 \<noteq> 0 \<and> (- int a) mod 10 \<noteq> 0" by presburger
  with strip10_canonical[OF ab] show ?thesis
    by (auto simp: mk_dec_def ab sgn_if split: if_splits)
qed

lemma num_of_int_wf [simp]: "num_wf (num_of_int i)"
  by (simp add: num_of_int_def mk_dec_wf)

lemma strip10_value: "strip10 m (int k) = (a, b) \<Longrightarrow> 0 \<le> b \<and> m * 10 ^ k = a * 10 ^ nat b"
proof (induction m "int k" arbitrary: k rule: strip10.induct)
  case (1 m)
  show ?case
  proof (cases "m = 0")
    case True
    with "1.prems" show ?thesis by (subst (asm) strip10.simps) auto
  next
    case nz: False
    show ?thesis
    proof (cases "m mod 10 = 0")
      case True
      with nz "1.prems" have "strip10 (m div 10) (int (Suc k)) = (a, b)"
        by (subst (asm) strip10.simps) (simp add: add.commute)
      with "1.hyps"[OF nz True, of "Suc k"] have "0 \<le> b \<and> m div 10 * 10 ^ Suc k = a * 10 ^ nat b"
        by (simp add: add.commute)
      moreover from True have "m = m div 10 * 10" by presburger
      then have "m * 10 ^ k = m div 10 * 10 ^ Suc k" by (metis mult.assoc power_Suc)
      ultimately show ?thesis by simp
    next
      case False
      with nz "1.prems" show ?thesis by (subst (asm) strip10.simps) auto
    qed
  qed
qed

lemma num_int_of_int [simp]: "num_int (num_of_int i) = Some i"
proof -
  obtain a b where ab: "strip10 (nat \<bar>i\<bar>) (int 0) = (a, b)" by fastforce
  from strip10_value[OF ab] have b: "0 \<le> b" and v: "nat \<bar>i\<bar> = a * 10 ^ nat b" by simp_all
  from v have "\<bar>i\<bar> = int a * 10 ^ nat b"
    by (metis abs_ge_zero int_nat_eq of_nat_mult of_nat_numeral of_nat_power)
  then have "sgn i * int a * 10 ^ nat b = i"
    by (metis mult.assoc sgn_mult_abs)
  with ab b show ?thesis by (simp add: num_of_int_def mk_dec_def)
qed

lemma num_val_of_int [simp]: "num_val (num_of_int i) = of_int i"
  using num_int_of_int[of i] by (cases "num_of_int i") (auto split: if_splits)

lemma num_finite_of_int [simp]: "num_finite (num_of_int i)"
  using num_int_of_int[of i] by (cases "num_of_int i") auto

lemma num_of_int_inj: "num_of_int i = num_of_int j \<Longrightarrow> i = j"
  by (metis num_int_of_int option.inject)

lemma num_finite_dec: "num_finite x \<Longrightarrow> \<exists>m e. x = NDec m e"
  by (cases x) auto

section \<open>Printing is injective\<close>

text \<open>The characters of a numeral; none of them is a JSON delimiter.\<close>

definition is_num_char :: "char \<Rightarrow> bool" where
  "is_num_char c = (is_digit c \<or> c \<in> {CHR ''-'', CHR ''+'', CHR ''.'', CHR ''e''})"

lemma is_digit_consts [simp]:
  "is_digit (CHR ''0'')" "\<not> is_digit (CHR ''e'')" "\<not> is_digit (CHR ''.'')"
  "\<not> is_digit (CHR ''-'')" "\<not> is_digit (CHR ''+'')"
  by (simp_all add: is_digit_def)

lemma show_nat_no: "\<not> is_digit c \<Longrightarrow> c \<notin> set (show_nat n)"
  using show_nat_digits[of n] by (auto simp: list_all_iff)

lemma last_show_nat_nonzero: "m mod 10 \<noteq> 0 \<Longrightarrow> last (show_nat m) \<noteq> CHR ''0''"
  using digit_val_digit_char[of "m mod 10"] by (auto simp: last_show_nat digit_val_def)

lemma leading_zeros_unique:
  assumes "replicate a z @ s = replicate b z @ t" "s \<noteq> []" "t \<noteq> []" "hd s \<noteq> z" "hd t \<noteq> z"
  shows "a = b \<and> s = t"
  using assms
proof (induction a arbitrary: b)
  case 0
  then show ?case by (cases b) auto
next
  case (Suc a)
  then show ?case by (cases b) auto
qed

lemma trailing_zeros_unique:
  assumes "s @ replicate a z = t @ replicate b z" "s \<noteq> []" "t \<noteq> []" "last s \<noteq> z" "last t \<noteq> z"
  shows "a = b \<and> s = t"
proof -
  have "replicate a z @ rev s = replicate b z @ rev t"
    using arg_cong[OF assms(1), of rev] by simp
  with assms(2-5) have "a = b \<and> rev s = rev t"
    by (intro leading_zeros_unique) (auto simp: hd_rev)
  then show ?thesis by simp
qed

text \<open>The four layouts of a positive decimal, as a datatype that records which one was used.\<close>

datatype layout = Plain nat | Point nat | Small nat | Expo int

definition layout_of :: "nat \<Rightarrow> int \<Rightarrow> layout" where
  "layout_of m e =
    (let k = int (length (show_nat m)); n = k + e
     in if k \<le> n \<and> n \<le> 21 then Plain (nat (n - k))
        else if 0 < n \<and> n \<le> 21 then Point (nat n)
        else if - 6 < n \<and> n \<le> 0 then Small (nat (- n))
        else Expo (n - 1))"

fun print_layout :: "string \<Rightarrow> layout \<Rightarrow> string" where
  "print_layout s (Plain z) = s @ replicate z (CHR ''0'')"
| "print_layout s (Point n) = take n s @ CHR ''.'' # drop n s"
| "print_layout s (Small z) = CHR ''0'' # CHR ''.'' # replicate z (CHR ''0'') @ s"
| "print_layout s (Expo x) =
    (if length s = 1 then s else hd s # CHR ''.'' # tl s) @ CHR ''e'' #
    (if x < 0 then CHR ''-'' else CHR ''+'') # show_nat (nat \<bar>x\<bar>)"

fun layout_ok :: "string \<Rightarrow> layout \<Rightarrow> bool" where
  "layout_ok s (Point n) = (0 < n \<and> n < length s)"
| "layout_ok s _ = True"

lemma pos_to_string_layout: "pos_to_string m e = print_layout (show_nat m) (layout_of m e)"
  by (simp add: pos_to_string_def layout_of_def Let_def)

lemma layout_of_ok: "layout_ok (show_nat m) (layout_of m e)"
  by (auto simp: layout_of_def Let_def)

lemma layout_of_inj: "layout_of m e = layout_of m e' \<Longrightarrow> e = e'"
  by (auto simp: layout_of_def Let_def split: if_splits)

definition plain_digits :: "string \<Rightarrow> bool" where
  "plain_digits s \<longleftrightarrow> s \<noteq> [] \<and> list_all is_digit s \<and> hd s \<noteq> CHR ''0'' \<and> last s \<noteq> CHR ''0''"

lemma plain_digits_no: "plain_digits s \<Longrightarrow> \<not> is_digit c \<Longrightarrow> c \<notin> set s"
  by (auto simp: plain_digits_def list_all_iff)

lemma plain_digits_hd: "plain_digits s \<Longrightarrow> hd s \<in> set s"
  by (auto simp: plain_digits_def)

text \<open>Which layout printed a string can be read off it.\<close>

definition layout_kind :: "string \<Rightarrow> nat" where
  "layout_kind t =
    (if CHR ''e'' \<in> set t then 3 else if CHR ''.'' \<notin> set t then 0
     else if hd t = CHR ''0'' then 2 else 1)"

lemma print_layout_kind:
  assumes "plain_digits s" "layout_ok s x"
  shows "layout_kind (print_layout s x) =
    (case x of Plain _ \<Rightarrow> 0 | Point _ \<Rightarrow> 1 | Small _ \<Rightarrow> 2 | Expo _ \<Rightarrow> 3)"
proof (cases x)
  case (Plain z)
  then show ?thesis using plain_digits_no[OF assms(1)] by (simp add: layout_kind_def)
next
  case (Point n)
  then have "take n s \<noteq> []" "hd (take n s) = hd s"
    using assms by (cases s; simp add: hd_take)+
  moreover have "CHR ''e'' \<notin> set (take n s)" "CHR ''e'' \<notin> set (drop n s)"
    using plain_digits_no[OF assms(1)] by (auto dest: in_set_takeD in_set_dropD)
  ultimately show ?thesis
    using Point assms(1) by (simp add: layout_kind_def plain_digits_def)
next
  case (Small z)
  then show ?thesis using plain_digits_no[OF assms(1)] by (simp add: layout_kind_def)
next
  case (Expo i)
  then show ?thesis by (simp add: layout_kind_def)
qed

lemma print_expo_inj:
  assumes s: "plain_digits s" and t: "plain_digits t"
    and eq: "print_layout s (Expo i) = print_layout t (Expo j)"
  shows "s = t \<and> i = j"
proof -
  define mant where "mant w = (if length w = 1 then w else hd w # CHR ''.'' # tl w)" for w :: string
  have no: "CHR ''e'' \<notin> set (mant w)" if "plain_digits w" for w
    using plain_digits_no[OF that, of "CHR ''e''"] that
    by (cases w) (auto simp: mant_def plain_digits_def)
  have dot: "length w = 1 \<longleftrightarrow> CHR ''.'' \<notin> set (mant w)" if "plain_digits w" for w
    using plain_digits_no[OF that, of "CHR ''.''"] by (auto simp: mant_def)
  have "mant s = mant t \<and> (if i < 0 then CHR ''-'' else CHR ''+'') # show_nat (nat \<bar>i\<bar>) =
      (if j < 0 then CHR ''-'' else CHR ''+'') # show_nat (nat \<bar>j\<bar>)"
    by (rule cut_first_unique[where d = "CHR ''e''"]) (use no s t eq in \<open>auto simp: mant_def\<close>)
  then have m: "mant s = mant t" and "(i < 0) = (j < 0)" "nat \<bar>i\<bar> = nat \<bar>j\<bar>"
    by (auto split: if_splits dest: show_nat_inj)
  then have "i = j" by linarith
  moreover have "s = t"
    using m dot[OF s] dot[OF t] s t
    by (cases s; cases t) (auto simp: mant_def plain_digits_def split: if_splits)
  ultimately show ?thesis by simp
qed

lemma print_layout_inj:
  assumes s: "plain_digits s" "layout_ok s x" and t: "plain_digits t" "layout_ok t y"
    and eq: "print_layout s x = print_layout t y"
  shows "s = t \<and> x = y"
proof -
  note k = print_layout_kind[OF s] print_layout_kind[OF t] eq
  have ne: "s \<noteq> []" "t \<noteq> []" and l: "last s \<noteq> CHR ''0''" "last t \<noteq> CHR ''0''"
    and h: "hd s \<noteq> CHR ''0''" "hd t \<noteq> CHR ''0''"
    using s t by (auto simp: plain_digits_def)
  show ?thesis
  proof (cases x)
    case (Plain a)
    with k obtain b where y: "y = Plain b" by (cases y) auto
    have "s @ replicate a (CHR ''0'') = t @ replicate b (CHR ''0'')" using Plain y eq by simp
    from trailing_zeros_unique[OF this ne l] show ?thesis using Plain y by simp
  next
    case (Point a)
    with k obtain b where y: "y = Point b" by (cases y) auto
    have no: "CHR ''.'' \<notin> set s" "CHR ''.'' \<notin> set t"
      using s(1) t(1) by (simp_all add: plain_digits_no)
    have cut: "take a s = take b t \<and> drop a s = drop b t"
    proof (rule cut_first_unique)
      show "CHR ''.'' \<notin> set (take a s)" using no(1) by (blast dest: in_set_takeD)
      show "CHR ''.'' \<notin> set (take b t)" using no(2) by (blast dest: in_set_takeD)
      show "take a s @ CHR ''.'' # drop a s = take b t @ CHR ''.'' # drop b t"
        using eq Point y by simp
    qed
    have "length (take a s) = a" "length (take b t) = b" using s(2) t(2) Point y by simp_all
    with cut have "a = b" by metis
    moreover from cut have "s = t" by (metis append_take_drop_id)
    ultimately show ?thesis using Point y by simp
  next
    case (Small a)
    with k obtain b where y: "y = Small b" by (cases y) auto
    have "replicate a (CHR ''0'') @ s = replicate b (CHR ''0'') @ t" using Small y eq by simp
    from leading_zeros_unique[OF this ne h] show ?thesis using Small y by simp
  next
    case (Expo i)
    with k obtain j where y: "y = Expo j" by (cases y) auto
    have "print_layout s (Expo i) = print_layout t (Expo j)" using Expo y eq by (simp only:)
    from print_expo_inj[OF s(1) t(1) this] show ?thesis using Expo y by blast
  qed
qed

lemma show_nat_plain_digits: "0 < m \<Longrightarrow> m mod 10 \<noteq> 0 \<Longrightarrow> plain_digits (show_nat m)"
  by (simp add: plain_digits_def show_nat_digits hd_show_nat_nonzero last_show_nat_nonzero)

lemma pos_to_string_inj:
  assumes "0 < m" "m mod 10 \<noteq> 0" "0 < n" "n mod 10 \<noteq> 0" "pos_to_string m e = pos_to_string n f"
  shows "m = n \<and> e = f"
proof -
  have "show_nat m = show_nat n \<and> layout_of m e = layout_of n f"
    using assms layout_of_ok
    by (intro print_layout_inj) (auto simp: show_nat_plain_digits pos_to_string_layout)
  then show ?thesis using show_nat_inj layout_of_inj by metis
qed

lemma hd_pos_to_string: "is_digit (hd (pos_to_string m e))"
proof -
  have "show_nat m \<noteq> []" by simp
  then show ?thesis
    using hd_show_nat[of m] layout_of_ok[of m e] unfolding pos_to_string_layout
    by (cases "layout_of m e") (auto simp: hd_append hd_take)
qed

lemma pos_to_string_not_zero: "0 < m \<Longrightarrow> pos_to_string m e \<noteq> ''0''"
proof
  assume m: "0 < m" and eq: "pos_to_string m e = ''0''"
  have "hd (show_nat m) \<noteq> CHR ''0''" using m by (rule hd_show_nat_nonzero)
  with eq show False unfolding pos_to_string_layout
    by (cases "layout_of m e") (auto simp: append_eq_Cons_conv Cons_eq_append_conv split: if_splits)
qed

lemma set_print_layout:
  assumes "list_all is_digit s" "s \<noteq> []"
  shows "list_all is_num_char (print_layout s x)"
proof -
  have d: "is_num_char c" if "c \<in> set s" for c
    using that assms(1) by (simp add: list_all_iff is_num_char_def)
  have t: "is_num_char c" if "c \<in> set (take n s)" for c n
    using that d by (blast dest: in_set_takeD)
  have u: "is_num_char c" if "c \<in> set (drop n s)" for c n
    using that d by (blast dest: in_set_dropD)
  have v: "is_num_char c" if "c \<in> set (show_nat n)" for c n
    using that show_nat_digits[of n] by (simp add: list_all_iff is_num_char_def)
  have w: "is_num_char (hd s)" "c \<in> set (tl s) \<Longrightarrow> is_num_char c" for c
    using d assms(2) by (cases s; simp)+
  have cs: "is_num_char (CHR ''0'')" "is_num_char (CHR ''.'')" "is_num_char (CHR ''e'')"
    "is_num_char (CHR ''-'')" "is_num_char (CHR ''+'')"
    by (simp_all add: is_num_char_def)
  show ?thesis
    by (cases x) (auto simp: list_all_iff cs w(1) dest: d t u v w(2))
qed

lemma set_pos_to_string: "list_all is_num_char (pos_to_string m e)"
  unfolding pos_to_string_layout by (rule set_print_layout) (simp_all add: show_nat_digits)

lemma num_to_string_chars: "num_finite x \<Longrightarrow> list_all is_num_char (num_to_string x)"
  using set_pos_to_string by (cases x) (auto simp: is_num_char_def is_digit_def)

lemma num_to_string_nonempty: "num_to_string x \<noteq> []"
proof (cases x)
  case (NDec m e)
  have "pos_to_string n f \<noteq> []" for n f
    unfolding pos_to_string_layout by (cases "layout_of n f") auto
  with NDec show ?thesis by simp
qed simp_all

lemma num_to_string_inj:
  assumes "num_wf x" "num_wf y" "num_finite x" "num_finite y" "num_to_string x = num_to_string y"
  shows "x = y"
proof -
  obtain m e n f where x: "x = NDec m e" and y: "y = NDec n f"
    using assms(3,4) num_finite_dec by metis
  have minus: "CHR ''-'' # w \<noteq> pos_to_string a b" "pos_to_string a b \<noteq> CHR ''-'' # w" for w a b
    using hd_pos_to_string[of a b] is_digit_consts(4) by (metis list.sel(1))+
  have pos': "nat i mod 10 \<noteq> 0" if "0 < i" "i mod 10 \<noteq> 0" for i :: int
  proof -
    have "nat i mod 10 = nat (i mod 10)" using that by (simp add: nat_mod_distrib)
    moreover have "0 < i mod 10" using that pos_mod_sign[of 10 i] by simp
    ultimately show ?thesis by simp
  qed
  have pos: "nat (- i) mod 10 \<noteq> 0" if "i < 0" "i mod 10 \<noteq> 0" for i :: int
    using that pos'[of "- i"] by (simp add: zmod_zminus1_eq_if)
  consider "m = 0" | "m < 0" | "0 < m" by linarith
  then show ?thesis
  proof cases
    case 1
    then show ?thesis
      using assms pos_to_string_not_zero[of "nat n" f] x y by (auto split: if_splits)
  next
    case 2
    then have "n < 0" using assms x y minus by (auto split: if_splits)
    then show ?thesis
      using 2 assms x y pos_to_string_inj[of "nat (- m)" "nat (- n)" e f] pos by auto
  next
    case 3
    then have "0 < n"
      using assms x y minus pos_to_string_not_zero[of "nat m" e] by (auto split: if_splits)
    then show ?thesis
      using 3 assms x y pos_to_string_inj[of "nat m" "nat n" e f] pos' by auto
  qed
qed

end
