(* ===== verification/Js_Values.thy ===== *)
theory Js_Values
  imports Js_Numbers "HOL-Library.Multiset"
begin

text \<open>
  JavaScript values as the signing code sees them. An object graph is represented by its
  unfolding: every array and object node carries the identity (\<open>addr\<close>) of the object it stands
  for, a shared object occurs once per path, and a cyclic graph is cut off anywhere below the
  first node whose identity already occurs above it. Own properties are listed in JavaScript's
  enumeration order (array indices ascending, then creation order). \<open>JToJSON v\<close> is an object
  with no own properties and an inherited \<open>toJSON\<close> method that returns \<open>v\<close>, such as a \<open>Date\<close>;
  \<open>JFun\<close> is a function or symbol.
\<close>

type_synonym addr = nat

datatype js_error = TypeError string

datatype jsval =
    JUndef
  | JNull
  | JBool bool
  | JNum jsnum
  | JStr string
  | JFun
  | JBigInt int
  | JToJSON jsval
  | JArr addr "jsval list"
  | JObj addr "(string \<times> jsval) list"

section \<open>Own properties\<close>

text \<open>An array index: a canonical decimal numeral below \<open>2 ^ 32 - 1\<close>.\<close>

definition is_index :: "string \<Rightarrow> bool" where
  "is_index k =
    (k \<noteq> [] \<and> list_all is_digit k \<and> (k = ''0'' \<or> hd k \<noteq> CHR ''0'') \<and>
     read_digits k < 4294967295)"

fun insert_index :: "string \<Rightarrow> 'v \<Rightarrow> (string \<times> 'v) list \<Rightarrow> (string \<times> 'v) list" where
  "insert_index k v [] = [(k, v)]"
| "insert_index k v ((j, w) # r) =
    (if is_index j \<and> read_digits j < read_digits k then (j, w) # insert_index k v r
     else (k, v) # (j, w) # r)"

text \<open>
  Defining an own property (object literals, spread): in place when it exists, else at the end,
  or among the array indices. Assigning a property does the same, except that assigning
  \<open>__proto__\<close> sets the prototype and leaves the own properties as they are.
\<close>

definition obj_define :: "string \<Rightarrow> 'v \<Rightarrow> (string \<times> 'v) list \<Rightarrow> (string \<times> 'v) list" where
  "obj_define k v kvs =
    (if map_of kvs k \<noteq> None then AList.update k v kvs
     else if is_index k then insert_index k v kvs else kvs @ [(k, v)])"

definition obj_assign :: "string \<Rightarrow> 'v \<Rightarrow> (string \<times> 'v) list \<Rightarrow> (string \<times> 'v) list" where
  "obj_assign k v kvs = (if k = ''__proto__'' then kvs else obj_define k v kvs)"

definition obj_get :: "(string \<times> jsval) list \<Rightarrow> string \<Rightarrow> jsval" where
  "obj_get kvs k = (case map_of kvs k of None \<Rightarrow> JUndef | Some v \<Rightarrow> v)"

text \<open>Reading a field of any value: a primitive or an absent field gives \<open>undefined\<close>.\<close>

fun get_field :: "jsval \<Rightarrow> string \<Rightarrow> jsval" where
  "get_field (JObj a kvs) k = obj_get kvs k"
| "get_field _ _ = JUndef"

section \<open>JSON.stringify\<close>

text \<open>The values \<open>normalize\<close> builds: freshly made arrays and objects, so no identities.\<close>

datatype nval =
    NUndef
  | NNull
  | NBool bool
  | NNum jsnum
  | NStr string
  | NFun
  | NBigInt int
  | NArr "nval list"
  | NObj "(string \<times> nval) list"

definition hex_digit :: "nat \<Rightarrow> char" where
  "hex_digit d = (if d < 10 then char_of (48 + d) else char_of (87 + d))"

definition quote_char :: "char \<Rightarrow> string" where
  "quote_char c =
    (let n = code c in
     if n = 34 then [CHR 0x5C, CHR 0x22]
     else if n = 92 then [CHR 0x5C, CHR 0x5C]
     else if n = 8 then [CHR 0x5C, CHR ''b'']
     else if n = 9 then [CHR 0x5C, CHR ''t'']
     else if n = 10 then [CHR 0x5C, CHR ''n'']
     else if n = 12 then [CHR 0x5C, CHR ''f'']
     else if n = 13 then [CHR 0x5C, CHR ''r'']
     else if n < 32
       then [CHR 0x5C, CHR ''u'', CHR ''0'', CHR ''0'', hex_digit (n div 16), hex_digit (n mod 16)]
     else [c])"

definition quote :: "string \<Rightarrow> string" where
  "quote s = CHR 0x22 # concat (map quote_char s) @ [CHR 0x22]"

definition wrap :: "string \<Rightarrow> string \<Rightarrow> string \<Rightarrow> string" where
  "wrap l s r = l @ s @ r"

text \<open>
  \<open>JSON.stringify\<close>: \<open>undefined\<close> for an undefined value or a function, which an array prints as
  \<open>null\<close> and an object leaves out; a BigInt anywhere raises.
\<close>

fun stringify :: "nval \<Rightarrow> js_error + string option"
  and stringify_elems :: "nval list \<Rightarrow> js_error + string list"
  and stringify_members :: "(string \<times> nval) list \<Rightarrow> js_error + string list" where
  "stringify NUndef = Inr None"
| "stringify NFun = Inr None"
| "stringify NNull = Inr (Some ''null'')"
| "stringify (NBool b) = Inr (Some (if b then ''true'' else ''false''))"
| "stringify (NNum x) = Inr (Some (if num_finite x then num_to_string x else ''null''))"
| "stringify (NStr s) = Inr (Some (quote s))"
| "stringify (NBigInt i) = Inl (TypeError ''Do not know how to serialize a BigInt'')"
| "stringify (NArr vs) =
    bind_res (stringify_elems vs) (\<lambda>ss. Inr (Some (wrap ''['' (js_join '','' ss) '']'')))"
| "stringify (NObj kvs) =
    bind_res (stringify_members kvs) (\<lambda>ss. Inr (Some (wrap ''{'' (js_join '','' ss) ''}'')))"
| "stringify_elems [] = Inr []"
| "stringify_elems (v # vs) =
    bind_res (stringify v) (\<lambda>s. bind_res (stringify_elems vs)
      (\<lambda>ss. Inr ((case s of None \<Rightarrow> ''null'' | Some t \<Rightarrow> t) # ss)))"
| "stringify_members [] = Inr []"
| "stringify_members ((k, v) # kvs) =
    bind_res (stringify v) (\<lambda>s. bind_res (stringify_members kvs)
      (\<lambda>ss. Inr (case s of None \<Rightarrow> ss | Some t \<Rightarrow> (quote k @ CHR '':'' # t) # ss)))"

section \<open>Normalisation\<close>

definition circular_error :: js_error where
  "circular_error = TypeError ''Cannot canonicalize a value with circular references.''"

text \<open>
  The \<open>seen\<close> set is the mutable \<open>WeakSet\<close> of the source, threaded through the calls. It is
  extended before the children of a node are visited and cut back in the \<open>finally\<close> block,
  on the normal and on the exceptional exit.
\<close>

definition sorted_members :: "(string \<times> jsval) list \<Rightarrow> (string \<times> jsval) list" where
  "sorted_members kvs = sort_key fst kvs"

lemma size_list_sort_key: "size_list f (sort_key g xs) = size_list f xs"
proof -
  have "size_list f ys = sum_mset (image_mset (\<lambda>x. Suc (f x)) (mset ys))" for ys
    by (induction ys) auto
  then show ?thesis by simp
qed

function (sequential) normalize :: "jsval \<Rightarrow> addr set \<Rightarrow> (js_error + nval) \<times> addr set"
  and normalize_elems :: "jsval list \<Rightarrow> addr set \<Rightarrow> (js_error + nval list) \<times> addr set"
  and normalize_members ::
    "(string \<times> jsval) list \<Rightarrow> addr set \<Rightarrow> (string \<times> nval) list \<Rightarrow>
     (js_error + (string \<times> nval) list) \<times> addr set" where
  "normalize JUndef seen = (Inr NUndef, seen)"
| "normalize JNull seen = (Inr NNull, seen)"
| "normalize (JBool b) seen = (Inr (NBool b), seen)"
| "normalize (JNum x) seen = (Inr (NNum x), seen)"
| "normalize (JStr s) seen = (Inr (NStr s), seen)"
| "normalize JFun seen = (Inr NFun, seen)"
| "normalize (JBigInt i) seen = (Inr (NBigInt i), seen)"
| "normalize (JToJSON v) seen = normalize v seen"
| "normalize (JArr a vs) seen =
    (if a \<in> seen then (Inl circular_error, seen)
     else let (r, seen') = normalize_elems vs (insert a seen)
          in (bind_res r (\<lambda>ns. Inr (NArr ns)), seen' - {a}))"
| "normalize (JObj a kvs) seen =
    (if a \<in> seen then (Inl circular_error, seen)
     else let (r, seen') = normalize_members (sorted_members kvs) (insert a seen) []
          in (bind_res r (\<lambda>ms. Inr (NObj ms)), seen' - {a}))"
| "normalize_elems [] seen = (Inr [], seen)"
| "normalize_elems (v # vs) seen =
    (case normalize v seen of
       (Inl e, seen1) \<Rightarrow> (Inl e, seen1)
     | (Inr n, seen1) \<Rightarrow>
         (let (r, seen2) = normalize_elems vs seen1 in (bind_res r (\<lambda>ns. Inr (n # ns)), seen2)))"
| "normalize_members [] seen acc = (Inr acc, seen)"
| "normalize_members ((k, v) # kvs) seen acc =
    (if v = JUndef then normalize_members kvs seen acc
     else (case normalize v seen of
             (Inl e, seen1) \<Rightarrow> (Inl e, seen1)
           | (Inr n, seen1) \<Rightarrow> normalize_members kvs seen1 (obj_assign k n acc)))"
  by pat_completeness auto

termination
  by (relation "measure (\<lambda>x. case x of
        Inl (v, _) \<Rightarrow> 2 * size v + 1
      | Inr (Inl (vs, _)) \<Rightarrow> 2 * size_list size vs
      | Inr (Inr (kvs, _, _)) \<Rightarrow> 2 * size_list (size_prod (\<lambda>_. 0) size) kvs)")
     (auto simp: sorted_members_def size_list_sort_key)

definition canonicalize :: "jsval \<Rightarrow> js_error + string" where
  "canonicalize v =
    bind_res (fst (normalize v {})) (\<lambda>n. bind_res (stringify n)
      (\<lambda>s. Inr (case s of None \<Rightarrow> ''null'' | Some t \<Rightarrow> t)))"

end
