(* ===== verification/Js_Canonical.thy ===== *)
theory Js_Canonical
  imports Js_Values
begin

text \<open>
  What the canonical string of a value means. \<open>jcontent\<close> is the JSON content of a value with
  objects as finite maps, so that key order and object identity are gone by construction. The
  canonical string is shown to be a complete invariant of that content: two values have the
  same canonical string exactly when they have the same content. On the way: \<open>normalize\<close> gives
  its \<open>seen\<close> set back, it raises exactly on a cycle, its members come out in one fixed order,
  and the printer of JSON texts is injective.
\<close>

section \<open>The seen set and cycles\<close>

lemma normalize_restores:
  "snd (normalize v seen) = seen"
  "snd (normalize_elems vs seen) = seen"
  "snd (normalize_members kvs seen acc) = seen"
proof (induction v seen and vs seen and kvs seen acc
    rule: normalize_normalize_elems_normalize_members.induct)
  case (12 v vs seen)
  obtain r s1 where n: "normalize v seen = (r, s1)" by (cases "normalize v seen")
  with 12(1) have "s1 = seen" by simp
  with n 12(2) show ?case by (cases r) (simp_all add: case_prod_beta Let_def)
next
  case (14 k v kvs seen acc)
  obtain r s1 where n: "normalize v seen = (r, s1)" by (cases "normalize v seen")
  show ?case
  proof (cases "v = JUndef")
    case True
    with 14(1) show ?thesis by simp
  next
    case False
    with n 14(2) have "s1 = seen" by simp
    with False n 14(3) show ?thesis by (cases r) simp_all
  qed
qed (simp_all add: case_prod_beta Let_def)

text \<open>A value is cyclic below a set of ancestors when some path meets an identity twice.\<close>

fun cyclic :: "addr set \<Rightarrow> jsval \<Rightarrow> bool" where
  "cyclic anc (JToJSON v) = cyclic anc v"
| "cyclic anc (JArr a vs) = (a \<in> anc \<or> (\<exists>v \<in> set vs. cyclic (insert a anc) v))"
| "cyclic anc (JObj a kvs) = (a \<in> anc \<or> (\<exists>kv \<in> set kvs. cyclic (insert a anc) (snd kv)))"
| "cyclic anc _ = False"

lemma set_sorted_members [simp]: "set (sorted_members kvs) = set kvs"
  by (simp add: sorted_members_def)

lemma normalize_error_iff:
  "(\<exists>e. fst (normalize v seen) = Inl e) \<longleftrightarrow> cyclic seen v"
  "(\<exists>e. fst (normalize_elems vs seen) = Inl e) \<longleftrightarrow> (\<exists>v \<in> set vs. cyclic seen v)"
  "(\<exists>e. fst (normalize_members kvs seen acc) = Inl e) \<longleftrightarrow> (\<exists>kv \<in> set kvs. cyclic seen (snd kv))"
proof (induction v seen and vs seen and kvs seen acc
    rule: normalize_normalize_elems_normalize_members.induct)
  case (9 a vs seen)
  then show ?case by (auto split: prod.splits simp: bind_res_Inl)
next
  case (10 a kvs seen)
  then show ?case by (cases "a \<in> seen") (auto split: prod.splits simp: bind_res_Inl)
next
  case (12 v vs seen)
  have r: "snd (normalize v seen) = seen" by (rule normalize_restores)
  show ?case
    using 12 r by (cases "normalize v seen"; cases "fst (normalize v seen)")
      (auto split: prod.splits simp: bind_res_Inl)
next
  case (14 k v kvs seen acc)
  have r: "snd (normalize v seen) = seen" by (rule normalize_restores)
  show ?case
    using 14 r by (cases "normalize v seen"; cases "fst (normalize v seen)") auto
qed auto

lemma normalize_error_value:
  "fst (normalize v seen) = Inl e \<Longrightarrow> e = circular_error"
  "fst (normalize_elems vs seen) = Inl e \<Longrightarrow> e = circular_error"
  "fst (normalize_members kvs seen acc) = Inl e \<Longrightarrow> e = circular_error"
proof (induction v seen and vs seen and kvs seen acc
    rule: normalize_normalize_elems_normalize_members.induct)
  case (12 v vs seen)
  then show ?case
    by (cases "normalize v seen"; cases "fst (normalize v seen)")
       (auto split: prod.splits simp: bind_res_Inl)
next
  case (14 k v kvs seen acc)
  then show ?case
    by (cases "normalize v seen"; cases "fst (normalize v seen)") (auto split: if_splits)
qed (auto split: prod.splits if_splits simp: bind_res_Inl)

section \<open>Member order\<close>

text \<open>The order in which the members of a normalised object are printed.\<close>

definition key_less :: "string \<Rightarrow> string \<Rightarrow> bool" where
  "key_less j k =
    (if is_index j then (if is_index k then read_digits j < read_digits k else True)
     else \<not> is_index k \<and> j < k)"

lemma key_less_irrefl: "\<not> key_less k k"
  by (simp add: key_less_def)

lemma key_less_trans: "key_less i j \<Longrightarrow> key_less j k \<Longrightarrow> key_less i k"
  by (auto simp: key_less_def split: if_splits)

lemma sorted_wrt_unique:
  assumes "sorted_wrt key_less (map fst xs)" "sorted_wrt key_less (map fst ys)"
    and "map_of xs = map_of ys"
  shows "xs = ys"
  using assms
proof (induction xs arbitrary: ys)
  case Nil
  then show ?case by (cases ys) (auto simp: fun_eq_iff split: if_splits)
next
  case (Cons x xs)
  obtain k v where x: "x = (k, v)" by (cases x)
  have dist: "distinct (map fst zs)" if "sorted_wrt key_less (map fst zs)" for zs :: "(string \<times> 'a) list"
    using that by (induction zs) (auto simp: key_less_irrefl)
  from Cons.prems(3) x have "map_of ys k = Some v" by (metis map_of_Cons_code(2))
  then obtain y ys' where ys: "ys = y # ys'" by (cases ys) auto
  obtain j w where y: "y = (j, w)" by (cases y)
  have jk: "j = k"
  proof (rule ccontr)
    assume ne: "j \<noteq> k"
    have "map_of xs j = Some w" using Cons.prems(3) ne x y ys by (auto simp: fun_eq_iff split: if_splits)
    then have "key_less k j" using Cons.prems(1) x by (force dest: map_of_SomeD)
    moreover have "map_of ys' k = Some v"
      using \<open>map_of ys k = Some v\<close> ne y ys by (auto split: if_splits)
    then have "key_less j k" using Cons.prems(2) ys y by (force dest: map_of_SomeD)
    ultimately show False using key_less_trans key_less_irrefl by blast
  qed
  then have "v = w" using \<open>map_of ys k = Some v\<close> y ys by simp
  moreover have "map_of xs = map_of ys'"
  proof
    fix i
    have "k \<notin> fst ` set xs" "k \<notin> fst ` set ys'"
      using dist[OF Cons.prems(1)] dist[OF Cons.prems(2)] x y ys jk by auto
    then have "map_of xs k = None" "map_of ys' k = None" by (simp_all add: map_of_eq_None_iff)
    then show "map_of xs i = map_of ys' i"
      using Cons.prems(3) x y ys jk by (cases "i = k") (auto simp: fun_eq_iff split: if_splits)
  qed
  ultimately show ?case
    using Cons.IH[of ys'] Cons.prems(1,2) x y ys jk by simp
qed

lemma index_inj:
  assumes "is_index j" "is_index k" "read_digits j = read_digits k"
  shows "j = k"
proof -
  have "show_nat (read_digits i) = i" if "is_index i" for i
    using that by (intro show_read_digits) (auto simp: is_index_def)
  with assms show ?thesis by metis
qed

lemma key_less_total: "j \<noteq> k \<Longrightarrow> key_less j k \<or> key_less k j"
  using index_inj by (auto simp: key_less_def) (metis nat_neq_iff)+

lemma insert_index_spec:
  assumes "is_index k" "sorted_wrt key_less (map fst kvs)" "k \<notin> fst ` set kvs"
  shows "sorted_wrt key_less (map fst (insert_index k v kvs)) \<and>
    set (insert_index k v kvs) = insert (k, v) (set kvs)"
  using assms
proof (induction kvs)
  case (Cons jw r)
  obtain j w where jw: "jw = (j, w)" by (cases jw)
  show ?case
  proof (cases "is_index j \<and> read_digits j < read_digits k")
    case True
    then have "key_less j k" using Cons.prems by (simp add: key_less_def)
    with True Cons jw show ?thesis by auto
  next
    case False
    then have "\<not> key_less j k" using Cons.prems(1) by (auto simp: key_less_def)
    then have kj: "key_less k j" using key_less_total Cons.prems(3) jw by force
    then have "key_less k i" if "i \<in> fst ` set r" for i
      using that Cons.prems(2) jw key_less_trans by auto
    with False kj Cons.prems jw show ?thesis by auto
  qed
qed simp

text \<open>Keys assigned in ascending order land in the fixed order.\<close>

lemma obj_assign_spec:
  assumes "sorted_wrt key_less (map fst acc)" "\<forall>j \<in> fst ` set acc. j < k"
  shows "sorted_wrt key_less (map fst (obj_assign k v acc)) \<and>
    set (obj_assign k v acc) = (if k = ''__proto__'' then set acc else insert (k, v) (set acc))"
proof -
  have fresh: "k \<notin> fst ` set acc" using assms(2) by auto
  then have none: "map_of acc k = None" by (simp add: map_of_eq_None_iff)
  have "sorted_wrt key_less (map fst acc @ [k])" if "\<not> is_index k"
    using that assms by (auto simp: sorted_wrt_append key_less_def)
  then show ?thesis
    using insert_index_spec[OF _ assms(1) fresh] assms(1) none
    by (auto simp: obj_assign_def obj_define_def)
qed

section \<open>The JSON content of a value\<close>

text \<open>
  Objects are finite maps: an undefined member is absent, and so is a member named
  \<open>__proto__\<close>, which assignment cannot store. An element that is undefined counts as null.
\<close>

datatype cval =
    CUndef
  | CNull
  | CBool bool
  | CNum jsnum
  | CStr string
  | CArr "cval list"
  | CObj "string \<Rightarrow> cval option"

fun null_if_undef :: "cval \<Rightarrow> cval" where
  "null_if_undef CUndef = CNull"
| "null_if_undef c = c"

definition add_member :: "string \<Rightarrow> cval \<Rightarrow> (string \<times> cval) list \<Rightarrow> (string \<times> cval) list" where
  "add_member k c ms =
    (case c of CUndef \<Rightarrow> ms | _ \<Rightarrow> if k = ''__proto__'' then ms else (k, c) # ms)"

fun jcontent :: "jsval \<Rightarrow> cval"
  and jcontent_elems :: "jsval list \<Rightarrow> cval list"
  and jcontent_members :: "(string \<times> jsval) list \<Rightarrow> (string \<times> cval) list" where
  "jcontent JUndef = CUndef"
| "jcontent JNull = CNull"
| "jcontent (JBool b) = CBool b"
| "jcontent (JNum x) = (if num_finite x then CNum x else CNull)"
| "jcontent (JStr s) = CStr s"
| "jcontent JFun = CUndef"
| "jcontent (JBigInt i) = CUndef"
| "jcontent (JToJSON v) = jcontent v"
| "jcontent (JArr a vs) = CArr (jcontent_elems vs)"
| "jcontent (JObj a kvs) = CObj (map_of (jcontent_members kvs))"
| "jcontent_elems [] = []"
| "jcontent_elems (v # vs) = null_if_undef (jcontent v) # jcontent_elems vs"
| "jcontent_members [] = []"
| "jcontent_members ((k, v) # kvs) = add_member k (jcontent v) (jcontent_members kvs)"

fun ncontent :: "nval \<Rightarrow> cval"
  and ncontent_elems :: "nval list \<Rightarrow> cval list"
  and ncontent_members :: "(string \<times> nval) list \<Rightarrow> (string \<times> cval) list" where
  "ncontent NUndef = CUndef"
| "ncontent NNull = CNull"
| "ncontent (NBool b) = CBool b"
| "ncontent (NNum x) = (if num_finite x then CNum x else CNull)"
| "ncontent (NStr s) = CStr s"
| "ncontent NFun = CUndef"
| "ncontent (NBigInt i) = CUndef"
| "ncontent (NArr vs) = CArr (ncontent_elems vs)"
| "ncontent (NObj kvs) = CObj (map_of (ncontent_members kvs))"
| "ncontent_elems [] = []"
| "ncontent_elems (v # vs) = null_if_undef (ncontent v) # ncontent_elems vs"
| "ncontent_members [] = []"
| "ncontent_members ((k, v) # kvs) = add_member k (ncontent v) (ncontent_members kvs)"

text \<open>Well-formed values: canonical decimals and distinct own keys.\<close>

fun jsval_wf :: "jsval \<Rightarrow> bool" where
  "jsval_wf (JNum x) = num_wf x"
| "jsval_wf (JToJSON v) = jsval_wf v"
| "jsval_wf (JArr a vs) = list_all jsval_wf vs"
| "jsval_wf (JObj a kvs) = (distinct (map fst kvs) \<and> list_all (\<lambda>kv. jsval_wf (snd kv)) kvs)"
| "jsval_wf _ = True"

definition known :: "cval \<Rightarrow> cval option" where
  "known c = (case c of CUndef \<Rightarrow> None | _ \<Rightarrow> Some c)"

lemma map_of_add_member:
  "map_of (add_member k c ms) j =
    (if j = k \<and> k \<noteq> ''__proto__'' \<and> c \<noteq> CUndef then Some c else map_of ms j)"
  by (cases c) (auto simp: add_member_def)

definition mk_members :: "(string \<times> cval) list \<Rightarrow> (string \<times> cval) list" where
  "mk_members ps = foldr (\<lambda>p. add_member (fst p) (snd p)) ps []"

lemma map_of_mk_members_None: "k \<notin> fst ` set ps \<Longrightarrow> map_of (mk_members ps) k = None"
  by (induction ps) (auto simp: mk_members_def map_of_add_member)

lemma known_None_iff: "known c = None \<longleftrightarrow> c = CUndef"
  by (cases c) (auto simp: known_def)

lemma known_CUndef [simp]: "known CUndef = None"
  by (simp add: known_def)

lemma map_of_map_values: "map_of (map (\<lambda>(k, v). (k, f v)) kvs) k = map_option f (map_of kvs k)"
  by (induction kvs) auto

lemma known_Some: "c \<noteq> CUndef \<Longrightarrow> known c = Some c"
  by (cases c) (auto simp: known_def)

lemma map_of_mk_members:
  "distinct (map fst ps) \<Longrightarrow> map_of (mk_members ps) k =
    (if k = ''__proto__'' then None else Option.bind (map_of ps k) known)"
proof (induction ps)
  case (Cons p ps)
  have un: "mk_members (p # ps) = add_member (fst p) (snd p) (mk_members ps)"
    by (simp add: mk_members_def)
  show ?case
  proof (cases "k = fst p")
    case True
    with Cons.prems have "map_of (mk_members ps) k = None" by (simp add: map_of_mk_members_None)
    with True show ?thesis
      by (cases "snd p = CUndef") (auto simp: un map_of_add_member known_Some)
  next
    case False
    with Cons show ?thesis by (simp add: un map_of_add_member)
  qed
qed (simp add: mk_members_def)

lemma map_of_mk_values:
  assumes "distinct (map fst kvs)"
  shows "map_of (mk_members (map (\<lambda>(k, v). (k, f v)) kvs)) k =
    (if k = ''__proto__'' then None else Option.bind (map_of kvs k) (\<lambda>v. known (f v)))"
proof -
  have "map fst (map (\<lambda>(k, v). (k, f v)) kvs) = map fst kvs" by (induction kvs) auto
  with assms have "distinct (map fst (map (\<lambda>(k, v). (k, f v)) kvs))" by (simp only:)
  from map_of_mk_members[OF this] show ?thesis
    unfolding map_of_map_values by (cases "map_of kvs k") simp_all
qed

lemma jcontent_members_mk: "jcontent_members kvs = mk_members (map (\<lambda>(k, v). (k, jcontent v)) kvs)"
  by (induction kvs) (auto simp: mk_members_def)

lemma ncontent_members_mk: "ncontent_members kvs = mk_members (map (\<lambda>(k, v). (k, ncontent v)) kvs)"
  by (induction kvs) (auto simp: mk_members_def)

lemmas map_of_jcontent = map_of_mk_values[where f = jcontent, folded jcontent_members_mk]
lemmas map_of_ncontent = map_of_mk_values[where f = ncontent, folded ncontent_members_mk]

section \<open>Normalisation keeps the content\<close>

text \<open>What the member loop collects, when the keys come in ascending order.\<close>

definition asc :: "string list \<Rightarrow> bool" where
  "asc ks = sorted_wrt (<) ks"

lemma normalize_members_spec:
  assumes "fst (normalize_members kvs seen acc) = Inr ms"
    and "asc (map fst kvs)" "\<forall>j \<in> fst ` set acc. \<forall>k \<in> fst ` set kvs. j < k"
    and "sorted_wrt key_less (map fst acc)"
  shows "sorted_wrt key_less (map fst ms) \<and>
    (\<forall>k n. (k, n) \<in> set ms \<longleftrightarrow> (k, n) \<in> set acc \<or>
      (\<exists>v. (k, v) \<in> set kvs \<and> v \<noteq> JUndef \<and> k \<noteq> ''__proto__'' \<and> fst (normalize v seen) = Inr n))"
  using assms
proof (induction kvs arbitrary: acc)
  case (Cons jv kvs)
  obtain j v where jv: "jv = (j, v)" by (cases jv)
  have asc': "asc (map fst kvs)" and lt: "\<forall>k \<in> fst ` set kvs. j < k"
    using Cons.prems(2) jv by (auto simp: asc_def)
  show ?case
  proof (cases "v = JUndef")
    case True
    with Cons.IH[of acc] Cons.prems asc' jv show ?thesis by auto
  next
    case False
    then obtain n where n: "normalize v seen = (Inr n, seen)"
      using Cons.prems(1) jv normalize_restores(1)[of v seen]
      by (cases "normalize v seen"; cases "fst (normalize v seen)") auto
    have acc: "sorted_wrt key_less (map fst (obj_assign j n acc)) \<and>
        set (obj_assign j n acc) = (if j = ''__proto__'' then set acc else insert (j, n) (set acc))"
      using Cons.prems(3,4) jv by (intro obj_assign_spec) auto
    have "sorted_wrt key_less (map fst ms) \<and>
      (\<forall>k m. (k, m) \<in> set ms \<longleftrightarrow> (k, m) \<in> set (obj_assign j n acc) \<or>
        (\<exists>v. (k, v) \<in> set kvs \<and> v \<noteq> JUndef \<and> k \<noteq> ''__proto__'' \<and> fst (normalize v seen) = Inr m))"
      using Cons.prems False n jv asc' lt acc
      by (intro Cons.IH) (auto split: if_splits)
    with acc n False jv show ?thesis by (auto split: if_splits)
  qed
qed simp

lemma asc_sorted_members: "distinct (map fst kvs) \<Longrightarrow> asc (map fst (sorted_members kvs))"
proof -
  assume "distinct (map fst kvs)"
  then have "distinct (map fst (sorted_members kvs))"
    unfolding sorted_members_def by (metis distinct_map distinct_sort mset_sort set_mset_mset set_sort
        sorted_members_def set_sorted_members)
  moreover have "sorted (map fst (sorted_members kvs))" by (simp add: sorted_members_def)
  ultimately show ?thesis by (simp add: asc_def strict_sorted_iff)
qed

lemma key_sorted_distinct: "sorted_wrt key_less ks \<Longrightarrow> distinct ks"
  by (induction ks) (auto simp: key_less_irrefl)

lemma normalize_content:
  "fst (normalize v seen) = Inr n \<Longrightarrow> jsval_wf v \<Longrightarrow> ncontent n = jcontent v"
  "fst (normalize_elems vs seen) = Inr ns \<Longrightarrow> list_all jsval_wf vs \<Longrightarrow>
    ncontent_elems ns = jcontent_elems vs"
  "fst (normalize_members kvs seen acc) = Inr ms \<Longrightarrow> list_all (\<lambda>kv. jsval_wf (snd kv)) kvs \<Longrightarrow>
    \<forall>k v m. (k, v) \<in> set kvs \<longrightarrow> v \<noteq> JUndef \<longrightarrow> fst (normalize v seen) = Inr m \<longrightarrow>
      ncontent m = jcontent v"
proof (induction v seen and vs seen and kvs seen acc arbitrary: n and ns and ms
    rule: normalize_normalize_elems_normalize_members.induct)
  case (9 a vs seen)
  then show ?case by (auto split: if_splits prod.splits simp: bind_res_Inr)
next
  case (10 a kvs seen)
  from "10.prems"(1) obtain ms where a: "a \<notin> seen" and n: "n = NObj ms"
    and ms: "fst (normalize_members (sorted_members kvs) (insert a seen) []) = Inr ms"
    by (auto split: if_splits prod.splits simp: bind_res_Inr)
  have d: "distinct (map fst kvs)" and wf: "list_all (\<lambda>kv. jsval_wf (snd kv)) (sorted_members kvs)"
    using "10.prems"(2) by (auto simp: list_all_iff)
  have spec: "sorted_wrt key_less (map fst ms)"
    "(k, m) \<in> set ms \<longleftrightarrow> (\<exists>v. (k, v) \<in> set kvs \<and> v \<noteq> JUndef \<and> k \<noteq> ''__proto__'' \<and>
      fst (normalize v (insert a seen)) = Inr m)" for k m
    using normalize_members_spec[OF ms] asc_sorted_members[OF d] by auto
  have ih: "ncontent m = jcontent v"
    if "(k, v) \<in> set kvs" "v \<noteq> JUndef" "fst (normalize v (insert a seen)) = Inr m" for k v m
    using "10.IH"[OF a ms wf] that by simp
  have ok: "\<exists>m. fst (normalize v (insert a seen)) = Inr m" if "(k, v) \<in> set kvs" for k v
  proof -
    have "\<not> (\<exists>kv \<in> set (sorted_members kvs). cyclic (insert a seen) (snd kv))"
      using normalize_error_iff(3)[of "sorted_members kvs" "insert a seen" "[]"] ms by simp
    with that have "\<not> (\<exists>e. fst (normalize v (insert a seen)) = Inl e)"
      using normalize_error_iff(1) by force
    then show ?thesis by (cases "fst (normalize v (insert a seen))") auto
  qed
  have dm: "distinct (map fst ms)" using spec(1) by (rule key_sorted_distinct)
  have "map_of (ncontent_members ms) k = map_of (jcontent_members kvs) k" for k
  proof (cases "k = ''__proto__''")
    case True
    then show ?thesis by (simp add: map_of_ncontent[OF dm] map_of_jcontent[OF d])
  next
    case np: False
    show ?thesis
    proof (cases "map_of kvs k")
      case None
      have "map_of ms k = None"
      proof (rule ccontr)
        assume "map_of ms k \<noteq> None"
        then obtain m where "(k, m) \<in> set ms" by (auto dest: map_of_SomeD)
        then obtain v where "(k, v) \<in> set kvs" using spec(2) by blast
        from weak_map_of_SomeI[OF this] None show False by simp
      qed
      with None show ?thesis by (simp add: map_of_ncontent[OF dm] map_of_jcontent[OF d])
    next
      case (Some v)
      then have kv: "(k, v) \<in> set kvs" by (rule map_of_SomeD)
      show ?thesis
      proof (cases "v = JUndef")
        case True
        have "map_of ms k = None"
        proof (rule ccontr)
          assume "map_of ms k \<noteq> None"
          then obtain m where "(k, m) \<in> set ms" by (auto dest: map_of_SomeD)
          then obtain v' where "(k, v') \<in> set kvs" "v' \<noteq> JUndef" using spec(2) by blast
          with kv True d show False by (metis eq_key_imp_eq_value)
        qed
        with True Some show ?thesis
          by (simp add: map_of_ncontent[OF dm] map_of_jcontent[OF d])
      next
        case False
        obtain m where m: "fst (normalize v (insert a seen)) = Inr m" using ok[OF kv] by blast
        then have "(k, m) \<in> set ms" using spec(2) kv False np by blast
        then have "map_of ms k = Some m" using dm by simp
        with Some ih[OF kv False m] show ?thesis
          by (simp add: map_of_ncontent[OF dm] map_of_jcontent[OF d])
      qed
    qed
  qed
  then show ?case by (auto simp: n fun_eq_iff)
next
  case (12 v vs seen)
  obtain r s1 where r: "normalize v seen = (r, s1)" by (cases "normalize v seen")
  then have "s1 = seen" using normalize_restores(1)[of v seen] by simp
  with 12 r show ?case by (cases r) (auto simp: bind_res_Inr case_prod_beta)
next
  case (14 k v kvs seen acc)
  show ?case
  proof (cases "v = JUndef")
    case True
    with 14 show ?thesis by auto
  next
    case False
    obtain r s1 where r: "normalize v seen = (r, s1)" by (cases "normalize v seen")
    then have "s1 = seen" using normalize_restores(1)[of v seen] by simp
    with 14 r False show ?thesis by (cases r) auto
  qed
qed (auto split: if_splits)

section \<open>The printed form\<close>

text \<open>
  \<open>clean\<close> drops what \<open>JSON.stringify\<close> leaves out; \<open>print\<close> prints what is left. \<open>cnf\<close> is the
  normal form a cleaned, normalised value is in.
\<close>

fun clean :: "nval \<Rightarrow> nval option"
  and clean_elems :: "nval list \<Rightarrow> nval list"
  and clean_members :: "(string \<times> nval) list \<Rightarrow> (string \<times> nval) list" where
  "clean NUndef = None"
| "clean NFun = None"
| "clean (NBigInt i) = None"
| "clean NNull = Some NNull"
| "clean (NBool b) = Some (NBool b)"
| "clean (NNum x) = Some (if num_finite x then NNum x else NNull)"
| "clean (NStr s) = Some (NStr s)"
| "clean (NArr vs) = Some (NArr (clean_elems vs))"
| "clean (NObj kvs) = Some (NObj (clean_members kvs))"
| "clean_elems [] = []"
| "clean_elems (v # vs) = (case clean v of None \<Rightarrow> NNull | Some n \<Rightarrow> n) # clean_elems vs"
| "clean_members [] = []"
| "clean_members ((k, v) # kvs) =
    (case clean v of None \<Rightarrow> clean_members kvs | Some n \<Rightarrow> (k, n) # clean_members kvs)"

fun print :: "nval \<Rightarrow> string" where
  "print (NBool b) = (if b then ''true'' else ''false'')"
| "print (NNum x) = num_to_string x"
| "print (NStr s) = quote s"
| "print (NArr vs) = wrap ''['' (js_join '','' (map print vs)) '']''"
| "print (NObj kvs) =
    wrap ''{'' (js_join '','' (map (\<lambda>kv. quote (fst kv) @ CHR '':'' # print (snd kv)) kvs)) ''}''"
| "print _ = ''null''"

fun cnf :: "nval \<Rightarrow> bool" where
  "cnf (NNum x) = (num_finite x \<and> num_wf x)"
| "cnf (NArr vs) = list_all cnf vs"
| "cnf (NObj kvs) =
    (sorted_wrt key_less (map fst kvs) \<and> ''__proto__'' \<notin> fst ` set kvs \<and>
     list_all (\<lambda>kv. cnf (snd kv)) kvs)"
| "cnf NNull = True"
| "cnf (NBool b) = True"
| "cnf (NStr s) = True"
| "cnf _ = False"

lemma stringify_print:
  "stringify n = Inr r \<Longrightarrow> r = map_option print (clean n)"
  "stringify_elems ns = Inr ss \<Longrightarrow> ss = map print (clean_elems ns)"
  "stringify_members ms = Inr ss \<Longrightarrow>
    ss = map (\<lambda>kv. quote (fst kv) @ CHR '':'' # print (snd kv)) (clean_members ms)"
  by (induction n and ns and ms arbitrary: r and ss and ss
      rule: stringify_stringify_elems_stringify_members.induct)
     (auto simp: bind_res_Inr split: option.splits)

lemma set_clean_members:
  "(k, m) \<in> set (clean_members ms) \<longleftrightarrow> (\<exists>n. (k, n) \<in> set ms \<and> clean n = Some m)"
proof (induction ms)
  case (Cons jn ms)
  then show ?case by (cases jn; cases "clean (snd jn)") auto
qed simp

lemma clean_members_fst: "k \<in> fst ` set (clean_members ms) \<Longrightarrow> k \<in> fst ` set ms"
  using set_clean_members by force

lemma clean_members_sorted:
  "sorted_wrt key_less (map fst ms) \<Longrightarrow> sorted_wrt key_less (map fst (clean_members ms))"
proof (induction ms)
  case (Cons km ms)
  then have "\<forall>j \<in> fst ` set (clean_members ms). key_less (fst km) j"
    using clean_members_fst by fastforce
  with Cons show ?case by (cases km; cases "clean (snd km)") auto
qed simp

lemma clean_content:
  "ncontent n = (case clean n of None \<Rightarrow> CUndef | Some m \<Rightarrow> ncontent m)"
  "ncontent_elems ns = ncontent_elems (clean_elems ns)"
  "ncontent_members ms = ncontent_members (clean_members ms)"
  by (induction n and ns and ms rule: clean_clean_elems_clean_members.induct)
     (simp_all add: add_member_def split: option.splits cval.splits)

text \<open>Normalising a well-formed value and cleaning the result gives a normal form.\<close>

lemma normalize_cnf:
  "fst (normalize v seen) = Inr n \<Longrightarrow> jsval_wf v \<Longrightarrow> clean n = Some m \<Longrightarrow> cnf m"
  "fst (normalize_elems vs seen) = Inr ns \<Longrightarrow> list_all jsval_wf vs \<Longrightarrow> list_all cnf (clean_elems ns)"
  "fst (normalize_members kvs seen acc) = Inr ms \<Longrightarrow> list_all (\<lambda>kv. jsval_wf (snd kv)) kvs \<Longrightarrow>
    \<forall>k v m n. (k, v) \<in> set kvs \<longrightarrow> v \<noteq> JUndef \<longrightarrow> fst (normalize v seen) = Inr n \<longrightarrow>
      clean n = Some m \<longrightarrow> cnf m"
proof (induction v seen and vs seen and kvs seen acc arbitrary: n m and ns and ms
    rule: normalize_normalize_elems_normalize_members.induct)
  case (9 a vs seen)
  then show ?case by (auto split: if_splits prod.splits simp: bind_res_Inr)
next
  case (10 a kvs seen)
  from "10.prems"(1) obtain ms where a: "a \<notin> seen" and n: "n = NObj ms"
    and ms: "fst (normalize_members (sorted_members kvs) (insert a seen) []) = Inr ms"
    by (auto split: if_splits prod.splits simp: bind_res_Inr)
  have d: "distinct (map fst kvs)" and wf: "list_all (\<lambda>kv. jsval_wf (snd kv)) (sorted_members kvs)"
    using "10.prems"(2) by (auto simp: list_all_iff)
  have spec: "sorted_wrt key_less (map fst ms)"
    "(k, m) \<in> set ms \<longleftrightarrow> (\<exists>v. (k, v) \<in> set kvs \<and> v \<noteq> JUndef \<and> k \<noteq> ''__proto__'' \<and>
      fst (normalize v (insert a seen)) = Inr m)" for k m
    using normalize_members_spec[OF ms] asc_sorted_members[OF d] by auto
  have "cnf m'" if nm: "(k, n') \<in> set ms" and cl: "clean n' = Some m'" for k n' m'
  proof -
    from nm obtain v where "(k, v) \<in> set (sorted_members kvs)" "v \<noteq> JUndef"
      "fst (normalize v (insert a seen)) = Inr n'" using spec(2) by auto
    with "10.IH"[OF a ms wf] cl show ?thesis by blast
  qed
  then have "cnf (snd kv)" if "kv \<in> set (clean_members ms)" for kv
    using that by (cases kv) (metis set_clean_members snd_conv)
  then have "list_all (\<lambda>kv. cnf (snd kv)) (clean_members ms)"
    unfolding list_all_iff by blast
  moreover have "''__proto__'' \<notin> fst ` set ms"
  proof
    assume "''__proto__'' \<in> fst ` set ms"
    then obtain kv where kv: "''__proto__'' = fst kv" "kv \<in> set ms" by (rule imageE)
    from kv(2) have "(fst kv, snd kv) \<in> set ms" by simp
    then have "fst kv \<noteq> ''__proto__''" using spec(2)[of "fst kv" "snd kv"] by blast
    with kv(1) show False by (simp only:)
  qed
  then have "''__proto__'' \<notin> fst ` set (clean_members ms)" using clean_members_fst by metis
  moreover have "m = NObj (clean_members ms)" using "10.prems"(3) n by simp
  ultimately show ?case using clean_members_sorted[OF spec(1)] by simp
next
  case (12 v vs seen)
  obtain r s1 where r: "normalize v seen = (r, s1)" by (cases "normalize v seen")
  then have "s1 = seen" using normalize_restores(1)[of v seen] by simp
  with "12.prems"(1) r obtain x xs where x: "r = Inr x" and ns: "ns = x # xs"
    and xs: "fst (normalize_elems vs seen) = Inr xs"
    by (cases r) (auto simp: bind_res_Inr case_prod_beta)
  have "list_all cnf (clean_elems xs)"
    using "12.IH"(2) r x xs \<open>s1 = seen\<close> "12.prems"(2) by simp
  moreover have "cnf m" if "clean x = Some m" for m
    using "12.IH"(1) r x that "12.prems"(2) by simp
  ultimately show ?case by (cases "clean x") (simp_all add: ns)
next
  case (14 k v kvs seen acc)
  show ?case
  proof (cases "v = JUndef")
    case True
    with 14 show ?thesis by auto
  next
    case False
    obtain r s1 where r: "normalize v seen = (r, s1)" by (cases "normalize v seen")
    then have "s1 = seen" using normalize_restores(1)[of v seen] by simp
    with 14 r False show ?thesis by (cases r) auto
  qed
qed (auto split: if_splits)

end
