(* ===== verification/Js_Print.thy ===== *)
theory Js_Print
  imports Js_Canonical
begin

text \<open>
  The JSON printer is injective: a string literal can be read back one character at a time, the
  first character of a JSON text tells its kind, and a text that a delimiter follows is cut off
  in one way only. With the normal form of the canonical values this gives the main fact about
  \<open>canonicalize\<close>: its result is a complete invariant of the JSON content.
\<close>

section \<open>String literals\<close>

definition hex_digit_val :: "char \<Rightarrow> nat" where
  "hex_digit_val c = (if code c < 58 then code c - 48 else code c - 87)"

lemma hex_digit_val_digit: "d < 16 \<Longrightarrow> hex_digit_val (hex_digit d) = d"
  by (simp add: hex_digit_val_def hex_digit_def)

definition unescape :: "char \<Rightarrow> char" where
  "unescape c =
    (if c = CHR ''b'' then char_of (8 :: nat) else if c = CHR ''t'' then char_of (9 :: nat)
     else if c = CHR ''n'' then char_of (10 :: nat) else if c = CHR ''f'' then char_of (12 :: nat)
     else if c = CHR ''r'' then char_of (13 :: nat) else c)"

fun read_char :: "string \<Rightarrow> (char \<times> string) option" where
  "read_char (a # x) =
    (if a \<noteq> CHR 0x5C then Some (a, x)
     else case x of
         [] \<Rightarrow> None
       | b # y \<Rightarrow>
         if b = CHR ''u''
         then (case y of
                 u # v # h # l # z \<Rightarrow> Some (char_of (16 * hex_digit_val h + hex_digit_val l), z)
               | _ \<Rightarrow> None)
         else Some (unescape b, y))"
| "read_char [] = None"

lemma escaped_consts:
  "quote_char (CHR 0x22) = [CHR 0x5C, CHR 0x22]"
  "quote_char (CHR 0x5C) = [CHR 0x5C, CHR 0x5C]"
  "quote_char (CHR 0x08) = [CHR 0x5C, CHR ''b'']"
  "quote_char (CHR 0x09) = [CHR 0x5C, CHR ''t'']"
  "quote_char (CHR 0x0A) = [CHR 0x5C, CHR ''n'']"
  "quote_char (CHR 0x0C) = [CHR 0x5C, CHR ''f'']"
  "quote_char (CHR 0x0D) = [CHR 0x5C, CHR ''r'']"
  by code_simp+

lemma unescape_consts:
  "unescape (CHR 0x22) = CHR 0x22" "unescape (CHR 0x5C) = CHR 0x5C"
  "unescape (CHR ''b'') = CHR 0x08" "unescape (CHR ''t'') = CHR 0x09"
  "unescape (CHR ''n'') = CHR 0x0A" "unescape (CHR ''f'') = CHR 0x0C"
  "unescape (CHR ''r'') = CHR 0x0D"
  by code_simp+

lemma code_eqI: "code c = code d \<Longrightarrow> c = d"
  by simp

lemma escaped_cases:
  assumes "code c \<in> {34, 92, 8, 9, 10, 12, 13}"
  shows "c \<in> {CHR 0x22, CHR 0x5C, CHR 0x08, CHR 0x09, CHR 0x0A, CHR 0x0C, CHR 0x0D}"
proof -
  have "code (CHR 0x22) = 34" "code (CHR 0x5C) = 92" "code (CHR 0x08) = 8" "code (CHR 0x09) = 9"
    "code (CHR 0x0A) = 10" "code (CHR 0x0C) = 12" "code (CHR 0x0D) = 13" by simp_all
  with assms code_eqI[of c] show ?thesis by (metis insert_iff empty_iff)
qed

lemma read_quote_char: "read_char (quote_char c @ x) = Some (c, x)"
proof -
  have b: "char_of (16 * hex_digit_val (hex_digit (code c div 16))
      + hex_digit_val (hex_digit (code c mod 16))) = c"
    if "code c < 32" using that by (simp add: hex_digit_val_digit)
  have bs: "c \<noteq> CHR 0x5C" if "code c \<noteq> 92" using that by auto
  consider "code c \<in> {34, 92, 8, 9, 10, 12, 13}"
    | "code c < 32" "code c \<notin> {34, 92, 8, 9, 10, 12, 13}"
    | "\<not> code c < 32" "code c \<notin> {34, 92, 8, 9, 10, 12, 13}" by blast
  then show ?thesis
  proof cases
    case 1
    from escaped_cases[OF this] show ?thesis
      by (elim insertE emptyE) (simp_all only: escaped_consts append.simps read_char.simps
        list.case char.inject unescape_consts simp_thms if_False not_True_eq_False if_True)
  next
    case 2
    then have "quote_char c = [CHR 0x5C, CHR ''u'', CHR ''0'', CHR ''0'',
        hex_digit (code c div 16), hex_digit (code c mod 16)]"
      by (simp add: quote_char_def Let_def)
    then show ?thesis using b[OF 2(1)] by simp
  next
    case 3
    then have "quote_char c = [c]" by (simp add: quote_char_def Let_def)
    then show ?thesis using bs 3 by simp
  qed
qed

lemma quote_char_inj:
  assumes "quote_char c @ x = quote_char d @ y"
  shows "c = d \<and> x = y"
  using arg_cong[OF assms, of read_char] unfolding read_quote_char option.inject prod.inject .

lemma quote_char_hd: "quote_char c @ x \<noteq> CHR 0x22 # y"
proof
  assume e: "quote_char c @ x = CHR 0x22 # y"
  have "Some (c, x) = read_char (CHR 0x22 # y)"
    by (rule read_quote_char[of c x, unfolded e, symmetric])
  then have "c = CHR 0x22" by simp
  with e show False by (simp add: escaped_consts)
qed

lemma quote_body_inj:
  "concat (map quote_char s) @ CHR 0x22 # r = concat (map quote_char t) @ CHR 0x22 # r' \<Longrightarrow>
    s = t \<and> r = r'"
proof (induction s arbitrary: t)
  case Nil
  then show ?case
  proof (cases t)
    case (Cons d t')
    with Nil have "quote_char d @ (concat (map quote_char t') @ CHR 0x22 # r') = CHR 0x22 # r"
      by simp
    with quote_char_hd show ?thesis by (rule notE)
  qed simp
next
  case (Cons c s)
  show ?case
  proof (cases t)
    case Nil
    with Cons.prems have "quote_char c @ (concat (map quote_char s) @ CHR 0x22 # r) = CHR 0x22 # r'"
      by simp
    with quote_char_hd show ?thesis by (rule notE)
  next
    case (Cons d t')
    with Cons.prems have "quote_char c @ (concat (map quote_char s) @ CHR 0x22 # r) =
      quote_char d @ (concat (map quote_char t') @ CHR 0x22 # r')" by simp
    note same = quote_char_inj[OF this]
    show ?thesis using same Cons.IH[OF conjunct2[OF same]] by (simp only: Cons simp_thms)
  qed
qed

lemma quote_inj: "quote s @ r = quote t @ r' \<Longrightarrow> s = t \<and> r = r'"
  by (rule quote_body_inj) (simp add: quote_def)

section \<open>Delimited texts\<close>

definition delimited :: "string \<Rightarrow> bool" where
  "delimited r = (r = [] \<or> hd r \<in> {CHR '','', CHR '']'', CHR ''}''})"

lemma delimited_simps [simp]:
  "delimited (CHR '','' # r)" "delimited (CHR '']'' # r)" "delimited (CHR ''}'' # r)" "delimited []"
  by (simp_all add: delimited_def)

lemma numeral_cut:
  assumes "list_all is_num_char s" "list_all is_num_char t" "delimited r" "delimited r'"
    and "s @ r = t @ r'"
  shows "s = t"
proof -
  have "takeWhile is_num_char (u @ q) = u" if "list_all is_num_char u" "delimited q" for u q
  proof -
    have "takeWhile is_num_char q = []"
      using that(2) by (cases q) (auto simp: delimited_def is_num_char_def is_digit_def)
    then show ?thesis using that(1) by (simp add: list_all_iff)
  qed
  with assms show ?thesis by metis
qed

lemma join_tail: "js_join sep (w # ws) = w @ concat (map (\<lambda>v. sep @ v) ws)"
  by (induction ws arbitrary: w) simp_all

text \<open>A comma-separated list is read back when each of its items is.\<close>

locale item_printer =
  fixes item :: "'a \<Rightarrow> string" and ok :: "'a \<Rightarrow> bool" and close_char :: char
  assumes close_char: "close_char \<in> {CHR '']'', CHR ''}''}"
    and item_hd: "ok x \<Longrightarrow> item x \<noteq> [] \<and> hd (item x) \<noteq> close_char"
begin

definition reads_back :: "'a \<Rightarrow> bool" where
  "reads_back x = (\<forall>y r r'. ok y \<longrightarrow> delimited r \<longrightarrow> delimited r' \<longrightarrow> item x @ r = item y @ r' \<longrightarrow>
    x = y \<and> r = r')"

lemma reads_backD:
  "reads_back x \<Longrightarrow> ok y \<Longrightarrow> delimited r \<Longrightarrow> delimited r' \<Longrightarrow> item x @ r = item y @ r' \<Longrightarrow>
    x = y \<and> r = r'"
  by (simp add: reads_back_def)

definition tail_str :: "'a list \<Rightarrow> string" where
  "tail_str xs = concat (map (\<lambda>x. '','' @ item x) xs)"

lemma delimited_tail: "delimited (tail_str xs @ close_char # r)"
  using close_char by (cases xs) (auto simp: tail_str_def)

lemma tail_inj:
  assumes "\<forall>x \<in> set xs. reads_back x" "list_all ok ys"
    and "tail_str xs @ close_char # r = tail_str ys @ close_char # r'"
  shows "xs = ys \<and> r = r'"
  using assms
proof (induction xs arbitrary: ys)
  case Nil
  then show ?case using close_char by (cases ys) (auto simp: tail_str_def)
next
  case (Cons x xs)
  obtain y ys' where ys: "ys = y # ys'"
    using Cons.prems(3) close_char by (cases ys) (auto simp: tail_str_def)
  have "item x @ (tail_str xs @ close_char # r) = item y @ (tail_str ys' @ close_char # r')"
    using Cons.prems(3) ys by (simp add: tail_str_def)
  then have "x = y \<and> tail_str xs @ close_char # r = tail_str ys' @ close_char # r'"
    using Cons.prems(1,2) ys by (intro reads_backD delimited_tail) simp_all
  with Cons.IH[of ys'] Cons.prems(1,2) ys show ?case by simp
qed

lemma joined_tail: "js_join '','' (map item (x # xs)) = item x @ tail_str xs"
  by (simp add: join_tail tail_str_def o_def del: js_join.simps)

lemma join_inj:
  assumes rb: "\<forall>x \<in> set xs. reads_back x" and ok: "list_all ok xs" "list_all ok ys"
    and eq: "js_join '','' (map item xs) @ close_char # r = js_join '','' (map item ys) @ close_char # r'"
  shows "xs = ys \<and> r = r'"
proof (cases xs)
  case xs: Nil
  show ?thesis
  proof (cases ys)
    case Nil
    with xs eq show ?thesis by simp
  next
    case (Cons y ys')
    with eq xs have "close_char # r = item y @ tail_str ys' @ close_char # r'"
      by (simp add: joined_tail[simplified] del: js_join.simps(2,3))
    with item_hd[of y] ok(2) Cons show ?thesis by (cases "item y") auto
  qed
next
  case xs: (Cons x xs')
  show ?thesis
  proof (cases ys)
    case Nil
    with eq xs have "close_char # r' = item x @ tail_str xs' @ close_char # r"
      by (simp add: joined_tail[simplified] del: js_join.simps(2,3))
    with item_hd[of x] ok(1) xs show ?thesis by (cases "item x") auto
  next
    case (Cons y ys')
    from eq have "tail_str xs @ close_char # r = tail_str ys @ close_char # r'"
      using Cons xs unfolding xs Cons joined_tail by (simp add: tail_str_def)
    then show ?thesis by (rule tail_inj[OF rb ok(2)])
  qed
qed

end

section \<open>The printer is injective on normal forms\<close>

datatype json_kind = KNull | KBool | KNum | KStr | KArr | KObj | KOther

fun kind_of :: "nval \<Rightarrow> json_kind" where
  "kind_of (NBool b) = KBool"
| "kind_of (NNum x) = KNum"
| "kind_of (NStr s) = KStr"
| "kind_of (NArr vs) = KArr"
| "kind_of (NObj kvs) = KObj"
| "kind_of _ = KNull"

definition kind_of_hd :: "char \<Rightarrow> json_kind" where
  "kind_of_hd c =
    (if c = CHR ''n'' then KNull else if c = CHR ''t'' \<or> c = CHR ''f'' then KBool
     else if c = CHR 0x22 then KStr else if c = CHR ''['' then KArr
     else if c = CHR ''{'' then KObj else if is_num_char c then KNum else KOther)"

lemma kind_of_num_char: "is_num_char c \<Longrightarrow> kind_of_hd c = KNum"
  by (auto simp: kind_of_hd_def is_num_char_def is_digit_def)

lemma kind_of_consts [simp]:
  "kind_of_hd (CHR ''n'') = KNull" "kind_of_hd (CHR ''t'') = KBool" "kind_of_hd (CHR ''f'') = KBool"
  "kind_of_hd (CHR 0x22) = KStr" "kind_of_hd (CHR ''['') = KArr" "kind_of_hd (CHR ''{'') = KObj"
  "kind_of_hd (CHR '']'') = KOther" "kind_of_hd (CHR ''}'') = KOther"
  by code_simp+

lemma print_hd:
  assumes "cnf n"
  shows "print n \<noteq> [] \<and> kind_of_hd (hd (print n)) = kind_of n"
proof (cases n)
  case (NNum x)
  then have "num_finite x" using assms by simp
  then have "is_num_char (hd (num_to_string x))"
    using num_to_string_chars[of x] num_to_string_nonempty[of x] by (cases "num_to_string x") auto
  then show ?thesis using NNum num_to_string_nonempty kind_of_num_char by simp
qed (use assms in \<open>simp_all add: quote_def wrap_def\<close>)

lemma kind_of_neq_other [simp]: "kind_of n \<noteq> KOther"
  by (cases n) simp_all

definition print_member :: "string \<times> nval \<Rightarrow> string" where
  "print_member kv = quote (fst kv) @ CHR '':'' # print (snd kv)"

interpretation arr_items: item_printer print cnf "CHR '']''"
proof unfold_locales
  fix n assume "cnf n"
  from print_hd[OF this] show "print n \<noteq> [] \<and> hd (print n) \<noteq> CHR '']''"
    using kind_of_neq_other[of n] kind_of_consts(7) by metis
qed simp

interpretation obj_items: item_printer print_member "\<lambda>kv. cnf (snd kv)" "CHR ''}''"
  by unfold_locales (simp_all add: print_member_def quote_def)

lemma print_arr: "print (NArr vs) @ r = CHR ''['' # (js_join '','' (map print vs) @ CHR '']'' # r)"
  by (simp add: wrap_def)

lemma print_obj: "print (NObj kvs) @ r = CHR ''{'' # (js_join '','' (map print_member kvs) @ CHR ''}'' # r)"
proof -
  have "print_member = (\<lambda>kv. quote (fst kv) @ CHR '':'' # print (snd kv))"
    by (rule ext) (rule print_member_def)
  then show ?thesis by (simp add: wrap_def)
qed

lemma print_same_kind:
  assumes "cnf m" "cnf n" "print m @ r = print n @ r'"
  shows "kind_of m = kind_of n"
  using print_hd[OF assms(1)] print_hd[OF assms(2)] assms(3) by (metis hd_append2)

lemma print_reads_back: "cnf m \<Longrightarrow> arr_items.reads_back m"
proof (induction m rule: measure_induct_rule[of size])
  case (less m)
  show ?case
    unfolding arr_items.reads_back_def
  proof (intro allI impI)
    fix n r r'
    assume n: "cnf n" and d: "delimited r" "delimited r'" and eq: "print m @ r = print n @ r'"
    have k: "kind_of m = kind_of n" by (rule print_same_kind[OF less.prems n eq])
    show "m = n \<and> r = r'"
    proof (cases m)
      case NNull
      with k n have "n = NNull" by (cases n) simp_all
      with NNull eq show ?thesis by simp
    next
      case (NBool b)
      with k n obtain c where "n = NBool c" by (cases n) simp_all
      with NBool eq show ?thesis by (cases b; cases c) simp_all
    next
      case (NNum x)
      with k n obtain y where y: "n = NNum y" by (cases n) simp_all
      have fin: "num_finite x" "num_wf x" "num_finite y" "num_wf y"
        using less.prems n NNum y by simp_all
      have "num_to_string x @ r = num_to_string y @ r'" using eq NNum y by simp
      then have same: "num_to_string x = num_to_string y"
        by (rule numeral_cut[OF num_to_string_chars[OF fin(1)] num_to_string_chars[OF fin(3)] d])
      from num_to_string_inj[OF fin(2) fin(4) fin(1) fin(3) same] eq NNum y show ?thesis by simp
    next
      case (NStr s)
      with k n obtain t where t: "n = NStr t" by (cases n) simp_all
      have "quote s @ r = quote t @ r'" using eq NStr t by simp
      from quote_inj[OF this] show ?thesis using NStr t by simp
    next
      case (NArr vs)
      with k n obtain ws where ws: "n = NArr ws" by (cases n) simp_all
      have rb: "\<forall>v \<in> set vs. arr_items.reads_back v"
      proof
        fix v assume v: "v \<in> set vs"
        have "size v < size m" using v NArr by (simp add: less_Suc_eq_le size_list_estimation'[OF v order_refl])
        moreover have "cnf v" using v NArr less.prems by (simp add: list_all_iff)
        ultimately show "arr_items.reads_back v" by (rule less.IH)
      qed
      have e: "js_join '','' (map print vs) @ CHR '']'' # r = js_join '','' (map print ws) @ CHR '']'' # r'"
        using eq unfolding NArr ws print_arr by (simp only: list.inject simp_thms)
      from arr_items.join_inj[OF rb _ _ e] less.prems n NArr ws show ?thesis by simp
    next
      case (NObj kvs)
      with k n obtain lws where lws: "n = NObj lws" by (cases n) simp_all
      have rb: "\<forall>kv \<in> set kvs. obj_items.reads_back kv"
      proof
        fix kv assume kv: "kv \<in> set kvs"
        have "size (snd kv) < size m"
        proof -
          have "size (snd kv) \<le> size_list (size_prod (\<lambda>_. 0) size) kvs"
            using kv by (intro size_list_estimation'[OF kv]) (simp add: size_prod_def case_prod_beta)
          then show ?thesis using NObj by simp
        qed
        moreover have "cnf (snd kv)" using kv NObj less.prems by (simp add: list_all_iff)
        ultimately have ih: "arr_items.reads_back (snd kv)" by (rule less.IH)
        show "obj_items.reads_back kv"
          unfolding obj_items.reads_back_def
        proof (intro allI impI)
          fix lw q q'
          assume lw: "cnf (snd lw)" "delimited q" "delimited q'" and
            e: "print_member kv @ q = print_member lw @ q'"
          have "quote (fst kv) @ (CHR '':'' # print (snd kv) @ q) = quote (fst lw) @ (CHR '':'' # print (snd lw) @ q')"
            using e by (simp add: print_member_def)
          note fk = quote_inj[OF this]
          then have "print (snd kv) @ q = print (snd lw) @ q'" by simp
          from arr_items.reads_backD[OF ih lw this] fk show "kv = lw \<and> q = q'"
            by (simp add: prod_eq_iff)
        qed
      qed
      have e: "js_join '','' (map print_member kvs) @ CHR ''}'' # r =
          js_join '','' (map print_member lws) @ CHR ''}'' # r'"
        using eq unfolding NObj lws print_obj by (simp only: list.inject simp_thms)
      from obj_items.join_inj[OF rb _ _ e] less.prems n NObj lws show ?thesis by simp
    qed (use less.prems in simp_all)
  qed
qed

lemma print_inj: "cnf m \<Longrightarrow> cnf n \<Longrightarrow> print m = print n \<Longrightarrow> m = n"
  using arr_items.reads_backD[OF print_reads_back, of m n "[]" "[]"] by simp

section \<open>Normal forms are determined by their content\<close>

lemma cnf_content_defined: "cnf n \<Longrightarrow> ncontent n \<noteq> CUndef"
  by (cases n) simp_all

lemma ncontent_elems_map: "ncontent_elems vs = map (\<lambda>v. null_if_undef (ncontent v)) vs"
  by (induction vs) simp_all

lemma null_if_undef_id: "c \<noteq> CUndef \<Longrightarrow> null_if_undef c = c"
  by (cases c) simp_all

lemma ncontent_elems_cnf: "list_all cnf vs \<Longrightarrow> ncontent_elems vs = map ncontent vs"
  by (simp add: ncontent_elems_map list_all_iff cnf_content_defined null_if_undef_id)

lemma cnf_member_content:
  assumes "cnf (NObj kvs)"
  shows "map_of (ncontent_members kvs) k = map_option ncontent (map_of kvs k)"
proof -
  have d: "distinct (map fst kvs)" using assms by (simp add: key_sorted_distinct)
  show ?thesis
  proof (cases "map_of kvs k")
    case None
    then show ?thesis by (simp add: map_of_ncontent[OF d])
  next
    case (Some v)
    then have kv: "(k, v) \<in> set kvs" by (rule map_of_SomeD)
    then have "cnf v" using assms by (auto simp: list_all_iff)
    moreover have "k \<noteq> ''__proto__''" using assms kv by (metis cnf.simps(3) fst_conv imageI)
    ultimately show ?thesis using Some
      by (simp add: map_of_ncontent[OF d] known_Some cnf_content_defined)
  qed
qed

lemma map_inj_on_elems:
  "map f xs = map f ys \<Longrightarrow> (\<And>x y. x \<in> set xs \<Longrightarrow> y \<in> set ys \<Longrightarrow> f x = f y \<Longrightarrow> x = y) \<Longrightarrow> xs = ys"
proof (induction xs arbitrary: ys)
  case (Cons x xs)
  then obtain y ys' where "ys = y # ys'" by (cases ys) auto
  with Cons.prems Cons.IH[of ys'] show ?case by simp
qed simp

lemma ncontent_inj: "cnf m \<Longrightarrow> cnf n \<Longrightarrow> ncontent m = ncontent n \<Longrightarrow> m = n"
proof (induction m arbitrary: n rule: measure_induct_rule[of size])
  case (less m)
  show ?case
  proof (cases m)
    case (NArr vs)
    with less.prems obtain ws where ws: "n = NArr ws" by (cases n) simp_all
    have "map ncontent vs = map ncontent ws" using less.prems NArr ws by (simp add: ncontent_elems_cnf)
    then have "vs = ws"
    proof (rule map_inj_on_elems)
      fix v w assume v: "v \<in> set vs" and w: "w \<in> set ws" and e: "ncontent v = ncontent w"
      have "size v < size m" using NArr by (simp add: less_Suc_eq_le size_list_estimation'[OF v order_refl])
      moreover have "cnf v" "cnf w" using v w less.prems NArr ws by (simp_all add: list_all_iff)
      ultimately show "v = w" using e by (rule less.IH)
    qed
    with NArr ws show ?thesis by simp
  next
    case (NObj kvs)
    with less.prems obtain lws where lws: "n = NObj lws" by (cases n) simp_all
    have c: "cnf (NObj kvs)" "cnf (NObj lws)" using less.prems NObj lws by simp_all
    have "map_option ncontent (map_of kvs k) = map_option ncontent (map_of lws k)" for k
      using less.prems(3) unfolding NObj lws ncontent.simps cval.inject
        fun_eq_iff cnf_member_content[OF c(1)] cnf_member_content[OF c(2)] by blast
    then have "map_of kvs k = map_of lws k" for k
    proof (cases "map_of kvs k")
      case None
      with \<open>map_option ncontent (map_of kvs k) = map_option ncontent (map_of lws k)\<close>
      show ?thesis by simp
    next
      case (Some v)
      with \<open>map_option ncontent (map_of kvs k) = map_option ncontent (map_of lws k)\<close>
      obtain w where w: "map_of lws k = Some w" and e: "ncontent v = ncontent w"
        by (cases "map_of lws k") simp_all
      have kv: "(k, v) \<in> set kvs" "(k, w) \<in> set lws" using Some w by (auto dest: map_of_SomeD)
      then have "cnf v" "cnf w" using c by (auto simp: list_all_iff)
      moreover have "size v \<le> size_list (size_prod (\<lambda>_. 0) size) kvs"
        using kv(1) by (rule size_list_estimation') simp
      then have "size v < size m" using NObj by simp
      ultimately show ?thesis using less.IH e Some w by simp
    qed
    then have "kvs = lws" using c by (intro sorted_wrt_unique) auto
    with NObj lws show ?thesis by simp
  qed (use less.prems in \<open>cases n; simp\<close>)+
qed

section \<open>The canonical string\<close>

definition json_content :: "jsval \<Rightarrow> cval" where
  "json_content v = null_if_undef (jcontent v)"

lemma canonicalize_form:
  assumes "jsval_wf v" "canonicalize v = Inr s"
  obtains n where "cnf n" "s = print n" "json_content v = ncontent n"
proof -
  from assms(2) obtain n r where n: "fst (normalize v {}) = Inr n" and r: "stringify n = Inr r"
    and s: "(case r of None \<Rightarrow> ''null'' | Some t \<Rightarrow> t) = s"
    unfolding canonicalize_def bind_res_Inr sum.inject by (elim exE conjE)
  have r': "r = map_option print (clean n)" using stringify_print(1)[OF r] .
  have c: "jcontent v = (case clean n of None \<Rightarrow> CUndef | Some m \<Rightarrow> ncontent m)"
    using normalize_content(1)[OF n assms(1)] clean_content(1)[of n] by simp
  show thesis
  proof (cases "clean n")
    case None
    then show thesis using that[of NNull] r' s[symmetric] c by (simp add: json_content_def)
  next
    case (Some m)
    with n assms(1) have m: "cnf m" by (rule normalize_cnf(1))
    with Some show thesis using that[of m] r' s[symmetric] c
      by (simp add: json_content_def null_if_undef_id cnf_content_defined)
  qed
qed

lemma canonicalize_content_iff:
  assumes "jsval_wf v" "jsval_wf w" "canonicalize v = Inr s" "canonicalize w = Inr t"
  shows "s = t \<longleftrightarrow> json_content v = json_content w"
proof -
  obtain m where m: "cnf m" "s = print m" "json_content v = ncontent m"
    by (rule canonicalize_form[OF assms(1,3)])
  obtain n where n: "cnf n" "t = print n" "json_content w = ncontent n"
    by (rule canonicalize_form[OF assms(2,4)])
  show ?thesis
  proof
    assume "s = t"
    then have "print m = print n" unfolding m(2) n(2) .
    from print_inj[OF m(1) n(1) this] show "json_content v = json_content w" unfolding m(3) n(3) by simp
  next
    assume "json_content v = json_content w"
    then have "ncontent m = ncontent n" unfolding m(3) n(3) .
    from ncontent_inj[OF m(1) n(1) this] show "s = t" unfolding m(2) n(2) by simp
  qed
qed

text \<open>A canonical string holds no control character, so no newline.\<close>

lemma hex_digit_printable: "d < 16 \<Longrightarrow> 32 \<le> code (hex_digit d)"
  by (simp add: hex_digit_def)

lemma quote_char_printable: "x \<in> set (quote_char c) \<Longrightarrow> 32 \<le> code x"
  using hex_digit_printable[of "code c div 16"] hex_digit_printable[of "code c mod 16"]
  by (auto simp: quote_char_def Let_def split: if_splits)

lemma quote_printable: "x \<in> set (quote s) \<Longrightarrow> 32 \<le> code x"
  using quote_char_printable by (auto simp: quote_def)

lemma set_js_join: "x \<in> set (js_join sep ws) \<Longrightarrow> x \<in> set sep \<or> (\<exists>w \<in> set ws. x \<in> set w)"
  by (induction sep ws rule: js_join.induct) auto

lemma num_char_printable: "is_num_char c \<Longrightarrow> 32 \<le> code c"
  by (auto simp: is_num_char_def is_digit_def)

lemma print_printable: "cnf n \<Longrightarrow> x \<in> set (print n) \<Longrightarrow> 32 \<le> code x"
proof (induction n rule: measure_induct_rule[of size])
  case (less n)
  show ?case
  proof (cases n)
    case (NNum y)
    then show ?thesis
      using less.prems num_to_string_chars[of y] by (auto simp: list_all_iff dest: num_char_printable)
  next
    case (NStr s)
    then show ?thesis using less.prems(2) quote_printable by simp
  next
    case (NBool b)
    then show ?thesis using less.prems(2) by (cases b) auto
  next
    case (NArr vs)
    have "32 \<le> code x" if "v \<in> set vs" "x \<in> set (print v)" for v
    proof (rule less.IH[OF _ _ that(2)])
      show "size v < size n" using NArr by (simp add: less_Suc_eq_le size_list_estimation'[OF that(1) order_refl])
      show "cnf v" using that(1) less.prems(1) NArr by (simp add: list_all_iff)
    qed
    then show ?thesis using less.prems(2) NArr
      by (auto simp: wrap_def dest!: set_js_join)
  next
    case (NObj kvs)
    have v: "32 \<le> code x" if "kv \<in> set kvs" "x \<in> set (print (snd kv))" for kv
    proof (rule less.IH[OF _ _ that(2)])
      have "size (snd kv) \<le> size_list (size_prod (\<lambda>_. 0) size) kvs"
        by (rule size_list_estimation'[OF that(1)]) (simp add: size_prod_def case_prod_beta)
      then show "size (snd kv) < size n" using NObj by simp
      show "cnf (snd kv)" using that(1) less.prems(1) NObj by (simp add: list_all_iff)
    qed
    then show ?thesis using less.prems(2) NObj
      by (auto simp: wrap_def dest!: set_js_join quote_printable)
  qed (use less.prems in auto)
qed

lemma canonicalize_no_newline:
  assumes "jsval_wf v" "canonicalize v = Inr s"
  shows "CHR 0x0A \<notin> set s"
proof
  assume nl: "CHR 0x0A \<in> set s"
  obtain n where n: "cnf n" "s = print n" "json_content v = ncontent n"
    by (rule canonicalize_form[OF assms])
  from print_printable[OF n(1)] nl n(2) have "32 \<le> code (CHR 0x0A)" by blast
  then show False by simp
qed

section \<open>When canonicalize raises\<close>

definition bigint_error :: js_error where
  "bigint_error = TypeError ''Do not know how to serialize a BigInt''"

fun has_bigint :: "jsval \<Rightarrow> bool" where
  "has_bigint (JBigInt i) = True"
| "has_bigint (JToJSON v) = has_bigint v"
| "has_bigint (JArr a vs) = (\<exists>v \<in> set vs. has_bigint v)"
| "has_bigint (JObj a kvs) = (\<exists>kv \<in> set kvs. fst kv \<noteq> ''__proto__'' \<and> has_bigint (snd kv))"
| "has_bigint _ = False"

fun nbig :: "nval \<Rightarrow> bool" where
  "nbig (NBigInt i) = True"
| "nbig (NArr vs) = (\<exists>v \<in> set vs. nbig v)"
| "nbig (NObj kvs) = (\<exists>kv \<in> set kvs. nbig (snd kv))"
| "nbig _ = False"

lemma stringify_outcome:
  "if nbig n then stringify n = Inl bigint_error else (\<exists>r. stringify n = Inr r)"
  "if \<exists>n \<in> set ns. nbig n then stringify_elems ns = Inl bigint_error
   else (\<exists>r. stringify_elems ns = Inr r)"
  "if \<exists>kv \<in> set ms. nbig (snd kv) then stringify_members ms = Inl bigint_error
   else (\<exists>r. stringify_members ms = Inr r)"
  by (induction n and ns and ms rule: stringify_stringify_elems_stringify_members.induct)
     (auto simp: bigint_error_def split: if_splits)

lemma normalize_members_all:
  "fst (normalize_members kvs seen acc) = Inr ms \<Longrightarrow> (k, v) \<in> set kvs \<Longrightarrow> v \<noteq> JUndef \<Longrightarrow>
    \<exists>n. fst (normalize v seen) = Inr n"
proof -
  assume ok: "fst (normalize_members kvs seen acc) = Inr ms" and kv: "(k, v) \<in> set kvs" "v \<noteq> JUndef"
  have "\<not> (\<exists>kv \<in> set kvs. cyclic seen (snd kv))"
    using normalize_error_iff(3)[of kvs seen acc] ok by simp
  with kv(1) have "\<not> cyclic seen v" by force
  then have "\<not> (\<exists>e. fst (normalize v seen) = Inl e)" by (simp only: normalize_error_iff(1) simp_thms)
  then show "\<exists>n. fst (normalize v seen) = Inr n" by (cases "fst (normalize v seen)") auto
qed

lemma normalize_nbig:
  "fst (normalize v seen) = Inr n \<Longrightarrow> jsval_wf v \<Longrightarrow> nbig n = has_bigint v"
  "fst (normalize_elems vs seen) = Inr ns \<Longrightarrow> list_all jsval_wf vs \<Longrightarrow>
    (\<exists>n \<in> set ns. nbig n) = (\<exists>v \<in> set vs. has_bigint v)"
  "fst (normalize_members kvs seen acc) = Inr ms \<Longrightarrow> list_all (\<lambda>kv. jsval_wf (snd kv)) kvs \<Longrightarrow>
    \<forall>k v m. (k, v) \<in> set kvs \<longrightarrow> v \<noteq> JUndef \<longrightarrow> fst (normalize v seen) = Inr m \<longrightarrow>
      nbig m = has_bigint v"
proof (induction v seen and vs seen and kvs seen acc arbitrary: n and ns and ms
    rule: normalize_normalize_elems_normalize_members.induct)
  case (9 a vs seen)
  then show ?case by (auto split: if_splits prod.splits simp: bind_res_Inr)
next
  case (10 a kvs seen)
  from "10.prems"(1) obtain ms where a: "a \<notin> seen" and n: "n = NObj ms"
    and ms: "fst (normalize_members (sorted_members kvs) (insert a seen) []) = Inr ms"
    by (auto split: if_splits prod.splits simp: bind_res_Inr)
  have d: "distinct (map fst kvs)" and wf: "list_all (\<lambda>kv. jsval_wf (snd kv)) (sorted_members kvs)"
    using "10.prems"(2) by (auto simp: list_all_iff)
  have spec: "(k, m) \<in> set ms \<longleftrightarrow> (\<exists>v. (k, v) \<in> set kvs \<and> v \<noteq> JUndef \<and> k \<noteq> ''__proto__'' \<and>
      fst (normalize v (insert a seen)) = Inr m)" for k m
    using normalize_members_spec[OF ms] asc_sorted_members[OF d] by auto
  have ih: "nbig m = has_bigint v"
    if "(k, v) \<in> set kvs" "v \<noteq> JUndef" "fst (normalize v (insert a seen)) = Inr m" for k v m
    using "10.IH"[OF a ms wf] that by simp
  have ok: "\<exists>m. fst (normalize v (insert a seen)) = Inr m" if "(k, v) \<in> set kvs" "v \<noteq> JUndef" for k v
    using normalize_members_all[OF ms _ that(2)] that(1) by simp
  show ?case
  proof
    assume "nbig n"
    then obtain km where km: "km \<in> set ms" "nbig (snd km)" using n by auto
    from km(1) have "(fst km, snd km) \<in> set ms" by simp
    then obtain v where v: "(fst km, v) \<in> set kvs" "v \<noteq> JUndef" "fst km \<noteq> ''__proto__''"
      "fst (normalize v (insert a seen)) = Inr (snd km)" using spec by blast
    from ih[OF v(1,2,4)] km(2) have "has_bigint v" by simp
    with v(1,3) show "has_bigint (JObj a kvs)" by (metis fst_conv has_bigint.simps(4) snd_conv)
  next
    assume "has_bigint (JObj a kvs)"
    then obtain kv where kv: "kv \<in> set kvs" "fst kv \<noteq> ''__proto__''" "has_bigint (snd kv)" by auto
    from kv(1) have mem: "(fst kv, snd kv) \<in> set kvs" by simp
    have nu: "snd kv \<noteq> JUndef" using kv(3) by auto
    obtain m where m: "fst (normalize (snd kv) (insert a seen)) = Inr m" using ok[OF mem nu] by blast
    have "(fst kv, m) \<in> set ms" using spec mem nu kv(2) m by blast
    moreover have "nbig m" using ih[OF mem nu m] kv(3) by simp
    ultimately have "\<exists>km \<in> set ms. nbig (snd km)" by (metis snd_conv)
    then show "nbig n" unfolding n by simp
  qed
next
  case (12 v vs seen)
  obtain r s1 where r: "normalize v seen = (r, s1)" by (cases "normalize v seen")
  then have "s1 = seen" using normalize_restores(1)[of v seen] by simp
  with 12 r show ?case by (cases r) (auto simp: bind_res_Inr case_prod_beta)
next
  case (14 k v kvs seen acc)
  show ?case
  proof (cases "v = JUndef")
    case True
    with 14 show ?thesis by auto
  next
    case False
    obtain r s1 where r: "normalize v seen = (r, s1)" by (cases "normalize v seen")
    then have "s1 = seen" using normalize_restores(1)[of v seen] by simp
    with 14 r False show ?thesis by (cases r) auto
  qed
qed (auto split: if_splits)

lemma canonicalize_outcome:
  assumes "jsval_wf v"
  shows "if cyclic {} v then canonicalize v = Inl circular_error
    else if has_bigint v then canonicalize v = Inl bigint_error
    else (\<exists>s. canonicalize v = Inr s)"
proof (cases "fst (normalize v {})")
  case (Inl e)
  then have "cyclic {} v" using normalize_error_iff(1)[of v "{}"] by blast
  moreover have "e = circular_error" using Inl by (rule normalize_error_value(1))
  ultimately show ?thesis using Inl by (simp add: canonicalize_def)
next
  case (Inr n)
  then have "\<not> cyclic {} v" using normalize_error_iff(1)[of v "{}"] by simp
  moreover have "nbig n = has_bigint v" using Inr assms by (rule normalize_nbig(1))
  ultimately show ?thesis
    using Inr stringify_outcome(1)[of n] by (auto simp: canonicalize_def)
qed

end
