(* ===== verification/Hash_Util.thy ===== *)
theory Hash_Util
  imports Js_Print
begin

text \<open>
  \<open>src/utility/hash.util.ts\<close>: the signature envelope on the socket payloads. HMAC-SHA256 is a
  parameter \<open>mac secret material\<close> giving the lower case hex digest; the clock and the random
  nonce are arguments. Instants and windows are rationals: the source computes with doubles,
  which are exact on millisecond instants. The replay guard is threaded through \<open>verify\<close>.
\<close>

section \<open>Signing material\<close>

definition signature_field :: string where "signature_field = ''_sig''"
definition timestamp_field :: string where "timestamp_field = ''_ts''"
definition nonce_field :: string where "nonce_field = ''_nonce''"

definition envelope_fields :: "string list" where
  "envelope_fields = [signature_field, timestamp_field, nonce_field]"

lemmas field_defs = signature_field_def timestamp_field_def nonce_field_def

definition default_max_clock_skew_ms :: rat where
  "default_max_clock_skew_ms = 5 * 60 * 1000"

text \<open>
  The copy made by \<open>stripEnvelope\<close> keeps the identity of the object it copies. Only the
  ancestor test of \<open>normalize\<close> reads identities, and an object that contains itself raises
  under the old identity and under a new one.
\<close>

fun strip_envelope :: "jsval \<Rightarrow> jsval" where
  "strip_envelope (JObj a kvs) = JObj a (filter (\<lambda>kv. fst kv \<notin> set envelope_fields) kvs)"
| "strip_envelope (JToJSON v) = JObj 0 []"
| "strip_envelope v = v"

definition newline :: char where "newline = CHR 0x0A"

definition signing_material :: "string \<Rightarrow> jsnum \<Rightarrow> string \<Rightarrow> jsval \<Rightarrow> js_error + string" where
  "signing_material event timestamp nonce payload =
    bind_res (canonicalize (strip_envelope payload))
      (\<lambda>body. Inr (js_join [newline] [''v1'', event, num_to_string timestamp, nonce, body]))"

type_synonym mac_fun = "string \<Rightarrow> string \<Rightarrow> string"

definition digest :: "mac_fun \<Rightarrow> string \<Rightarrow> jsnum \<Rightarrow> string \<Rightarrow> jsval \<Rightarrow> string \<Rightarrow> js_error + string" where
  "digest mac event timestamp nonce payload secret =
    bind_res (signing_material event timestamp nonce payload) (\<lambda>m. Inr (mac secret m))"

text \<open>What the code relies on of the HMAC: 32 bytes, printed as lower case hex.\<close>

definition hex_mac :: "mac_fun \<Rightarrow> bool" where
  "hex_mac mac = (\<forall>k m. length (mac k m) = 64 \<and> list_all is_hex_lower (mac k m))"

section \<open>Signing\<close>

definition no_secret :: "string option \<Rightarrow> bool" where
  "no_secret secret = (secret = None \<or> secret = Some [])"

text \<open>The own enumerable properties object spread copies.\<close>

fun spread :: "jsval \<Rightarrow> (string \<times> jsval) list" where
  "spread (JObj a kvs) = kvs"
| "spread (JArr a vs) = zip (map show_nat [0..<length vs]) vs"
| "spread (JStr s) = zip (map show_nat [0..<length s]) (map (\<lambda>c. JStr [c]) s)"
| "spread _ = []"

fun root_id :: "jsval \<Rightarrow> addr" where
  "root_id (JObj a kvs) = a"
| "root_id (JArr a vs) = a"
| "root_id _ = 0"

definition add_envelope ::
  "jsnum \<Rightarrow> string \<Rightarrow> string \<Rightarrow> (string \<times> jsval) list \<Rightarrow> (string \<times> jsval) list" where
  "add_envelope timestamp nonce sig kvs =
    obj_define signature_field (JStr sig)
      (obj_define nonce_field (JStr nonce)
        (obj_define timestamp_field (JNum timestamp) kvs))"

definition sign ::
  "mac_fun \<Rightarrow> string \<Rightarrow> jsval \<Rightarrow> string option \<Rightarrow> jsnum \<Rightarrow> string \<Rightarrow> js_error + jsval" where
  "sign mac event payload secret timestamp nonce =
    (if no_secret secret then Inr payload
     else bind_res (digest mac event timestamp nonce payload (the secret))
       (\<lambda>sig. Inr (JObj (root_id payload) (add_envelope timestamp nonce sig (spread payload)))))"

section \<open>Comparing signatures\<close>

text \<open>\<open>Buffer.from(s, 'hex')\<close>: bytes up to the first pair that is not hex; an odd last nibble is dropped.\<close>

fun hex_bytes :: "string \<Rightarrow> nat list" where
  "hex_bytes (c # d # r) = (if is_hex c \<and> is_hex d then (16 * hex_val c + hex_val d) # hex_bytes r else [])"
| "hex_bytes _ = []"

definition equals_in_constant_time :: "string \<Rightarrow> string \<Rightarrow> bool" where
  "equals_in_constant_time left right =
    (let l = hex_bytes (js_lower left); r = hex_bytes (js_lower right)
     in if length l \<noteq> length r \<or> length l = 0 then False else l = r)"

section \<open>The replay guard\<close>

record replay_guard =
  window_ms :: rat
  seen_nonces :: "(string, rat) jsmap"

definition new_guard :: "rat \<Rightarrow> replay_guard" where
  "new_guard w = \<lparr>window_ms = w, seen_nonces = []\<rparr>"

text \<open>Deleting the current entry while iterating a \<open>Map\<close> skips no other entry.\<close>

definition prune :: "rat \<Rightarrow> replay_guard \<Rightarrow> replay_guard" where
  "prune now g = g\<lparr>seen_nonces := filter (\<lambda>e. \<not> \<bar>now - snd e\<bar> > window_ms g) (seen_nonces g)\<rparr>"

definition remember :: "string \<Rightarrow> rat \<Rightarrow> replay_guard \<Rightarrow> bool \<times> replay_guard" where
  "remember nonce timestamp g =
    (let g1 = prune timestamp g
     in if jm_has (seen_nonces g1) nonce then (False, g1)
        else (True, g1\<lparr>seen_nonces := jm_set nonce timestamp (seen_nonces g1)\<rparr>))"

definition guard_size :: "replay_guard \<Rightarrow> nat" where
  "guard_size g = length (seen_nonces g)"

definition clear_guard :: "replay_guard \<Rightarrow> replay_guard" where
  "clear_guard g = g\<lparr>seen_nonces := []\<rparr>"

section \<open>Verification\<close>

datatype verify_failure =
    NoSecret | MissingSignature | MalformedSignature | MissingTimestamp | MissingNonce
  | Expired | Replayed | InvalidSignature

datatype verify_result = VOk | VFail verify_failure

record verify_options =
  max_clock_skew_ms :: "rat option"
  opt_now :: "rat option"

text \<open>
  \<open>date_now\<close> is \<open>Date.now()\<close>; the guard is the optional \<open>replayGuard\<close> of the options, given
  back as the call leaves it. An exception of \<open>digest\<close> propagates, the guard untouched.
\<close>

definition verify ::
  "mac_fun \<Rightarrow> rat \<Rightarrow> string \<Rightarrow> jsval \<Rightarrow> string option \<Rightarrow> verify_options \<Rightarrow> replay_guard option \<Rightarrow>
   (js_error + verify_result) \<times> replay_guard option" where
  "verify mac date_now event payload secret opts guard =
    (if no_secret secret then (Inr (VFail NoSecret), guard)
     else case payload of
       JObj a kvs \<Rightarrow>
         (case get_field payload signature_field of
            JStr sig \<Rightarrow>
              if sig = [] then (Inr (VFail MissingSignature), guard)
              else (case get_field payload timestamp_field of
                JNum timestamp \<Rightarrow>
                  if \<not> num_finite timestamp then (Inr (VFail MissingTimestamp), guard)
                  else (case get_field payload nonce_field of
                    JStr nonce \<Rightarrow>
                      if nonce = [] then (Inr (VFail MissingNonce), guard)
                      else if \<not> list_all is_hex sig then (Inr (VFail MalformedSignature), guard)
                      else (case digest mac event timestamp nonce payload (the secret) of
                          Inl e \<Rightarrow> (Inl e, guard)
                        | Inr expected \<Rightarrow>
                            if \<not> equals_in_constant_time sig expected
                            then (Inr (VFail InvalidSignature), guard)
                            else
                              let skew = (case max_clock_skew_ms opts of None \<Rightarrow> default_max_clock_skew_ms | Some m \<Rightarrow> m);
                                  now = (case opt_now opts of None \<Rightarrow> date_now | Some n \<Rightarrow> n)
                              in if skew > 0 \<and> \<bar>now - num_val timestamp\<bar> > skew
                                 then (Inr (VFail Expired), guard)
                                 else (case guard of
                                     None \<Rightarrow> (Inr VOk, None)
                                   | Some g \<Rightarrow>
                                       let (fresh, g') = remember nonce (num_val timestamp) g
                                       in (Inr (if fresh then VOk else VFail Replayed), Some g')))
                  | _ \<Rightarrow> (Inr (VFail MissingNonce), guard))
              | _ \<Rightarrow> (Inr (VFail MissingTimestamp), guard))
          | _ \<Rightarrow> (Inr (VFail MissingSignature), guard))
     | JToJSON v \<Rightarrow> (Inr (VFail MissingSignature), guard)
     | _ \<Rightarrow> (Inr (VFail MissingSignature), guard))"

section \<open>Signing material determines what was signed\<close>

lemma jsval_wf_strip: "jsval_wf v \<Longrightarrow> jsval_wf (strip_envelope v)"
  by (cases v) (auto simp: distinct_map_filter list_all_iff)

lemma signing_material_form:
  assumes "signing_material e ts n p = Inr m"
  obtains body where "canonicalize (strip_envelope p) = Inr body"
    and "m = ''v1'' @ newline # e @ newline # num_to_string ts @ newline # n @ newline # body"
proof -
  from assms obtain body where b: "canonicalize (strip_envelope p) = Inr body"
    and m: "js_join [newline] [''v1'', e, num_to_string ts, n, body] = m"
    unfolding signing_material_def bind_res_Inr sum.inject by (elim exE conjE)
  show thesis by (rule that[OF b]) (simp add: m[symmetric])
qed

lemma num_string_no_newline: "num_finite x \<Longrightarrow> newline \<notin> set (num_to_string x)"
  using num_to_string_chars[of x] by (auto simp: list_all_iff newline_def is_num_char_def is_digit_def)

lemma signing_material_inj:
  assumes wf: "jsval_wf p" "jsval_wf q" "num_wf ts" "num_wf us" "num_finite ts" "num_finite us"
    and ev: "newline \<notin> set e" "newline \<notin> set f"
    and ok: "signing_material e ts n p = Inr x" "signing_material f us k q = Inr y"
  shows "x = y \<longleftrightarrow> e = f \<and> ts = us \<and> n = k \<and>
    json_content (strip_envelope p) = json_content (strip_envelope q)"
proof -
  obtain b where b: "canonicalize (strip_envelope p) = Inr b"
    and x: "x = ''v1'' @ newline # e @ newline # num_to_string ts @ newline # n @ newline # b"
    by (rule signing_material_form[OF ok(1)])
  obtain c where c: "canonicalize (strip_envelope q) = Inr c"
    and y: "y = ''v1'' @ newline # f @ newline # num_to_string us @ newline # k @ newline # c"
    by (rule signing_material_form[OF ok(2)])
  have nl: "newline \<notin> set b" "newline \<notin> set c"
    using canonicalize_no_newline jsval_wf_strip wf(1,2) b c unfolding newline_def by blast+
  have bc: "b = c \<longleftrightarrow> json_content (strip_envelope p) = json_content (strip_envelope q)"
    by (rule canonicalize_content_iff[OF jsval_wf_strip[OF wf(1)] jsval_wf_strip[OF wf(2)] b c])
  have "x = y \<longleftrightarrow> e = f \<and> ts = us \<and> n = k \<and> b = c"
  proof
    assume "x = y"
    then have "e @ newline # num_to_string ts @ newline # n @ newline # b =
        f @ newline # num_to_string us @ newline # k @ newline # c" using x y by simp
    note 1 = cut_first_unique[OF ev this]
    note 2 = cut_first_unique[OF num_string_no_newline[OF wf(5)] num_string_no_newline[OF wf(6)]
        conjunct2[OF 1]]
    note 3 = cut_last_unique[OF nl conjunct2[OF 2]]
    show "e = f \<and> ts = us \<and> n = k \<and> b = c"
      using 1 2 3 num_to_string_inj[OF wf(3,4,5,6)] by simp
  qed (simp add: x y)
  with bc show ?thesis by simp
qed

section \<open>The envelope\<close>

lemma map_of_obj_define:
  "\<not> is_index k \<Longrightarrow> map_of (obj_define k v kvs) j = (if j = k then Some v else map_of kvs j)"
  by (cases "map_of kvs j")
     (auto simp: obj_define_def update_conv' map_add_def split: option.splits)

lemma filter_obj_define:
  "\<not> is_index k \<Longrightarrow> k \<in> E \<Longrightarrow>
    filter (\<lambda>kv. fst kv \<notin> E) (obj_define k v kvs) = filter (\<lambda>kv. fst kv \<notin> E) kvs"
proof -
  assume "\<not> is_index k" and k: "k \<in> E"
  have "filter (\<lambda>kv. fst kv \<notin> E) (AList.update k v kvs) = filter (\<lambda>kv. fst kv \<notin> E) kvs"
    using k by (induction kvs) auto
  with \<open>\<not> is_index k\<close> k show ?thesis by (simp add: obj_define_def)
qed

lemma envelope_not_index:
  "\<not> is_index signature_field" "\<not> is_index timestamp_field" "\<not> is_index nonce_field"
  by (simp_all add: is_index_def field_defs is_digit_def)

lemma envelope_fields_distinct:
  "signature_field \<noteq> timestamp_field" "signature_field \<noteq> nonce_field" "timestamp_field \<noteq> nonce_field"
  by (simp_all add: field_defs)

lemma strip_add_envelope:
  "filter (\<lambda>kv. fst kv \<notin> set envelope_fields) (add_envelope ts n s kvs) =
    filter (\<lambda>kv. fst kv \<notin> set envelope_fields) kvs"
proof -
  have "signature_field \<in> set envelope_fields" "timestamp_field \<in> set envelope_fields"
    "nonce_field \<in> set envelope_fields" by (simp_all add: envelope_fields_def)
  then show ?thesis
    unfolding add_envelope_def by (simp only: filter_obj_define envelope_not_index simp_thms)
qed

lemma map_of_add_envelope:
  "map_of (add_envelope ts n s kvs) j =
    (if j = signature_field then Some (JStr s) else if j = nonce_field then Some (JStr n)
     else if j = timestamp_field then Some (JNum ts) else map_of kvs j)"
  by (simp add: add_envelope_def map_of_obj_define envelope_not_index)

lemma distinct_obj_define: "\<not> is_index k \<Longrightarrow> distinct (map fst kvs) \<Longrightarrow> distinct (map fst (obj_define k v kvs))"
  by (auto simp: obj_define_def distinct_update map_of_eq_None_iff)

lemma set_obj_define: "\<not> is_index k \<Longrightarrow> set (obj_define k v kvs) \<subseteq> insert (k, v) (set kvs)"
proof -
  assume "\<not> is_index k"
  moreover have "set (AList.update k v kvs) \<subseteq> insert (k, v) (set kvs)" by (induction kvs) auto
  ultimately show ?thesis by (auto simp: obj_define_def)
qed

lemma jsval_wf_obj_define:
  assumes "\<not> is_index k" "jsval_wf (JObj a kvs)" "jsval_wf v"
  shows "jsval_wf (JObj a (obj_define k v kvs))"
  using assms distinct_obj_define[of k kvs v] set_obj_define[of k v kvs]
  by (auto simp: list_all_iff)

lemma jsval_wf_add_envelope:
  "jsval_wf (JObj a kvs) \<Longrightarrow> num_wf ts \<Longrightarrow> jsval_wf (JObj a (add_envelope ts n s kvs))"
  unfolding add_envelope_def by (intro jsval_wf_obj_define envelope_not_index) auto

text \<open>The three fields \<open>verify\<close> reads, when they have the shape it wants.\<close>

definition envelope_of :: "jsval \<Rightarrow> (string \<times> jsnum \<times> string) option" where
  "envelope_of p =
    (case (p, get_field p signature_field, get_field p timestamp_field, get_field p nonce_field) of
       (JObj a kvs, JStr sig, JNum ts, JStr n) \<Rightarrow>
         if sig \<noteq> [] \<and> num_finite ts \<and> n \<noteq> [] \<and> list_all is_hex sig then Some (sig, ts, n) else None
     | _ \<Rightarrow> None)"

definition skew_ok :: "verify_options \<Rightarrow> rat \<Rightarrow> jsnum \<Rightarrow> bool" where
  "skew_ok opts date_now ts =
    (let skew = (case max_clock_skew_ms opts of None \<Rightarrow> default_max_clock_skew_ms | Some m \<Rightarrow> m);
         now = (case opt_now opts of None \<Rightarrow> date_now | Some n \<Rightarrow> n)
     in skew > 0 \<longrightarrow> \<bar>now - num_val ts\<bar> \<le> skew)"

lemma verify_no_envelope:
  assumes "no_secret secret \<or> envelope_of p = None"
  shows "\<exists>f. verify mac t e p secret opts g = (Inr (VFail f), g)"
proof (cases "no_secret secret")
  case True
  then show ?thesis by (simp add: verify_def)
next
  case False
  with assms have none: "envelope_of p = None" by simp
  show ?thesis
  proof (cases p)
    case (JObj a kvs)
    show ?thesis
    proof (cases "get_field p signature_field")
      case sig: (JStr s)
      show ?thesis
      proof (cases "get_field p timestamp_field")
        case ts: (JNum x)
        show ?thesis
        proof (cases "get_field p nonce_field")
          case (JStr n)
          with none sig ts JObj False show ?thesis
            by (cases "s = []"; cases "num_finite x"; cases "n = []"; cases "list_all is_hex s")
               (simp_all add: verify_def envelope_of_def)
        qed (use sig ts JObj False in \<open>simp add: verify_def split: if_splits\<close>)+
      qed (use sig JObj False in \<open>simp add: verify_def split: if_splits\<close>)+
    qed (use JObj False in \<open>simp add: verify_def\<close>)+
  qed (use False in \<open>simp add: verify_def\<close>)+
qed

lemma envelope_ofD:
  assumes "envelope_of p = Some (sig, ts, n)"
  shows "\<exists>a kvs. p = JObj a kvs" "get_field p signature_field = JStr sig"
    "get_field p timestamp_field = JNum ts" "get_field p nonce_field = JStr n"
    "sig \<noteq> []" "num_finite ts" "n \<noteq> []" "list_all is_hex sig"
  using assms unfolding envelope_of_def by (auto split: jsval.splits if_splits)

lemma verify_envelope:
  assumes "envelope_of p = Some (sig, ts, n)" "\<not> no_secret secret"
  shows "verify mac t e p secret opts g =
    (case digest mac e ts n p (the secret) of
       Inl err \<Rightarrow> (Inl err, g)
     | Inr expected \<Rightarrow>
         if \<not> equals_in_constant_time sig expected then (Inr (VFail InvalidSignature), g)
         else if \<not> skew_ok opts t ts then (Inr (VFail Expired), g)
         else (case g of None \<Rightarrow> (Inr VOk, None)
           | Some g1 \<Rightarrow> (let (fresh, g2) = remember n (num_val ts) g1
                        in (Inr (if fresh then VOk else VFail Replayed), Some g2))))"
proof -
  note d = envelope_ofD[OF assms(1)]
  obtain a kvs where p: "p = JObj a kvs" using d(1) by blast
  show ?thesis
    using assms(2) d(2-)
    by (simp add: verify_def p skew_ok_def Let_def not_le split: sum.splits)
qed

section \<open>Comparing hex strings\<close>

lemma hex_val_lower:
  "is_hex_lower c \<Longrightarrow> hex_val c = (if code c \<le> 57 then code c - 48 else code c - 87)"
  by (simp add: hex_val_def lower_char_hex_lower)

lemma hex_val_inj: "is_hex_lower c \<Longrightarrow> is_hex_lower d \<Longrightarrow> hex_val c = hex_val d \<Longrightarrow> c = d"
proof -
  assume h: "is_hex_lower c" "is_hex_lower d" "hex_val c = hex_val d"
  have nums: "m = n" if "(48 \<le> m \<and> m \<le> 57) \<or> (97 \<le> m \<and> m \<le> 102)"
      "(48 \<le> n \<and> n \<le> 57) \<or> (97 \<le> n \<and> n \<le> 102)"
      "(if m \<le> 57 then m - 48 else m - 87) = (if n \<le> 57 then n - 48 else n - 87)" for m n :: nat
    using that by (auto split: if_splits)
  have "code c = code d"
  proof (rule nums)
    show "(48 \<le> code c \<and> code c \<le> 57) \<or> (97 \<le> code c \<and> code c \<le> 102)"
      using h(1) unfolding is_hex_lower_def is_digit_def .
    show "(48 \<le> code d \<and> code d \<le> 57) \<or> (97 \<le> code d \<and> code d \<le> 102)"
      using h(2) unfolding is_hex_lower_def is_digit_def .
    show "(if code c \<le> 57 then code c - 48 else code c - 87) =
        (if code d \<le> 57 then code d - 48 else code d - 87)"
      using h(3) unfolding hex_val_lower[OF h(1)] hex_val_lower[OF h(2)] .
  qed
  then show "c = d" by (simp only: code_inject)
qed

lemma hex_val_less: "is_hex_lower c \<Longrightarrow> hex_val c < 16"
  by (auto simp: hex_val_lower is_hex_lower_def is_digit_def)

lemma length_hex_bytes: "list_all is_hex s \<Longrightarrow> length (hex_bytes s) = length s div 2"
  by (induction s rule: hex_bytes.induct) auto

lemma nibbles_inj: "16 * a + b = 16 * c + d \<Longrightarrow> b < 16 \<Longrightarrow> d < (16 :: nat) \<Longrightarrow> a = c \<and> b = d"
proof -
  assume e: "16 * a + b = 16 * c + d" and lt: "b < 16" "d < 16"
  have "(16 * a + b) div 16 = a" "(16 * c + d) div 16 = c" using lt by simp_all
  with e have "a = c" by simp
  with e show "a = c \<and> b = d" by simp
qed

lemma hex_bytes_prefix:
  "list_all is_hex_lower s \<Longrightarrow> list_all is_hex_lower t \<Longrightarrow> even (length t) \<Longrightarrow>
    hex_bytes s = hex_bytes t \<longleftrightarrow> (\<exists>x. s = t @ x \<and> length x \<le> 1)"
proof (induction t arbitrary: s rule: hex_bytes.induct)
  case (1 c d r)
  have cd: "is_hex_lower c" "is_hex_lower d" and r: "list_all is_hex_lower r" "even (length r)"
    using 1(3,4) by auto
  note hx = cd[THEN is_hex_lower_is_hex]
  show ?case
  proof (cases "\<exists>a b s'. s = a # b # s'")
    case False
    then have "hex_bytes s = []" by (cases s rule: hex_bytes.cases) auto
    with False hx show ?thesis by auto
  next
    case True
    then obtain a b s' where s: "s = a # b # s'" by blast
    have ab: "is_hex_lower a" "is_hex_lower b" and s': "list_all is_hex_lower s'"
      using 1(2) s by auto
    note hy = ab[THEN is_hex_lower_is_hex]
    have "16 * hex_val a + hex_val b = 16 * hex_val c + hex_val d \<longleftrightarrow> a = c \<and> b = d"
      using nibbles_inj[of "hex_val a" "hex_val b" "hex_val c" "hex_val d"]
        hex_val_less[OF ab(2)] hex_val_less[OF cd(2)] hex_val_inj[OF ab(1) cd(1)] hex_val_inj[OF ab(2) cd(2)]
      by blast
    then show ?thesis using 1(1)[OF _ s' r] hx hy s by auto
  qed
next
  case "2_1"
  then show ?case by (cases s rule: hex_bytes.cases) (auto simp: is_hex_lower_is_hex)
next
  case "2_2"
  then show ?case by simp
qed

lemma equals_mac_iff:
  assumes "hex_mac mac" "list_all is_hex sig"
  shows "equals_in_constant_time sig (mac k m) \<longleftrightarrow>
    (\<exists>x. js_lower sig = mac k m @ x \<and> length x \<le> 1)"
proof -
  have m: "list_all is_hex_lower (mac k m)" "length (mac k m) = 64"
    using assms(1) by (simp_all add: hex_mac_def)
  have l: "list_all is_hex_lower (js_lower sig)"
    using assms(2) by (induction sig) (auto simp: js_lower_def is_hex_lower_lower_char)
  have len: "length (hex_bytes (mac k m)) = 32"
    using m length_hex_bytes[of "mac k m"] by (simp add: list_all_iff is_hex_lower_is_hex)
  have "equals_in_constant_time sig (mac k m) \<longleftrightarrow> hex_bytes (js_lower sig) = hex_bytes (mac k m)"
    using len by (auto simp: equals_in_constant_time_def Let_def js_lower_hex[OF m(1)])
  also have "\<dots> \<longleftrightarrow> (\<exists>x. js_lower sig = mac k m @ x \<and> length x \<le> 1)"
    by (rule hex_bytes_prefix) (use l m in simp_all)
  finally show ?thesis .
qed

section \<open>The replay guard\<close>

definition guard_wf :: "replay_guard \<Rightarrow> bool" where
  "guard_wf g = jm_wf (seen_nonces g)"

lemma guard_wf_new [simp]: "guard_wf (new_guard w)"
  by (simp add: guard_wf_def new_guard_def jm_wf_def)

lemma window_ms_simps [simp]:
  "window_ms (prune t g) = window_ms g" "window_ms (new_guard w) = w"
  "window_ms (snd (remember n t g)) = window_ms g"
  by (simp_all add: prune_def new_guard_def remember_def Let_def)

lemma guard_wf_remember: "guard_wf g \<Longrightarrow> guard_wf (snd (remember n t g))"
  by (simp add: guard_wf_def remember_def prune_def Let_def jm_wf_filter jsm.wf_put)

lemma get_pruned:
  "guard_wf g \<Longrightarrow> jm_get (seen_nonces (prune t g)) n =
    (case jm_get (seen_nonces g) n of None \<Rightarrow> None
     | Some u \<Rightarrow> if \<bar>t - u\<bar> \<le> window_ms g then Some u else None)"
  by (cases "jm_get (seen_nonces g) n") (simp_all add: guard_wf_def prune_def jm_get_filter not_less)

lemma remember_fst:
  "guard_wf g \<Longrightarrow> fst (remember n t g) \<longleftrightarrow>
    (\<forall>u. jm_get (seen_nonces g) n = Some u \<longrightarrow> \<bar>t - u\<bar> > window_ms g)"
  by (auto simp: remember_def Let_def jm_has_get get_pruned split: option.splits)

lemma get_remembered:
  "guard_wf g \<Longrightarrow> jm_get (seen_nonces (snd (remember n t g))) j =
    (if j = n \<and> fst (remember n t g) then Some t
     else jm_get (seen_nonces (prune t g)) j)"
  by (simp add: remember_def Let_def jsm.get_put)

section \<open>Signing and verifying\<close>

lemma get_field_add_envelope:
  "get_field (JObj a (add_envelope ts n s kvs)) signature_field = JStr s"
  "get_field (JObj a (add_envelope ts n s kvs)) timestamp_field = JNum ts"
  "get_field (JObj a (add_envelope ts n s kvs)) nonce_field = JStr n"
  using envelope_fields_distinct by (simp_all add: obj_get_def map_of_add_envelope)

lemma sign_object:
  assumes "\<not> no_secret secret"
  shows "sign mac e (JObj a kvs) secret ts n = Inr q \<longleftrightarrow>
    (\<exists>sig. digest mac e ts n (JObj a kvs) (the secret) = Inr sig \<and> q = JObj a (add_envelope ts n sig kvs))"
  using assms by (auto simp: sign_def bind_res_Inr)

lemma digest_strip_cong:
  "strip_envelope p = strip_envelope q \<Longrightarrow> digest mac e ts n p k = digest mac e ts n q k"
  by (simp add: digest_def signing_material_def)

lemma digest_mac:
  "digest mac e ts n p k = Inr s \<Longrightarrow> \<exists>m. signing_material e ts n p = Inr m \<and> s = mac k m"
  by (auto simp: digest_def bind_res_Inr)

text \<open>Values a JSON parser builds.\<close>

fun parsed :: "jsval \<Rightarrow> bool" where
  "parsed JNull = True"
| "parsed (JBool b) = True"
| "parsed (JNum x) = (num_finite x \<and> num_wf x)"
| "parsed (JStr s) = True"
| "parsed (JArr a vs) = (\<forall>v \<in> set vs. parsed v)"
| "parsed (JObj a kvs) = (distinct (map fst kvs) \<and> (\<forall>kv \<in> set kvs. parsed (snd kv)))"
| "parsed _ = False"

lemma parsed_wf: "parsed v \<Longrightarrow> jsval_wf v"
  by (induction v) (auto simp: list_all_iff)

lemma parsed_no_bigint: "parsed v \<Longrightarrow> \<not> has_bigint v"
  by (induction v) auto

lemma parsed_defined: "parsed v \<Longrightarrow> jcontent v \<noteq> CUndef"
  by (cases v) auto

lemma parsed_object_content:
  assumes "parsed (JObj b kvs)"
  shows "json_content (JObj b kvs) =
    CObj (\<lambda>k. if k = ''__proto__'' then None else map_option jcontent (map_of kvs k))"
proof -
  have d: "distinct (map fst kvs)" using assms by simp
  have "map_of (jcontent_members kvs) k =
      (if k = ''__proto__'' then None else map_option jcontent (map_of kvs k))" for k
  proof (cases "map_of kvs k")
    case (Some v)
    then have "parsed v" using assms by (auto dest: map_of_SomeD)
    with Some show ?thesis by (simp add: map_of_jcontent[OF d] known_Some parsed_defined)
  qed (simp add: map_of_jcontent[OF d])
  then show ?thesis by (simp add: json_content_def fun_eq_iff)
qed

lemma parsed_string_content: "parsed v \<Longrightarrow> jcontent v = CStr s \<Longrightarrow> v = JStr s"
  by (cases v) (auto split: if_splits)

lemma parsed_number_content: "parsed v \<Longrightarrow> jcontent v = CNum x \<Longrightarrow> v = JNum x"
  by (cases v) (auto split: if_splits)

lemma object_content:
  "distinct (map fst kvs) \<Longrightarrow> json_content (JObj a kvs) =
    CObj (\<lambda>k. if k = ''__proto__'' then None else Option.bind (map_of kvs k) (\<lambda>v. known (jcontent v)))"
  by (simp add: json_content_def map_of_jcontent fun_eq_iff)

lemma map_of_filter_keys:
  "map_of (filter (\<lambda>kv. fst kv \<notin> E) kvs) k = (if k \<in> E then None else map_of kvs k)"
  by (induction kvs) auto

text \<open>Equal content stays equal when the envelope is stripped.\<close>

lemma strip_content_cong:
  assumes "distinct (map fst kvs)" "distinct (map fst lws)"
    and "json_content (JObj a kvs) = json_content (JObj b lws)"
  shows "json_content (strip_envelope (JObj a kvs)) = json_content (strip_envelope (JObj b lws))"
proof -
  have "(if k = ''__proto__'' then None else Option.bind (map_of kvs k) (\<lambda>v. known (jcontent v))) =
      (if k = ''__proto__'' then None else Option.bind (map_of lws k) (\<lambda>v. known (jcontent v)))" for k
    using assms(3) unfolding object_content[OF assms(1)] object_content[OF assms(2)] cval.inject
    by (rule fun_cong)
  note same = this
  have "(if k = ''__proto__'' then None
      else Option.bind (if k \<in> set envelope_fields then None else map_of kvs k) (\<lambda>v. known (jcontent v))) =
    (if k = ''__proto__'' then None
      else Option.bind (if k \<in> set envelope_fields then None else map_of lws k) (\<lambda>v. known (jcontent v)))" for k
    using same[of k] by (cases "k \<in> set envelope_fields"; cases "k = ''__proto__''") simp_all
  moreover have "distinct (map fst (filter (\<lambda>kv. fst kv \<notin> set envelope_fields) xs))"
    if "distinct (map fst xs)" for xs :: "(string \<times> jsval) list"
    using that by (rule distinct_map_filter)
  ultimately show ?thesis
    using assms(1,2) by (simp only: strip_envelope.simps object_content map_of_filter_keys)
qed

end
