(* ===== verification/Hash_Laws.thy ===== *)
theory Hash_Laws
  imports Hash_Util
begin

text \<open>
  What the signatures of \<open>src/utility/hash.util.ts\<close> guarantee: the canonical string and the
  signing material determine what was signed, a signed payload survives a trip through JSON,
  \<open>verify\<close> accepts exactly the authentic, timely and fresh payloads, and the replay guard stops
  a second delivery as long as no accepted timestamp is ahead of the clock.
\<close>

section \<open>The trip through JSON\<close>

lemma acyclic_canonicalize:
  assumes "parsed q" "\<not> cyclic {} q"
  shows "\<exists>s. canonicalize q = Inr s"
  using canonicalize_outcome[OF parsed_wf[OF assms(1)]] parsed_no_bigint[OF assms(1)] assms(2) by simp

lemma cyclic_strip: "cyclic {} (strip_envelope q) \<Longrightarrow> parsed q \<Longrightarrow> cyclic {} q"
proof (cases q)
  case (JObj a kvs)
  assume "cyclic {} (strip_envelope q)"
  then obtain kv where "kv \<in> set kvs" "cyclic {a} (snd kv)" using JObj by auto
  then show ?thesis using JObj by auto
qed auto

lemma parsed_strip: "parsed q \<Longrightarrow> parsed (strip_envelope q)"
  by (cases q) (auto intro: distinct_map_filter)

lemma canonicalize_wire:
  assumes p: "jsval_wf (JObj a kvs)" and q: "parsed (JObj b lws)" "\<not> cyclic {} (JObj b lws)"
    and c: "json_content (JObj a kvs) = json_content (JObj b lws)"
    and s: "canonicalize (strip_envelope (JObj a kvs)) = Inr s"
  shows "canonicalize (strip_envelope (JObj b lws)) = Inr s"
proof -
  let ?p = "JObj a kvs" and ?q = "JObj b lws"
  have "\<not> cyclic {} (strip_envelope ?q)" using cyclic_strip q by blast
  with acyclic_canonicalize[OF parsed_strip[OF q(1)]] obtain t where
    t: "canonicalize (strip_envelope ?q) = Inr t" by blast
  have "json_content (strip_envelope ?p) = json_content (strip_envelope ?q)"
    by (rule strip_content_cong[OF _ _ c]) (use p q(1) in simp_all)
  then have "s = t"
    using canonicalize_content_iff[OF jsval_wf_strip[OF p] parsed_wf[OF parsed_strip[OF q(1)]] s t] by simp
  with t show ?thesis by simp
qed

lemma field_of_content:
  assumes p: "distinct (map fst kvs)" "map_of kvs k = Some v" "jcontent v \<noteq> CUndef" "k \<noteq> ''__proto__''"
    and q: "parsed (JObj b lws)" and c: "json_content (JObj a kvs) = json_content (JObj b lws)"
  shows "\<exists>w. map_of lws k = Some w \<and> parsed w \<and> jcontent w = jcontent v"
proof -
  have "(if k = ''__proto__'' then None else map_option jcontent (map_of lws k)) =
      (if k = ''__proto__'' then None else Option.bind (map_of kvs k) (\<lambda>v. known (jcontent v)))"
    using c[symmetric] unfolding object_content[OF p(1)] parsed_object_content[OF q] cval.inject
    by (rule fun_cong)
  then have "map_option jcontent (map_of lws k) = Some (jcontent v)" using p by (simp add: known_Some)
  then obtain w where w: "map_of lws k = Some w" "jcontent w = jcontent v" by auto
  from w(1) have "(k, w) \<in> set lws" by (rule map_of_SomeD)
  then have "parsed w" using q by auto
  with w show ?thesis by blast
qed

lemma field_not_proto:
  "signature_field \<noteq> ''__proto__''" "timestamp_field \<noteq> ''__proto__''" "nonce_field \<noteq> ''__proto__''"
  by (simp_all add: field_defs)

lemma signed_wire_envelope:
  assumes wf: "jsval_wf (JObj a kvs)" "num_wf ts" "num_finite ts" and n: "n \<noteq> []"
    and mac: "hex_mac mac" and s: "digest mac e ts n (JObj a kvs) k = Inr s"
    and q: "parsed (JObj b lws)" "\<not> cyclic {} (JObj b lws)"
    and c: "json_content (JObj a (add_envelope ts n s kvs)) = json_content (JObj b lws)"
  shows "envelope_of (JObj b lws) = Some (s, ts, n) \<and> digest mac e ts n (JObj b lws) k = Inr s"
proof -
  let ?kvs = "add_envelope ts n s kvs"
  have wf': "jsval_wf (JObj a ?kvs)" by (rule jsval_wf_add_envelope[OF wf(1,2)])
  then have d: "distinct (map fst ?kvs)" by simp
  obtain v1 v2 v3 where
    v1: "map_of lws signature_field = Some v1" "parsed v1" "jcontent v1 = CStr s" and
    v2: "map_of lws timestamp_field = Some v2" "parsed v2" "jcontent v2 = CNum ts" and
    v3: "map_of lws nonce_field = Some v3" "parsed v3" "jcontent v3 = CStr n"
    using field_of_content[OF d _ _ field_not_proto(1) q(1) c, of "JStr s"]
      field_of_content[OF d _ _ field_not_proto(2) q(1) c, of "JNum ts"]
      field_of_content[OF d _ _ field_not_proto(3) q(1) c, of "JStr n"]
      wf(3) envelope_fields_distinct
    by (auto simp: map_of_add_envelope)
  have "v1 = JStr s" "v2 = JNum ts" "v3 = JStr n"
    using parsed_string_content parsed_number_content v1 v2 v3 by blast+
  moreover obtain m where m: "s = mac k m" using digest_mac[OF s] by blast
  have "length s = 64" "list_all is_hex s"
    using mac m by (simp_all add: hex_mac_def list_all_iff is_hex_lower_is_hex)
  then have "s \<noteq> []" "list_all is_hex s" by auto
  ultimately have env: "envelope_of (JObj b lws) = Some (s, ts, n)"
    using v1(1) v2(1) v3(1) n wf(3) by (simp add: envelope_of_def obj_get_def)
  obtain body where body: "canonicalize (strip_envelope (JObj a kvs)) = Inr body"
    using s by (auto simp: digest_def signing_material_def bind_res_Inr)
  have "strip_envelope (JObj a ?kvs) = strip_envelope (JObj a kvs)"
    using strip_add_envelope by simp
  then have "canonicalize (strip_envelope (JObj b lws)) = Inr body"
    using canonicalize_wire[OF wf' q c] body by simp
  then have "digest mac e ts n (JObj b lws) k = digest mac e ts n (JObj a kvs) k"
    unfolding digest_def signing_material_def by (simp only: body)
  with env s show ?thesis by simp
qed

lemma equals_refl: "hex_mac mac \<Longrightarrow> equals_in_constant_time (mac k m) (mac k m)"
proof -
  assume h: "hex_mac mac"
  then have "list_all is_hex_lower (mac k m)" by (simp add: hex_mac_def)
  moreover from this have "list_all is_hex (mac k m)" by (simp add: list_all_iff is_hex_lower_is_hex)
  ultimately show ?thesis using equals_mac_iff[OF h, of "mac k m"] by (simp add: js_lower_hex)
qed

section \<open>Properties of the signatures\<close>

text \<open>C1: the canonical string is a complete invariant of the JSON content: a second value gets
  the same string exactly when it can be canonicalised and has the same content, whatever the
  order of its keys, the sharing of its objects and the \<open>toJSON\<close> methods in between.\<close>

theorem canonical_string_iff_content:
  assumes "jsval_wf v" "jsval_wf w" "canonicalize v = Inr s"
  shows "canonicalize w = Inr s \<longleftrightarrow>
    \<not> cyclic {} w \<and> \<not> has_bigint w \<and> json_content v = json_content w"
proof
  assume "canonicalize w = Inr s"
  with canonicalize_content_iff[OF assms(1,2,3)] canonicalize_outcome[OF assms(2)]
  show "\<not> cyclic {} w \<and> \<not> has_bigint w \<and> json_content v = json_content w" by (auto split: if_splits)
next
  assume w: "\<not> cyclic {} w \<and> \<not> has_bigint w \<and> json_content v = json_content w"
  then obtain t where t: "canonicalize w = Inr t" using canonicalize_outcome[OF assms(2)] by auto
  with canonicalize_content_iff[OF assms(1,2,3) t] w show "canonicalize w = Inr s" by simp
qed

definition sample_a :: jsval where
  "sample_a = JObj 1 [(''b'', JArr 2 [JUndef, JNum (num_of_int 7)]), (''a'', JStr ''x''), (''z'', JUndef)]"

definition sample_b :: jsval where
  "sample_b = JObj 1 [(''a'', JToJSON (JStr ''x'')), (''b'', JArr 2 [JNull, JNum (num_of_int 7)])]"

theorem canonical_string_iff_content_witness:
  "canonicalize sample_b = Inr ''{\"a\":\"x\",\"b\":[null,7]}''"
proof -
  have a: "jsval_wf sample_a" "jsval_wf sample_b" by code_simp+
  have s: "canonicalize sample_a = Inr ''{\"a\":\"x\",\"b\":[null,7]}''" by code_simp
  have b: "\<not> cyclic {} sample_b" "\<not> has_bigint sample_b" by code_simp+
  have "json_content sample_a = json_content sample_b"
    by (auto simp: json_content_def sample_a_def sample_b_def add_member_def)
  with canonical_string_iff_content[OF a s] b show ?thesis by blast
qed

text \<open>C2: canonicalising raises the circular-reference error exactly on a cyclic value, the
  BigInt error exactly on an acyclic value with a reachable BigInt, and succeeds otherwise.\<close>

theorem canonicalize_raises_iff:
  assumes "jsval_wf v"
  shows "((canonicalize v = Inl circular_error) = cyclic {} v) \<and>
    ((canonicalize v = Inl bigint_error) = (\<not> cyclic {} v \<and> has_bigint v)) \<and>
    ((\<exists>s. canonicalize v = Inr s) = (\<not> cyclic {} v \<and> \<not> has_bigint v))"
  using canonicalize_outcome[OF assms] by (auto simp: circular_error_def bigint_error_def split: if_splits)

theorem canonicalize_raises_iff_witness:
  "canonicalize (JObj 1 [(''k'', JArr 2 [JObj 1 []])]) = Inl circular_error \<and>
   canonicalize (JArr 2 [JObj 1 [], JObj 1 []]) = Inr ''[{},{}]''"
proof -
  have "jsval_wf (JObj 1 [(''k'', JArr 2 [JObj 1 []])])" by simp
  from canonicalize_raises_iff[OF this]
  have "canonicalize (JObj 1 [(''k'', JArr 2 [JObj 1 []])]) = Inl circular_error" by simp
  moreover have "canonicalize (JArr 2 [JObj 1 [], JObj 1 []]) = Inr ''[{},{}]''" by code_simp
  ultimately show ?thesis by blast
qed

text \<open>C3: the signing material determines what was signed: two signatures are taken over the
  same text exactly when event name, timestamp, nonce and the JSON content below the envelope
  agree. The nonce may hold any character; only the event names must be free of newlines.\<close>

theorem signing_material_determines:
  assumes "jsval_wf p" "jsval_wf q" "num_wf ts" "num_wf us" "num_finite ts" "num_finite us"
    and "newline \<notin> set e" "newline \<notin> set f"
    and "signing_material e ts n p = Inr x" "signing_material f us k q = Inr y"
  shows "x = y \<longleftrightarrow> e = f \<and> ts = us \<and> n = k \<and>
    json_content (strip_envelope p) = json_content (strip_envelope q)"
  by (rule signing_material_inj[OF assms])

theorem signing_material_determines_witness:
  "signing_material ''command'' (num_of_int 5) ''n'' sample_a \<noteq>
   signing_material ''service-status'' (num_of_int 5) ''n'' sample_a"
proof -
  have h: "jsval_wf sample_a" "newline \<notin> set ''command''" "newline \<notin> set ''service-status''"
    by code_simp+
  have "\<not> isl (signing_material ''command'' (num_of_int 5) ''n'' sample_a)" by code_simp
  then obtain x where x: "signing_material ''command'' (num_of_int 5) ''n'' sample_a = Inr x"
    by (metis sum.collapse(2))
  have "\<not> isl (signing_material ''service-status'' (num_of_int 5) ''n'' sample_a)" by code_simp
  then obtain y where y: "signing_material ''service-status'' (num_of_int 5) ''n'' sample_a = Inr y"
    by (metis sum.collapse(2))
  have "x \<noteq> y"
    using signing_material_determines[OF h(1,1) num_of_int_wf num_of_int_wf num_finite_of_int
        num_finite_of_int h(2,3) x y] by simp
  with x y show ?thesis by simp
qed

text \<open>C4: a signed payload verifies on the other side of a JSON connection. Whatever tree the
  parser builds (any key order, any object identities), if its JSON content is that of the signed
  payload, the clock is within the window and the nonce is new to the guard, it is accepted.\<close>

theorem sign_wire_verify:
  assumes "hex_mac mac" "\<not> no_secret secret" "jsval_wf (JObj a kvs)" "num_wf ts" "num_finite ts" "n \<noteq> []"
    and "sign mac e (JObj a kvs) secret ts n = Inr signed"
    and "parsed (JObj b lws)" "\<not> cyclic {} (JObj b lws)" "json_content (JObj b lws) = json_content signed"
    and "skew_ok opts date_now ts" "guard_wf g" "jm_get (seen_nonces g) n = None"
  shows "verify mac date_now e (JObj b lws) secret opts (Some g) =
    (Inr VOk, Some (snd (remember n (num_val ts) g)))"
proof -
  obtain s where s: "digest mac e ts n (JObj a kvs) (the secret) = Inr s"
    and q: "signed = JObj a (add_envelope ts n s kvs)"
    using assms(7) sign_object[OF assms(2)] by blast
  note env = signed_wire_envelope[OF assms(3-6,1) s assms(8,9) assms(10)[unfolded q, symmetric]]
  obtain m where "s = mac (the secret) m" using digest_mac[OF s] by blast
  then have eq: "equals_in_constant_time s s" using equals_refl[OF assms(1)] by simp
  have "fst (remember n (num_val ts) g)" using remember_fst[OF assms(12)] assms(13) by simp
  then show ?thesis
    unfolding verify_envelope[OF conjunct1[OF env] assms(2)]
    using env eq assms(11) by (simp add: case_prod_beta)
qed

definition zero_mac :: mac_fun where
  "zero_mac k m = replicate 64 (CHR ''0'')"

lemma zero_mac_hex: "hex_mac zero_mac"
  by (simp add: hex_mac_def zero_mac_def is_hex_lower_def is_digit_def list_all_iff)

definition signed_command :: jsval where
  "signed_command = JObj 3 [(''cmd'', JStr ''restart''), (''_ts'', JNum (num_of_int 1000)),
     (''_nonce'', JStr ''ab''), (''_sig'', JStr (replicate 64 (CHR ''0'')))]"

definition default_options :: verify_options where
  "default_options = \<lparr>max_clock_skew_ms = None, opt_now = None\<rparr>"

theorem sign_wire_verify_witness:
  "verify zero_mac 1500 ''command'' signed_command (Some ''key'') default_options
     (Some (new_guard default_max_clock_skew_ms)) =
   (Inr VOk, Some (snd (remember ''ab'' 1000 (new_guard default_max_clock_skew_ms))))"
proof -
  let ?p = "JObj 1 [(''cmd'', JStr ''restart'')]"
  have s: "sign zero_mac ''command'' ?p (Some ''key'') (num_of_int 1000) ''ab'' =
      Inr (JObj 1 [(''cmd'', JStr ''restart''), (''_ts'', JNum (num_of_int 1000)),
        (''_nonce'', JStr ''ab''), (''_sig'', JStr (replicate 64 (CHR ''0'')))])" by code_simp
  have k: "\<not> no_secret (Some ''key'')" by (simp add: no_secret_def)
  have p: "jsval_wf ?p" by simp
  have q: "parsed signed_command" "\<not> cyclic {} signed_command"
    by (simp_all add: signed_command_def)
  have c: "json_content signed_command = json_content
      (JObj 1 [(''cmd'', JStr ''restart''), (''_ts'', JNum (num_of_int 1000)),
        (''_nonce'', JStr ''ab''), (''_sig'', JStr (replicate 64 (CHR ''0'')))])"
    by (simp add: json_content_def signed_command_def)
  have o: "skew_ok default_options 1500 (num_of_int 1000)"
    by (simp add: skew_ok_def default_options_def default_max_clock_skew_ms_def)
  have g: "guard_wf (new_guard default_max_clock_skew_ms)"
    "jm_get (seen_nonces (new_guard default_max_clock_skew_ms)) ''ab'' = None"
    by (rule guard_wf_new) (simp add: new_guard_def jm_get_def)
  show ?thesis
    using sign_wire_verify[OF zero_mac_hex k p num_of_int_wf num_finite_of_int _ s
        q[unfolded signed_command_def] c[unfolded signed_command_def] o g]
    by (simp add: signed_command_def)
qed

text \<open>C5: \<open>verify\<close> accepts exactly the payloads that carry a well-formed envelope whose
  signature matches the recomputed digest, within the clock window, with a nonce the guard does
  not hold for a timestamp within its window; on acceptance the guard has recorded the nonce.\<close>

theorem verify_accepts_iff:
  "verify mac date_now e p secret opts (Some g) = (Inr VOk, Some g') \<longleftrightarrow>
    \<not> no_secret secret \<and>
    (\<exists>sig ts n expected. envelope_of p = Some (sig, ts, n) \<and>
      digest mac e ts n p (the secret) = Inr expected \<and>
      equals_in_constant_time sig expected \<and> skew_ok opts date_now ts \<and>
      remember n (num_val ts) g = (True, g'))"
proof (cases "no_secret secret \<or> envelope_of p = None")
  case True
  from verify_no_envelope[OF this, of mac date_now e opts "Some g"] True show ?thesis by auto
next
  case False
  then obtain sig ts n where env: "envelope_of p = Some (sig, ts, n)" and k: "\<not> no_secret secret"
    by auto
  show ?thesis
    unfolding verify_envelope[OF env k]
    by (cases "digest mac e ts n p (the secret)"; cases "remember n (num_val ts) g")
       (auto simp: env k)
qed

text \<open>C6: a payload that fails for any reason but replay leaves the guard as it was, so nobody
  without the secret can burn a nonce; and a replayed payload adds no entry to it.\<close>

theorem rejected_keeps_guard:
  "case verify mac date_now e p secret opts (Some g) of
     (Inr VOk, g') \<Rightarrow> True
   | (Inr (VFail Replayed), g') \<Rightarrow> (\<exists>t. g' = Some (prune t g))
   | (_, g') \<Rightarrow> g' = Some g"
proof (cases "no_secret secret \<or> envelope_of p = None")
  case True
  show ?thesis
  proof (cases "no_secret secret")
    case True
    then show ?thesis by (simp add: verify_def)
  next
    case False
    with True have "envelope_of p = None" by simp
    from verify_no_envelope[of secret p mac date_now e opts "Some g"] True
    obtain f where f: "verify mac date_now e p secret opts (Some g) = (Inr (VFail f), Some g)" by auto
    have "f \<noteq> Replayed \<or> (\<exists>t. Some g = Some (prune t g))"
      using f False \<open>envelope_of p = None\<close>
      by (auto simp: verify_def envelope_of_def split: jsval.splits if_splits)
    with f show ?thesis by (cases f) auto
  qed
next
  case False
  then obtain sig ts n where env: "envelope_of p = Some (sig, ts, n)" and k: "\<not> no_secret secret"
    by auto
  have "\<not> fst (remember n (num_val ts) g) \<Longrightarrow> snd (remember n (num_val ts) g) = prune (num_val ts) g"
    by (auto simp: remember_def Let_def split: if_splits)
  then show ?thesis
    unfolding verify_envelope[OF env k]
    by (cases "digest mac e ts n p (the secret)"; cases "remember n (num_val ts) g") auto
qed

text \<open>C7: against a digest of 64 lower case hex digits, the accepted signatures are the digest in
  either case, and the digest followed by one more hex digit, which the decoder drops.\<close>

theorem accepted_signatures:
  assumes "hex_mac mac" "list_all is_hex sig"
  shows "equals_in_constant_time sig (mac k m) \<longleftrightarrow>
    (\<exists>extra. js_lower sig = mac k m @ extra \<and> length extra \<le> 1)"
  by (rule equals_mac_iff[OF assms])

theorem accepted_signatures_witness:
  "equals_in_constant_time (zero_mac ''k'' ''m'' @ ''F'') (zero_mac ''k'' ''m'')"
proof -
  have h: "list_all is_hex (zero_mac ''k'' ''m'' @ ''F'')" by code_simp
  have l: "js_lower (zero_mac ''k'' ''m'' @ ''F'') = zero_mac ''k'' ''m'' @ ''f''" by code_simp
  show ?thesis unfolding accepted_signatures[OF zero_mac_hex h] l by (rule exI[of _ "''f''"]) simp
qed

end
