(* ===== verification/Socket_Channel.thy ===== *)
theory Socket_Channel
  imports Hash_Laws
begin

text \<open>
  \<open>createSocketEmitter.util.ts\<close> and \<open>createSocketListener.util.ts\<close>: the two ends through which
  every Hub event passes. The socket, the HMAC, the clock, the nonce and the handlers are
  parameters; a call's effects are listed in order, and the one replay guard of the listener
  factory is threaded through the packets.
\<close>

section \<open>Sending\<close>

datatype emit_effect =
    SocketEmit string jsval
  | SigningFailed string js_error

fun is_signable :: "jsval \<Rightarrow> bool" where
  "is_signable (JObj a kvs) = True"
| "is_signable (JToJSON v) = True"
| "is_signable _ = False"

definition socket_emitter ::
  "mac_fun \<Rightarrow> string option \<Rightarrow> jsnum \<Rightarrow> string \<Rightarrow> string \<Rightarrow> jsval \<Rightarrow> emit_effect list" where
  "socket_emitter mac secret date_now nonce event payload =
    (if no_secret secret then [SocketEmit event payload]
     else if \<not> is_signable payload then [SocketEmit event payload]
     else case sign mac event payload secret date_now nonce of
         Inl err \<Rightarrow> [SigningFailed event err]
       | Inr signed \<Rightarrow> [SocketEmit event signed])"

section \<open>Receiving\<close>

text \<open>What a handler does: return, throw, or give back a promise that rejects.\<close>

datatype handler_result = Returns | Throws string | Rejects string

type_synonym handler = "jsval \<Rightarrow> handler_result"

datatype listen_effect =
    Invoked string jsval
  | HandlerFailed string string
  | DroppedNoSecret string
  | DroppedRejected string verify_failure
  | Threw js_error

definition unverified_events :: "string list" where
  "unverified_events = [''register'', ''connect'', ''disconnect'']"

definition invoke :: "string \<Rightarrow> handler \<Rightarrow> jsval \<Rightarrow> listen_effect list" where
  "invoke event h payload =
    Invoked event payload #
    (case h payload of
       Returns \<Rightarrow> []
     | Throws reason \<Rightarrow> [HandlerFailed event reason]
     | Rejects reason \<Rightarrow> [HandlerFailed event reason])"

definition on_event ::
  "mac_fun \<Rightarrow> rat \<Rightarrow> string option \<Rightarrow> handler \<Rightarrow> string \<Rightarrow> jsval \<Rightarrow> replay_guard \<Rightarrow>
   listen_effect list \<times> replay_guard" where
  "on_event mac date_now secret h event payload g =
    (if event \<in> set unverified_events then (invoke event h payload, g)
     else if no_secret secret then ([DroppedNoSecret event], g)
     else case verify mac date_now event payload secret default_options (Some g) of
         (Inl err, g') \<Rightarrow> ([Threw err], the g')
       | (Inr (VFail reason), g') \<Rightarrow> ([DroppedRejected event reason], the g')
       | (Inr VOk, g') \<Rightarrow> (invoke event h payload, the g'))"

definition threw :: "listen_effect list \<Rightarrow> bool" where
  "threw fx = (\<exists>e \<in> set fx. case e of Threw _ \<Rightarrow> True | _ \<Rightarrow> False)"

text \<open>
  A packet meets every listener registered for its event, in registration order. They share the
  guard of the factory.
\<close>

fun deliver ::
  "mac_fun \<Rightarrow> rat \<Rightarrow> string option \<Rightarrow> string \<Rightarrow> jsval \<Rightarrow> (string \<times> handler) list \<Rightarrow> replay_guard \<Rightarrow>
   listen_effect list \<times> replay_guard" where
  "deliver mac date_now secret event payload [] g = ([], g)"
| "deliver mac date_now secret event payload ((e, h) # regs) g =
    (if e = event
     then let (fx, g1) = on_event mac date_now secret h event payload g
          in if threw fx then (fx, g1)
             else let (fx', g2) = deliver mac date_now secret event payload regs g1
                  in (fx @ fx', g2)
     else deliver mac date_now secret event payload regs g)"

record packet =
  arrives :: rat
  pk_secret :: "string option"
  pk_event :: string
  pk_payload :: jsval

fun listen ::
  "mac_fun \<Rightarrow> (string \<times> handler) list \<Rightarrow> packet list \<Rightarrow> replay_guard \<Rightarrow> listen_effect list list" where
  "listen mac regs [] g = []"
| "listen mac regs (p # ps) g =
    (let (fx, g') = deliver mac (arrives p) (pk_secret p) (pk_event p) (pk_payload p) regs g
     in fx # listen mac regs ps g')"

definition fresh_listener_guard :: replay_guard where
  "fresh_listener_guard = new_guard default_max_clock_skew_ms"

section \<open>The guard along a run\<close>

lemma verify_guard_Some: "\<exists>g'. snd (verify mac t e p k opts (Some g)) = Some g'"
proof (cases "no_secret k \<or> envelope_of p = None")
  case True
  from verify_no_envelope[OF this, of mac t e opts "Some g"] show ?thesis by auto
next
  case False
  then obtain sig ts n where env: "envelope_of p = Some (sig, ts, n)" and k: "\<not> no_secret k" by auto
  show ?thesis unfolding verify_envelope[OF env k]
    by (cases "digest mac e ts n p (the k)") (auto simp: case_prod_beta)
qed

text \<open>A call of \<open>verify\<close> leaves the guard alone or is one \<open>remember\<close> of a timely message.\<close>

lemma verify_guard_cases:
  obtains "snd (verify mac t e p k opts (Some g)) = Some g"
    and "fst (verify mac t e p k opts (Some g)) \<noteq> Inr VOk"
  | sig ts n where "envelope_of p = Some (sig, ts, n)" "skew_ok opts t ts"
    "snd (verify mac t e p k opts (Some g)) = Some (snd (remember n (num_val ts) g))"
    "fst (verify mac t e p k opts (Some g)) = Inr VOk \<longleftrightarrow> fst (remember n (num_val ts) g)"
proof (cases "no_secret k \<or> envelope_of p = None")
  case True
  from verify_no_envelope[OF this, of mac t e opts "Some g"] that(1) show thesis by auto
next
  case False
  then obtain sig ts n where env: "envelope_of p = Some (sig, ts, n)" and k: "\<not> no_secret k" by auto
  note v = verify_envelope[OF env k, of mac t e opts "Some g"]
  show thesis
  proof (cases "digest mac e ts n p (the k)")
    case (Inl err)
    with v show thesis by (intro that(1)) simp_all
  next
    case (Inr x)
    show thesis
    proof (cases "equals_in_constant_time sig x \<and> skew_ok opts t ts")
      case True
      with v Inr env show thesis by (intro that(2)[of sig ts n]) (simp_all add: case_prod_beta)
    next
      case False
      with v Inr show thesis by (intro that(1)) (auto split: if_splits)
    qed
  qed
qed

lemma skew_ok_default:
  "skew_ok default_options t ts \<longleftrightarrow> \<bar>t - num_val ts\<bar> \<le> default_max_clock_skew_ms"
  by (simp add: skew_ok_def default_options_def default_max_clock_skew_ms_def)

text \<open>
  A message \<open>(n, u)\<close> is shielded at clock \<open>t\<close> when the guard holds it or the window has passed.
\<close>

definition shielded :: "string \<Rightarrow> rat \<Rightarrow> rat \<Rightarrow> replay_guard \<Rightarrow> bool" where
  "shielded n u t g = (jm_get (seen_nonces g) n = Some u \<or> t > u + window_ms g)"

lemma remember_shields:
  assumes "guard_wf g" "0 \<le> window_ms g" "fst (remember n u g)"
  shows "shielded n u t (snd (remember n u g))"
  using assms by (simp add: shielded_def get_remembered)

lemma remember_keeps_shield:
  assumes g: "guard_wf g" and s: "shielded n u t g"
    and past: "u \<le> t" and timely: "\<bar>t - v\<bar> \<le> window_ms g" "v \<le> t"
  shows "shielded n u t (snd (remember m v g))"
proof (cases "t > u + window_ms g")
  case True
  then show ?thesis by (simp add: shielded_def)
next
  case False
  then have held: "jm_get (seen_nonces g) n = Some u" using s by (simp add: shielded_def)
  have near: "\<bar>v - u\<bar> \<le> window_ms g" using False past timely by auto
  then have kept: "jm_get (seen_nonces (prune v g)) n = Some u" using held g by (simp add: get_pruned)
  have "\<not> (n = m \<and> fst (remember m v g))"
    using held near remember_fst[OF g] by force
  then show ?thesis using kept g by (auto simp: shielded_def get_remembered)
qed

lemma shielded_later: "shielded n u t g \<Longrightarrow> t \<le> t' \<Longrightarrow> shielded n u t' g"
  by (auto simp: shielded_def)

text \<open>The guard of a listener: well formed, with the default window.\<close>

definition listener_guard :: "replay_guard \<Rightarrow> bool" where
  "listener_guard g = (guard_wf g \<and> window_ms g = default_max_clock_skew_ms)"

lemma listener_guard_fresh: "listener_guard fresh_listener_guard"
  by (simp add: listener_guard_def fresh_listener_guard_def)

lemma listener_guard_remember: "listener_guard g \<Longrightarrow> listener_guard (snd (remember n t g))"
  by (simp add: listener_guard_def guard_wf_remember)

lemma window_nonneg: "listener_guard g \<Longrightarrow> 0 \<le> window_ms g"
  by (simp add: listener_guard_def default_max_clock_skew_ms_def)

text \<open>
  The cases of one listener on a guarded event: nothing reaches the handler and the guard is
  unchanged or merely pruned, or the message is new and timely.
\<close>

lemma on_event_cases:
  assumes "event \<notin> set unverified_events"
  obtains "snd (on_event mac t k h event p g) = g"
    and "\<And>e x. Invoked e x \<notin> set (fst (on_event mac t k h event p g))"
  | sig ts n where "envelope_of p = Some (sig, ts, n)"
    and "\<bar>t - num_val ts\<bar> \<le> default_max_clock_skew_ms"
    and "snd (on_event mac t k h event p g) = snd (remember n (num_val ts) g)"
    and "\<And>e x. Invoked e x \<in> set (fst (on_event mac t k h event p g)) \<Longrightarrow>
      fst (remember n (num_val ts) g)"
proof (cases "no_secret k")
  case True
  with assms that(1) show thesis by (simp add: on_event_def)
next
  case False
  let ?v = "verify mac t event p k default_options (Some g)"
  have oe: "on_event mac t k h event p g =
      (case ?v of (Inl err, g') \<Rightarrow> ([Threw err], the g')
       | (Inr (VFail reason), g') \<Rightarrow> ([DroppedRejected event reason], the g')
       | (Inr VOk, g') \<Rightarrow> (invoke event h p, the g'))"
    using assms False by (simp add: on_event_def)
  have snd_oe: "snd (on_event mac t k h event p g) = the (snd ?v)"
    unfolding oe by (cases ?v; cases "fst ?v"; auto split: verify_result.splits)
  have inv: "fst ?v = Inr VOk" if "Invoked e x \<in> set (fst (on_event mac t k h event p g))" for e x
    using that unfolding oe by (cases ?v; cases "fst ?v"; auto split: verify_result.splits)
  show thesis
  proof (rule verify_guard_cases[of mac t event p k default_options g])
    assume "snd ?v = Some g" "fst ?v \<noteq> Inr VOk"
    with snd_oe inv that(1) show thesis by auto
  next
    fix sig ts n
    assume "envelope_of p = Some (sig, ts, n)" "skew_ok default_options t ts"
      "snd ?v = Some (snd (remember n (num_val ts) g))"
      "fst ?v = Inr VOk \<longleftrightarrow> fst (remember n (num_val ts) g)"
    with snd_oe inv show thesis by (intro that(2)[of sig ts n]) (auto simp: skew_ok_default)
  qed
qed

lemma on_event_guard:
  "event \<notin> set unverified_events \<Longrightarrow> listener_guard g \<Longrightarrow>
    listener_guard (snd (on_event mac t k h event p g))"
  by (rule on_event_cases[of event mac t k h p g]) (simp_all add: listener_guard_remember)

lemma on_event_invoked:
  assumes "event \<notin> set unverified_events" "envelope_of p = Some (sig, ts, n)"
    and "Invoked e x \<in> set (fst (on_event mac t k h event p g))"
  shows "snd (on_event mac t k h event p g) = snd (remember n (num_val ts) g) \<and> fst (remember n (num_val ts) g)"
proof (rule on_event_cases[OF assms(1), of mac t k h p g])
  assume "\<And>e x. Invoked e x \<notin> set (fst (on_event mac t k h event p g))"
  with assms(3) show ?thesis by blast
next
  fix sig' ts' m
  assume "envelope_of p = Some (sig', ts', m)" "snd (on_event mac t k h event p g) = snd (remember m (num_val ts') g)"
    and "\<And>e x. Invoked e x \<in> set (fst (on_event mac t k h event p g)) \<Longrightarrow> fst (remember m (num_val ts') g)"
  with assms(2,3) show ?thesis by auto
qed

lemma on_event_shield:
  assumes "event \<notin> set unverified_events" "listener_guard g" "shielded n u t g" "u \<le> t"
    and "\<forall>sig ts m. envelope_of p = Some (sig, ts, m) \<longrightarrow> num_val ts \<le> t"
  shows "shielded n u t (snd (on_event mac t k h event p g))"
proof (rule on_event_cases[OF assms(1), of mac t k h p g])
  fix sig ts m
  assume "envelope_of p = Some (sig, ts, m)" "\<bar>t - num_val ts\<bar> \<le> default_max_clock_skew_ms"
    "snd (on_event mac t k h event p g) = snd (remember m (num_val ts) g)"
  with assms(2-5) show ?thesis by (simp add: remember_keeps_shield listener_guard_def)
qed (use assms in simp)

lemma on_event_blocked:
  assumes "event \<notin> set unverified_events" "listener_guard g" "shielded n u t g"
    and "envelope_of p = Some (sig, ts, n)" "num_val ts = u"
  shows "Invoked e x \<notin> set (fst (on_event mac t k h event p g))"
proof (rule on_event_cases[OF assms(1), of mac t k h p g])
  fix sig' ts' m
  assume a: "envelope_of p = Some (sig', ts', m)" "\<bar>t - num_val ts'\<bar> \<le> default_max_clock_skew_ms"
    and i: "\<And>e x. Invoked e x \<in> set (fst (on_event mac t k h event p g)) \<Longrightarrow>
      fst (remember m (num_val ts') g)"
  have eq: "m = n" "num_val ts' = u" using a(1) assms(4,5) by simp_all
  have w: "window_ms g = default_max_clock_skew_ms" "guard_wf g"
    using assms(2) by (simp_all add: listener_guard_def)
  have "jm_get (seen_nonces g) n = Some u"
    using assms(3) a(2) w(1) unfolding eq shielded_def by auto
  then have "\<not> fst (remember n u g)"
    unfolding remember_fst[OF w(2)] using window_nonneg[OF assms(2)] by force
  with i eq show ?thesis by blast
qed

lemma on_event_accepted:
  assumes "event \<notin> set unverified_events" "listener_guard g"
    and "envelope_of p = Some (sig, ts, n)"
    and "Invoked e x \<in> set (fst (on_event mac t k h event p g))"
  shows "shielded n (num_val ts) t (snd (on_event mac t k h event p g))"
proof (rule on_event_cases[OF assms(1), of mac t k h p g])
  fix sig' ts' m
  assume a: "envelope_of p = Some (sig', ts', m)"
    "snd (on_event mac t k h event p g) = snd (remember m (num_val ts') g)"
    and "\<And>e x. Invoked e x \<in> set (fst (on_event mac t k h event p g)) \<Longrightarrow>
      fst (remember m (num_val ts') g)"
  with assms have "fst (remember n (num_val ts) g)" by simp
  then show ?thesis
    using a assms(2,3) window_nonneg by (simp add: remember_shields listener_guard_def)
qed (use assms(4) in blast)

lemma deliver_Cons:
  "deliver mac t k event p (eh # regs) g =
    (if fst eh \<noteq> event then deliver mac t k event p regs g
     else if threw (fst (on_event mac t k (snd eh) event p g)) then on_event mac t k (snd eh) event p g
     else (fst (on_event mac t k (snd eh) event p g) @
             fst (deliver mac t k event p regs (snd (on_event mac t k (snd eh) event p g))),
           snd (deliver mac t k event p regs (snd (on_event mac t k (snd eh) event p g)))))"
  by (cases eh) (simp add: Let_def case_prod_beta)

lemma deliver_guard:
  "event \<notin> set unverified_events \<Longrightarrow> listener_guard g \<Longrightarrow>
    listener_guard (snd (deliver mac t k event p regs g))"
proof (induction regs arbitrary: g)
  case (Cons eh regs)
  note o = on_event_guard[OF Cons.prems, of mac t k "snd eh" p]
  show ?case
    unfolding deliver_Cons using o Cons.IH[OF Cons.prems] Cons.IH[OF Cons.prems(1) o] by simp
qed simp

lemma deliver_shield:
  assumes "event \<notin> set unverified_events" "u \<le> t"
    and "\<forall>sig ts m. envelope_of p = Some (sig, ts, m) \<longrightarrow> num_val ts \<le> t"
  shows "listener_guard g \<Longrightarrow> shielded n u t g \<Longrightarrow> shielded n u t (snd (deliver mac t k event p regs g))"
proof (induction regs arbitrary: g)
  case (Cons eh regs)
  note o = on_event_guard[OF assms(1) Cons.prems(1), of mac t k "snd eh" p]
  note sh = on_event_shield[OF assms(1) Cons.prems assms(2,3), of mac k "snd eh"]
  show ?case
    unfolding deliver_Cons using o sh Cons.IH[OF Cons.prems] Cons.IH[OF o sh] by simp
qed simp

lemma deliver_blocked:
  assumes "event \<notin> set unverified_events" "envelope_of p = Some (sig, ts, n)" "num_val ts \<le> t"
  shows "listener_guard g \<Longrightarrow> shielded n (num_val ts) t g \<Longrightarrow>
    Invoked e x \<notin> set (fst (deliver mac t k event p regs g))"
proof (induction regs arbitrary: g)
  case (Cons eh regs)
  have up: "\<forall>sig ts m. envelope_of p = Some (sig, ts, m) \<longrightarrow> num_val ts \<le> t" using assms(2,3) by simp
  note o = on_event_guard[OF assms(1) Cons.prems(1), of mac t k "snd eh" p]
  note sh = on_event_shield[OF assms(1) Cons.prems assms(3) up, of mac k "snd eh"]
  note no = on_event_blocked[OF assms(1) Cons.prems assms(2) refl, of e x mac k "snd eh"]
  show ?case
    unfolding deliver_Cons using no Cons.IH[OF Cons.prems] Cons.IH[OF o sh] by simp
qed simp

lemma deliver_accepted:
  assumes "event \<notin> set unverified_events" "envelope_of p = Some (sig, ts, n)" "num_val ts \<le> t"
  shows "listener_guard g \<Longrightarrow> Invoked e x \<in> set (fst (deliver mac t k event p regs g)) \<Longrightarrow>
    shielded n (num_val ts) t (snd (deliver mac t k event p regs g))"
proof (induction regs arbitrary: g)
  case (Cons eh regs)
  let ?o = "on_event mac t k (snd eh) event p g"
  have up: "\<forall>sig ts m. envelope_of p = Some (sig, ts, m) \<longrightarrow> num_val ts \<le> t" using assms(2,3) by simp
  have g1: "listener_guard (snd ?o)" by (rule on_event_guard[OF assms(1) Cons.prems(1)])
  show ?case
  proof (cases "fst eh = event \<and> Invoked e x \<in> set (fst ?o)")
    case True
    then have sh: "shielded n (num_val ts) t (snd ?o)"
      using on_event_accepted[OF assms(1) Cons.prems(1) assms(2)] by blast
    from sh deliver_shield[OF assms(1,3) up g1 sh] True show ?thesis
      unfolding deliver_Cons by simp
  next
    case no: False
    have ih1: "shielded n (num_val ts) t (snd (deliver mac t k event p regs g))"
      if "Invoked e x \<in> set (fst (deliver mac t k event p regs g))"
      by (rule Cons.IH[OF Cons.prems(1) that])
    have ih2: "shielded n (num_val ts) t (snd (deliver mac t k event p regs (snd ?o)))"
      if "Invoked e x \<in> set (fst (deliver mac t k event p regs (snd ?o)))"
      by (rule Cons.IH[OF g1 that])
    show ?thesis
    proof (cases "fst eh = event")
      case False
      with Cons.prems(2) ih1 show ?thesis unfolding deliver_Cons by (simp only: if_True simp_thms)
    next
      case True
      then have out: "Invoked e x \<notin> set (fst ?o)" using no by blast
      have nt: "\<not> threw (fst ?o)"
      proof (rule notI)
        assume "threw (fst ?o)"
        with Cons.prems(2) True have "Invoked e x \<in> set (fst ?o)"
          unfolding deliver_Cons by (simp only: simp_thms if_False if_True)
        with out show False by (rule notE)
      qed
      have "Invoked e x \<in> set (fst (deliver mac t k event p regs (snd ?o)))"
        using Cons.prems(2) True out nt unfolding deliver_Cons
        by (simp only: simp_thms if_False fst_conv set_append Un_iff)
      from ih2[OF this] nt True show ?thesis
        unfolding deliver_Cons by (simp only: simp_thms if_False snd_conv)
    qed
  qed
qed simp

lemma deliver_unverified:
  "event \<in> set unverified_events \<Longrightarrow> snd (deliver mac t k event p regs g) = g"
proof (induction regs arbitrary: g)
  case (Cons eh regs)
  then show ?case unfolding deliver_Cons by (simp add: on_event_def)
qed simp

text \<open>
  Packets that need a signature, and runs in which no such packet is stamped ahead of the clock at its
  arrival. The other events may stand anywhere in a run.
\<close>

definition guarded :: "packet \<Rightarrow> bool" where
  "guarded p = (pk_event p \<notin> set unverified_events)"

definition not_ahead :: "packet \<Rightarrow> bool" where
  "not_ahead p = (\<not> guarded p \<or>
     (case envelope_of (pk_payload p) of None \<Rightarrow> True | Some (sig, ts, n) \<Rightarrow> num_val ts \<le> arrives p))"

lemma listen_blocked:
  assumes "sorted (map arrives ps)" "\<forall>p \<in> set ps. not_ahead p \<and> t \<le> arrives p"
    and "listener_guard g" "shielded n u t g" "u \<le> t" "j < length ps" "guarded (ps ! j)"
    and "envelope_of (pk_payload (ps ! j)) = Some (sig, ts, n)" "num_val ts = u"
  shows "Invoked e x \<notin> set (listen mac regs ps g ! j)"
  using assms
proof (induction ps arbitrary: g j t)
  case (Cons p ps)
  let ?d = "deliver mac (arrives p) (pk_secret p) (pk_event p) (pk_payload p) regs g"
  have p: "t \<le> arrives p" "u \<le> arrives p" using Cons.prems(2,5) by auto
  have sh: "shielded n u (arrives p) g" by (rule shielded_later[OF Cons.prems(4) p(1)])
  have keep: "listener_guard (snd ?d) \<and> shielded n u (arrives p) (snd ?d)"
  proof (cases "guarded p")
    case True
    then have e: "pk_event p \<notin> set unverified_events" by (simp add: guarded_def)
    have "\<forall>sig ts m. envelope_of (pk_payload p) = Some (sig, ts, m) \<longrightarrow> num_val ts \<le> arrives p"
      using Cons.prems(2) True by (auto simp: not_ahead_def)
    then show ?thesis using deliver_guard[OF e Cons.prems(3)] deliver_shield[OF e p(2) _ Cons.prems(3) sh] by blast
  next
    case False
    then show ?thesis using Cons.prems(3) sh by (simp add: guarded_def deliver_unverified)
  qed
  show ?case
  proof (cases j)
    case 0
    then have e: "pk_event p \<notin> set unverified_events" using Cons.prems(7) by (simp add: guarded_def)
    with 0 Cons.prems deliver_blocked[OF e, of "pk_payload p" sig ts n "arrives p" g _ x mac "pk_secret p" regs]
      sh p show ?thesis by (simp add: case_prod_beta)
  next
    case (Suc i)
    have "Invoked e x \<notin> set (listen mac regs ps (snd ?d) ! i)"
    proof (rule Cons.IH)
      show "sorted (map arrives ps)" using Cons.prems(1) by simp
      show "\<forall>q \<in> set ps. not_ahead q \<and> arrives p \<le> arrives q"
        using Cons.prems(1,2) by auto
      show "listener_guard (snd ?d)" "shielded n u (arrives p) (snd ?d)" using keep by simp_all
    qed (use Cons.prems(6-9) p(2) Suc in simp_all)
    with Suc show ?thesis by (simp add: case_prod_beta)
  qed
qed simp

lemma listen_no_replay:
  assumes "sorted (map arrives ps)" "\<forall>p \<in> set ps. not_ahead p" "listener_guard g"
    and "i < j" "j < length ps" "guarded (ps ! i)" "guarded (ps ! j)"
    and "envelope_of (pk_payload (ps ! i)) = Some (sig, ts, n)"
    and "envelope_of (pk_payload (ps ! j)) = Some (sig', ts', n)" "num_val ts = num_val ts'"
    and "Invoked e x \<in> set (listen mac regs ps g ! i)"
  shows "Invoked e' x' \<notin> set (listen mac regs ps g ! j)"
  using assms
proof (induction ps arbitrary: g i j)
  case (Cons p ps)
  let ?d = "deliver mac (arrives p) (pk_secret p) (pk_event p) (pk_payload p) regs g"
  have g1: "listener_guard (snd ?d)"
    using Cons.prems(3) deliver_guard by (cases "guarded p") (auto simp: guarded_def deliver_unverified)
  obtain j' where j: "j = Suc j'" using Cons.prems(4) by (cases j) auto
  have rest: "sorted (map arrives ps)" "\<forall>q \<in> set ps. not_ahead q" "j' < length ps" "guarded (ps ! j')"
    using Cons.prems(1,2,5,7) j by simp_all
  have "Invoked e' x' \<notin> set (listen mac regs ps (snd ?d) ! j')"
  proof (cases i)
    case 0
    have e: "pk_event p \<notin> set unverified_events" using Cons.prems(6) 0 by (simp add: guarded_def)
    have env: "envelope_of (pk_payload p) = Some (sig, ts, n)" using Cons.prems(8) 0 by simp
    have up: "num_val ts \<le> arrives p" using Cons.prems(2,6) env 0 by (simp add: not_ahead_def)
    have "Invoked e x \<in> set (fst ?d)" using Cons.prems(11) 0 by (simp add: case_prod_beta)
    then have sh: "shielded n (num_val ts) (arrives p) (snd ?d)"
      by (rule deliver_accepted[OF e env up Cons.prems(3)])
    have later: "\<forall>q \<in> set ps. not_ahead q \<and> arrives p \<le> arrives q"
      using Cons.prems(1,2) by auto
    have envj: "envelope_of (pk_payload (ps ! j')) = Some (sig', ts', n)"
      using Cons.prems(9) j by simp
    show ?thesis
      by (rule listen_blocked[OF rest(1) later g1 sh up rest(3,4) envj Cons.prems(10)[symmetric]])
  next
    case (Suc i')
    have "i' < j'" using Cons.prems(4) Suc j by simp
    moreover have "envelope_of (pk_payload (ps ! i')) = Some (sig, ts, n)"
      "envelope_of (pk_payload (ps ! j')) = Some (sig', ts', n)" "guarded (ps ! i')"
      using Cons.prems(6,8,9) Suc j by simp_all
    moreover have "Invoked e x \<in> set (listen mac regs ps (snd ?d) ! i')"
      using Cons.prems(11) Suc by (simp add: case_prod_beta)
    ultimately show ?thesis
      using Cons.IH[OF rest(1,2) g1 _ rest(3)] rest(4) Cons.prems(10) by blast
  qed
  with j show ?case by (simp add: case_prod_beta)
qed simp

section \<open>Authentic packets\<close>

text \<open>The payload carries an envelope whose signature is the one the key gives.\<close>

definition authentic :: "mac_fun \<Rightarrow> string \<Rightarrow> string \<Rightarrow> jsval \<Rightarrow> bool" where
  "authentic mac key event p =
    (case envelope_of p of
       None \<Rightarrow> False
     | Some (sig, ts, n) \<Rightarrow>
         (case digest mac event ts n p key of Inl e \<Rightarrow> False | Inr x \<Rightarrow> equals_in_constant_time sig x))"

lemma forged_verify:
  assumes "\<not> authentic mac key event p"
  shows "snd (verify mac t event p (Some key) opts g) = g \<and> fst (verify mac t event p (Some key) opts g) \<noteq> Inr VOk"
proof (cases "no_secret (Some key) \<or> envelope_of p = None")
  case True
  from verify_no_envelope[OF this, of mac t event opts g] show ?thesis by auto
next
  case False
  then obtain sig ts n where e: "envelope_of p = Some (sig, ts, n)" "\<not> no_secret (Some key)" by auto
  show ?thesis
    using assms unfolding verify_envelope[OF e] by (auto simp: authentic_def e(1) split: sum.split)
qed

lemma authentic_verify:
  assumes "authentic mac key event p" "envelope_of p = Some (sig, ts, n)" "\<not> no_secret (Some key)"
  shows "fst (verify mac t event p (Some key) opts (Some g)) = Inr VOk \<longleftrightarrow>
    skew_ok opts t ts \<and> fst (remember n (num_val ts) g)"
  using assms(1) unfolding verify_envelope[OF assms(2,3)]
  by (auto simp: authentic_def assms(2) case_prod_beta split: sum.splits)

text \<open>A handler of an event that needs a signature runs exactly when a secret is known and
  \<open>verify\<close> accepts the payload under it, and it is handed that very payload.\<close>

lemma handler_runs_iff:
  assumes "event \<notin> set unverified_events"
  shows "Invoked e x \<in> set (fst (on_event mac t secret h event p g)) \<longleftrightarrow>
    e = event \<and> x = p \<and> \<not> no_secret secret \<and>
    fst (verify mac t event p secret default_options (Some g)) = Inr VOk"
proof (cases "verify mac t event p secret default_options (Some g)")
  case (Pair r g')
  then show ?thesis using assms
    by (cases r; cases "no_secret secret"; cases "h p")
       (auto simp: on_event_def invoke_def split: verify_result.splits)
qed

section \<open>Properties of the channel\<close>

text \<open>C8: for the events that need a signature, that is all but \<open>register\<close>, \<open>connect\<close> and \<open>disconnect\<close>,
  a message is executed at most once, as long as the clock does not go back and no such packet is
  stamped ahead of the clock at its arrival: when some handler ran on a packet, no handler runs on
  any later packet with the same nonce and time stamp, under whatever event and whatever text as secret, whatever
  other packets, registrations and reconnections among them, lie in between.\<close>

theorem executed_at_most_once:
  assumes "sorted (map arrives ps)" "\<forall>p \<in> set ps. not_ahead p"
    and "i < j" "j < length ps" "guarded (ps ! i)" "guarded (ps ! j)"
    and "envelope_of (pk_payload (ps ! i)) = Some (sig, ts, n)"
    and "envelope_of (pk_payload (ps ! j)) = Some (sig', ts', n)" "num_val ts = num_val ts'"
    and "Invoked e x \<in> set (listen mac regs ps fresh_listener_guard ! i)"
  shows "Invoked e' x' \<notin> set (listen mac regs ps fresh_listener_guard ! j)"
  by (rule listen_no_replay[OF assms(1,2) listener_guard_fresh assms(3-)])

definition command_packet :: "rat \<Rightarrow> packet" where
  "command_packet t = \<lparr>arrives = t, pk_secret = Some ''key'', pk_event = ''command'',
     pk_payload = signed_command\<rparr>"

definition register_packet :: "rat \<Rightarrow> packet" where
  "register_packet t = \<lparr>arrives = t, pk_secret = Some ''key'', pk_event = ''register'', pk_payload = JNull\<rparr>"

theorem executed_at_most_once_witness:
  "Invoked ''command'' signed_command \<in> set (listen zero_mac [(''command'', \<lambda>_. Returns)]
     [command_packet 1500, register_packet 2000, command_packet 2500] fresh_listener_guard ! 0) \<and>
   Invoked ''command'' signed_command \<notin> set (listen zero_mac [(''command'', \<lambda>_. Returns)]
     [command_packet 1500, register_packet 2000, command_packet 2500] fresh_listener_guard ! 2)"
proof -
  let ?ps = "[command_packet 1500, register_packet 2000, command_packet 2500]"
  let ?run = "listen zero_mac [(''command'', \<lambda>_. Returns)] ?ps fresh_listener_guard"
  have env: "envelope_of signed_command = Some (replicate 64 (CHR ''0''), num_of_int 1000, ''ab'')"
    by code_simp
  have s: "sorted (map arrives ?ps)" by (simp add: command_packet_def register_packet_def)
  have g: "\<forall>p \<in> set ?ps. not_ahead p" "guarded (?ps ! 0)" "guarded (?ps ! 2)"
    by (simp_all add: command_packet_def register_packet_def guarded_def not_ahead_def env unverified_events_def)
  have i: "Invoked ''command'' signed_command \<in> set (?run ! 0)" by code_simp
  have envs: "envelope_of (pk_payload (?ps ! 0)) = Some (replicate 64 (CHR ''0''), num_of_int 1000, ''ab'')"
    "envelope_of (pk_payload (?ps ! 2)) = Some (replicate 64 (CHR ''0''), num_of_int 1000, ''ab'')"
    using env by (simp_all add: command_packet_def)
  show ?thesis
    using executed_at_most_once[OF s g(1) _ _ g(2,3) envs refl i] i by simp
qed

text \<open>C9: the condition of C8 on time stamps is needed. The guard prunes by the time stamp of the message
  at hand, not by the clock: whatever packet has been executed, and whatever message stamped more than
  the window later than it is executed next, the first packet is executed again for as long as its
  own time stamp is within the window of the clock, so the message in between is stamped ahead of
  that clock.\<close>

theorem future_timestamp_reopens_replay:
  assumes "listener_guard g" "event \<notin> set unverified_events" "event' \<notin> set unverified_events"
    and "envelope_of p = Some (sig, ts, n)" "envelope_of q = Some (sig', ts', n')"
    and "Invoked event p \<in> set (fst (on_event mac t0 (Some key) h event p g))"
    and "Invoked event' q \<in> set (fst (on_event mac t1 (Some key) h' event' q
           (snd (on_event mac t0 (Some key) h event p g))))"
    and "num_val ts + default_max_clock_skew_ms < num_val ts'" "\<bar>t2 - num_val ts\<bar> \<le> default_max_clock_skew_ms"
  shows "Invoked event p \<in> set (fst (on_event mac t2 (Some key) h event p
      (snd (on_event mac t1 (Some key) h' event' q (snd (on_event mac t0 (Some key) h event p g)))))) \<and>
    t2 < num_val ts'"
proof
  let ?g1 = "snd (on_event mac t0 (Some key) h event p g)"
  let ?g2 = "snd (on_event mac t1 (Some key) h' event' q ?g1)"
  have k: "\<not> no_secret (Some key)"
    and v: "fst (verify mac t0 event p (Some key) default_options (Some g)) = Inr VOk"
    using assms(6) unfolding handler_runs_iff[OF assms(2)] by simp_all
  have a: "authentic mac key event p" using forged_verify[of mac key event p] v by blast
  have g1: "listener_guard ?g1" by (rule on_event_guard[OF assms(2,1)])
  note r1 = on_event_invoked[OF assms(2,4,6)] and r2 = on_event_invoked[OF assms(3,5,7)]
  have g2: "?g2 = snd (remember n' (num_val ts') ?g1)" and new: "fst (remember n' (num_val ts') ?g1)"
    using r2 by simp_all
  have seen: "jm_get (seen_nonces ?g1) n = Some (num_val ts)"
    using r1 get_remembered[of g n "num_val ts" n] assms(1) by (simp add: listener_guard_def)
  have wf: "guard_wf ?g1" "guard_wf ?g2" "window_ms ?g1 = default_max_clock_skew_ms"
    "window_ms ?g2 = default_max_clock_skew_ms"
    using g1 on_event_guard[OF assms(3) g1] by (simp_all add: listener_guard_def)
  have "fst (remember n (num_val ts) ?g2)"
    unfolding remember_fst[OF wf(2)] wf(4)
    using assms(8) new unfolding g2 get_remembered[OF wf(1)] get_pruned[OF wf(1)] wf(3) seen
    by (auto split: if_splits)
  then have "fst (verify mac t2 event p (Some key) default_options (Some ?g2)) = Inr VOk"
    using assms(9) by (simp add: authentic_verify[OF a assms(4) k] skew_ok_default)
  then show "Invoked event p \<in> set (fst (on_event mac t2 (Some key) h event p ?g2))"
    unfolding handler_runs_iff[OF assms(2)] using k by simp
  show "t2 < num_val ts'" using assms(8,9) by linarith
qed

definition stamped :: "int \<Rightarrow> string \<Rightarrow> jsval" where
  "stamped ts n = JObj 1 [(''_ts'', JNum (num_of_int ts)), (''_nonce'', JStr n),
     (''_sig'', JStr (replicate 64 (CHR ''0'')))]"

definition stamped_packet :: "rat \<Rightarrow> int \<Rightarrow> string \<Rightarrow> packet" where
  "stamped_packet t ts n = \<lparr>arrives = t, pk_secret = Some ''key'', pk_event = ''command'',
     pk_payload = stamped ts n\<rparr>"

theorem future_timestamp_reopens_replay_witness:
  "listen zero_mac [(''command'', \<lambda>_. Returns)]
     [stamped_packet 0 0 ''a'', stamped_packet 1 300001 ''b'', stamped_packet 2 0 ''a'']
     fresh_listener_guard =
   [[Invoked ''command'' (stamped 0 ''a'')], [Invoked ''command'' (stamped 300001 ''b'')],
    [Invoked ''command'' (stamped 0 ''a'')]] \<and>
   Invoked ''command'' (stamped 0 ''a'') \<in> set (fst (on_event zero_mac 2 (Some ''key'') (\<lambda>_. Returns) ''command'' (stamped 0 ''a'')
     (snd (on_event zero_mac 1 (Some ''key'') (\<lambda>_. Returns) ''command'' (stamped 300001 ''b'')
       (snd (on_event zero_mac 0 (Some ''key'') (\<lambda>_. Returns) ''command'' (stamped 0 ''a'') fresh_listener_guard))))))"
proof
  show "listen zero_mac [(''command'', \<lambda>_. Returns)]
     [stamped_packet 0 0 ''a'', stamped_packet 1 300001 ''b'', stamped_packet 2 0 ''a'']
     fresh_listener_guard =
   [[Invoked ''command'' (stamped 0 ''a'')], [Invoked ''command'' (stamped 300001 ''b'')],
    [Invoked ''command'' (stamped 0 ''a'')]]" by code_simp
  have e: "''command'' \<notin> set unverified_events" by (simp add: unverified_events_def)
  have env: "envelope_of (stamped 0 ''a'') = Some (replicate 64 (CHR ''0''), num_of_int 0, ''a'')"
    "envelope_of (stamped 300001 ''b'') = Some (replicate 64 (CHR ''0''), num_of_int 300001, ''b'')"
    by code_simp+
  have first: "Invoked ''command'' (stamped 0 ''a'') \<in>
      set (fst (on_event zero_mac 0 (Some ''key'') (\<lambda>_. Returns) ''command'' (stamped 0 ''a'') fresh_listener_guard))"
    by code_simp
  have second: "Invoked ''command'' (stamped 300001 ''b'') \<in>
      set (fst (on_event zero_mac 1 (Some ''key'') (\<lambda>_. Returns) ''command'' (stamped 300001 ''b'')
        (snd (on_event zero_mac 0 (Some ''key'') (\<lambda>_. Returns) ''command'' (stamped 0 ''a'') fresh_listener_guard))))"
    by code_simp
  have t: "num_val (num_of_int 0) + default_max_clock_skew_ms < num_val (num_of_int 300001)"
    "\<bar>2 - num_val (num_of_int 0)\<bar> \<le> default_max_clock_skew_ms"
    by (simp_all add: default_max_clock_skew_ms_def)
  show "Invoked ''command'' (stamped 0 ''a'') \<in> set (fst (on_event zero_mac 2 (Some ''key'') (\<lambda>_. Returns) ''command'' (stamped 0 ''a'')
     (snd (on_event zero_mac 1 (Some ''key'') (\<lambda>_. Returns) ''command'' (stamped 300001 ''b'')
       (snd (on_event zero_mac 0 (Some ''key'') (\<lambda>_. Returns) ''command'' (stamped 0 ''a'') fresh_listener_guard))))))"
    using future_timestamp_reopens_replay[OF listener_guard_fresh e e env first second t] by simp
qed

lemma handler_runs_iff_example:
  "Invoked ''command'' signed_command \<in>
     set (fst (on_event zero_mac 1500 (Some ''key'') (\<lambda>_. Throws ''x'') ''command'' signed_command
       fresh_listener_guard)) \<and>
   Invoked ''command'' signed_command \<notin>
     set (fst (on_event zero_mac 1500 None (\<lambda>_. Throws ''x'') ''command'' signed_command
       fresh_listener_guard))"
proof -
  have e: "''command'' \<notin> set unverified_events" by (simp add: unverified_events_def)
  have v: "fst (verify zero_mac 1500 ''command'' signed_command (Some ''key'') default_options
      (Some fresh_listener_guard)) = Inr VOk" by code_simp
  show ?thesis unfolding handler_runs_iff[OF e] using v by (simp add: no_secret_def)
qed

text \<open>Under a text for a secret, or none, nothing is thrown out of a callback on an acyclic payload made by
  a JSON parser, whether the handler returns, throws or rejects.\<close>

lemma listener_never_throws:
  assumes "parsed p" "\<not> cyclic {} p"
  shows "\<not> threw (fst (on_event mac t secret h event p g))"
proof -
  have ok: "\<exists>s. digest mac e ts n p k = Inr s" for e ts n k
  proof -
    have "\<not> cyclic {} (strip_envelope p)" using cyclic_strip assms by blast
    with acyclic_canonicalize[OF parsed_strip[OF assms(1)]]
    show ?thesis by (auto simp: digest_def signing_material_def)
  qed
  have no_err: "\<not> isl (fst (verify mac t event p secret default_options (Some g)))"
  proof (cases "no_secret secret \<or> envelope_of p = None")
    case True
    from verify_no_envelope[OF this, of mac t event default_options "Some g"] show ?thesis by auto
  next
    case False
    then obtain sig ts n where env: "envelope_of p = Some (sig, ts, n)" and k: "\<not> no_secret secret" by auto
    obtain s where "digest mac event ts n p (the secret) = Inr s" using ok by blast
    then show ?thesis unfolding verify_envelope[OF env k] by (simp add: case_prod_beta)
  qed
  have inv: "\<not> threw (invoke event h p)"
    by (cases "h p") (simp_all add: threw_def invoke_def)
  obtain r g' where v: "verify mac t event p secret default_options (Some g) = (r, g')"
    by (cases "verify mac t event p secret default_options (Some g)")
  with no_err obtain x where "r = Inr x" by (cases r) simp_all
  then show ?thesis using v inv
    by (cases x) (simp_all add: on_event_def threw_def)
qed

text \<open>C11: with a secret, an object leaves the Agent signed or not at all. What is emitted under
  the event is the payload with an envelope whose signature is the digest over that very payload;
  when the digest cannot be computed the event is dropped and reported.\<close>

theorem emitter_signs_or_drops:
  assumes "\<not> no_secret secret"
  shows "socket_emitter mac secret now nonce event (JObj a kvs) =
    (case digest mac event now nonce (JObj a kvs) (the secret) of
       Inl err \<Rightarrow> [SigningFailed event err]
     | Inr sig \<Rightarrow> [SocketEmit event (JObj a (add_envelope now nonce sig kvs))]) \<and>
    (\<forall>sig. digest mac event now nonce (JObj a kvs) (the secret) = Inr sig \<longrightarrow>
      strip_envelope (JObj a (add_envelope now nonce sig kvs)) = strip_envelope (JObj a kvs) \<and>
      digest mac event now nonce (JObj a (add_envelope now nonce sig kvs)) (the secret) = Inr sig)"
proof -
  have strip: "strip_envelope (JObj a (add_envelope now nonce sig kvs)) = strip_envelope (JObj a kvs)" for sig
    using strip_add_envelope by simp
  have "socket_emitter mac secret now nonce event (JObj a kvs) =
    (case digest mac event now nonce (JObj a kvs) (the secret) of
       Inl err \<Rightarrow> [SigningFailed event err]
     | Inr sig \<Rightarrow> [SocketEmit event (JObj a (add_envelope now nonce sig kvs))])"
    using assms by (cases "digest mac event now nonce (JObj a kvs) (the secret)")
      (simp_all add: socket_emitter_def sign_def)
  then show ?thesis using strip digest_strip_cong[OF strip] by auto
qed

theorem emitter_signs_or_drops_witness:
  "socket_emitter zero_mac (Some ''key'') (num_of_int 7) ''n'' ''service-log'' (JObj 1 [(''x'', JObj 1 [])]) =
   [SigningFailed ''service-log'' circular_error]"
proof -
  have k: "\<not> no_secret (Some ''key'')" by (simp add: no_secret_def)
  have d: "digest zero_mac ''service-log'' (num_of_int 7) ''n'' (JObj 1 [(''x'', JObj 1 [])]) ''key'' =
      Inl circular_error" by code_simp
  from emitter_signs_or_drops[OF k, of zero_mac "num_of_int 7" "''n''" "''service-log''" 1 "[(''x'', JObj 1 [])]"] d
  show ?thesis by simp
qed

end
