(* ===== verification/Js_Bytes.thy ===== *)
theory Js_Bytes
  imports Js_Text
begin

text \<open>
  \<open>Buffer.toString('utf8')\<close>: the decoder of the Encoding Standard, which replaces every malformed
  sequence by U+FFFD. A buffer is a list of bytes. The characters of the model end at U+00FF: wider
  white space is read as a no-break space, every other wider character, U+FFFD among them, as the
  stand-in U+001A, once for each UTF-16 code unit.
\<close>

section \<open>The decoder\<close>

text \<open>A sequence that has begun: the bytes missing, the value so far, the range of the next byte\<close>

type_synonym utf8_pending = "nat \<times> nat \<times> nat \<times> nat"

definition replacement :: nat where
  "replacement = 65533"

definition utf8_lead :: "nat \<Rightarrow> nat + utf8_pending" where
  "utf8_lead b =
    (if b < 128 then Inl b
     else if 194 \<le> b \<and> b \<le> 223 then Inr (1, b - 192, 128, 191)
     else if 224 \<le> b \<and> b \<le> 239
       then Inr (2, b - 224, if b = 224 then 160 else 128, if b = 237 then 159 else 191)
     else if 240 \<le> b \<and> b \<le> 244
       then Inr (3, b - 240, if b = 240 then 144 else 128, if b = 244 then 143 else 191)
     else Inl replacement)"

fun utf8_points :: "utf8_pending option \<Rightarrow> string \<Rightarrow> nat list" where
  "utf8_points None [] = []"
| "utf8_points (Some p) [] = [replacement]"
| "utf8_points None (c # cs) =
    (case utf8_lead (code c) of Inl n \<Rightarrow> n # utf8_points None cs | Inr p \<Rightarrow> utf8_points (Some p) cs)"
| "utf8_points (Some (need, v, lo, hi)) (c # cs) =
    (if lo \<le> code c \<and> code c \<le> hi
     then (let w = v * 64 + (code c - 128)
           in if need = 1 then w # utf8_points None cs else utf8_points (Some (need - 1, w, 128, 191)) cs)
     else replacement #
       (case utf8_lead (code c) of Inl n \<Rightarrow> n # utf8_points None cs | Inr p \<Rightarrow> utf8_points (Some p) cs))"

definition wide_space :: "nat \<Rightarrow> bool" where
  "wide_space n = (n \<in> {5760, 8232, 8233, 8239, 8287, 12288, 65279} \<or> (8192 \<le> n \<and> n \<le> 8202))"

definition point_text :: "nat \<Rightarrow> string" where
  "point_text n =
    (if n < 256 then [char_of n]
     else if wide_space n then [CHR 0xA0]
     else if n < 65536 then [CHR 0x1A] else [CHR 0x1A, CHR 0x1A])"

definition utf8_text :: "string \<Rightarrow> string" where
  "utf8_text bytes = concat (map point_text (utf8_points None bytes))"

section \<open>Decoding in pieces\<close>

definition ascii :: "string \<Rightarrow> bool" where
  "ascii s = list_all (\<lambda>c. code c < 128) s"

lemma utf8_text_Nil [simp]: "utf8_text [] = []"
  by (simp add: utf8_text_def)

lemma utf8_text_Cons_ascii: "code c < 128 \<Longrightarrow> utf8_text (c # cs) = c # utf8_text cs"
  by (simp add: utf8_text_def utf8_lead_def point_text_def)

lemma utf8_text_ascii: "ascii s \<Longrightarrow> utf8_text s = s"
  by (induction s) (simp_all add: ascii_def utf8_text_Cons_ascii)

text \<open>A piece that does not begin inside a character\<close>

definition begins_character :: "string \<Rightarrow> bool" where
  "begins_character s = (s = [] \<or> \<not> (128 \<le> code (hd s) \<and> code (hd s) \<le> 191))"

definition pending_ok :: "utf8_pending option \<Rightarrow> bool" where
  "pending_ok st = (case st of None \<Rightarrow> True | Some (need, v, lo, hi) \<Rightarrow> 128 \<le> lo \<and> hi \<le> 191)"

lemma pending_lead: "utf8_lead b = Inr p \<Longrightarrow> pending_ok (Some p)"
  by (auto simp: utf8_lead_def pending_ok_def split: if_splits)

lemma utf8_points_append:
  "pending_ok st \<Longrightarrow> begins_character b \<Longrightarrow> utf8_points st (a @ b) = utf8_points st a @ utf8_points None b"
proof (induction st a rule: utf8_points.induct)
  case (2 p)
  obtain need v lo hi where p: "p = (need, v, lo, hi)" by (cases p)
  show ?case
  proof (cases b)
    case (Cons c cs)
    with "2.prems" have "\<not> (lo \<le> code c \<and> code c \<le> hi)"
      by (auto simp: p pending_ok_def begins_character_def)
    then show ?thesis by (simp add: p Cons del: de_Morgan_conj)
  qed simp
next
  case (3 c cs)
  then show ?case by (cases "utf8_lead (code c)") (simp_all add: pending_lead pending_ok_def[of None])
next
  case (4 need v lo hi c cs)
  have n: "pending_ok None" by (simp add: pending_ok_def)
  show ?case
  proof (cases "lo \<le> code c \<and> code c \<le> hi")
    case True
    let ?w = "v * 64 + (code c - 128)"
    have "pending_ok (Some (need - 1, ?w, 128, 191))" by (simp add: pending_ok_def)
    then show ?thesis using True "4.IH"(1,2)[OF True refl] "4.prems"(2) n by (simp add: Let_def)
  next
    case False
    then show ?thesis using "4.IH"(3,4)[OF False] "4.prems"(2) n
      by (cases "utf8_lead (code c)") (simp_all add: pending_lead del: de_Morgan_conj)
  qed
qed simp

lemma utf8_text_append: "begins_character b \<Longrightarrow> utf8_text (a @ b) = utf8_text a @ utf8_text b"
  by (simp add: utf8_text_def utf8_points_append pending_ok_def)

lemma begins_concat: "list_all begins_character cs \<Longrightarrow> begins_character (concat cs)"
  by (induction cs) (auto simp: begins_character_def hd_append)

lemma utf8_text_concat: "list_all begins_character cs \<Longrightarrow> utf8_text (concat cs) = concat (map utf8_text cs)"
  by (induction cs) (simp_all add: utf8_text_append begins_concat)

end
