(* ===== verification/Line_Reader.thy ===== *)
theory Line_Reader
  imports Hash_Util Js_Bytes
begin

text \<open>
  \<open>ReverseTunnelService.attachLineReader\<close>: cutting a byte stream into lines, whatever chunks it
  arrives in, until the handler detaches the reader. The locale states what a protocol handler
  has to satisfy for the chunking not to matter; the pool's frame handler is an instance.
\<close>

section \<open>The reader\<close>

fun cut_line :: "string \<Rightarrow> (string \<times> string) option" where
  "cut_line [] = None"
| "cut_line (c # cs) =
    (if c = newline then Some ([], cs) else map_option (\<lambda>(l, r). (c # l, r)) (cut_line cs))"

lemma cut_line_length: "cut_line buf = Some (l, r) \<Longrightarrow> length r < length buf"
  by (induction buf arbitrary: l r) (auto split: if_splits dest: less_SucI)

text \<open>Verb and arguments of a line, the bytes of which are decoded and trimmed.\<close>

definition frame_verb :: "string \<Rightarrow> string" where
  "frame_verb line = hd (split_on (CHR '' '') (js_trim (utf8_text line)))"

definition frame_args :: "string \<Rightarrow> string list" where
  "frame_args line = tl (split_on (CHR '' '') (js_trim (utf8_text line)))"

record 's reader =
  rd_buffer :: string
  rd_detached :: bool
  rd_state :: 's

text \<open>
  The handler gets verb, arguments and the bytes left in the buffer; it answers with its new
  state and whether it called \<open>detachReader\<close>.
\<close>

type_synonym 's frame_handler = "string \<Rightarrow> string list \<Rightarrow> string \<Rightarrow> 's \<Rightarrow> 's \<times> bool"

function read_lines :: "'s frame_handler \<Rightarrow> string \<Rightarrow> 's \<Rightarrow> 's reader" where
  "read_lines handle buf s =
    (case cut_line buf of
       None \<Rightarrow> \<lparr>rd_buffer = buf, rd_detached = False, rd_state = s\<rparr>
     | Some (line, rest) \<Rightarrow>
         (let (s', detached) = handle (frame_verb line) (frame_args line) rest s
          in if detached then \<lparr>rd_buffer = rest, rd_detached = True, rd_state = s'\<rparr>
             else read_lines handle rest s'))"
  by pat_completeness auto

termination
  by (relation "measure (\<lambda>(h, buf, s). length buf)") (auto dest: cut_line_length)

declare read_lines.simps [simp del]

text \<open>A data event. After the detach the listener is off and the bytes belong to the pipe.\<close>

definition on_data ::
  "'s frame_handler \<Rightarrow> (string \<Rightarrow> 's \<Rightarrow> 's) \<Rightarrow> string \<Rightarrow> 's reader \<Rightarrow> 's reader" where
  "on_data handle push chunk r =
    (if rd_detached r then r\<lparr>rd_state := push chunk (rd_state r)\<rparr>
     else read_lines handle (rd_buffer r @ chunk) (rd_state r))"

definition attach_line_reader :: "'s \<Rightarrow> 's reader" where
  "attach_line_reader s = \<lparr>rd_buffer = [], rd_detached = False, rd_state = s\<rparr>"

section \<open>The contract of a line protocol\<close>

text \<open>
  A frame that does not detach is handled whatever bytes follow it; one that detaches hands the
  bytes behind it on to the pipe, where \<open>push\<close> appends.
\<close>

locale line_protocol =
  fixes handle :: "'s frame_handler" and push :: "string \<Rightarrow> 's \<Rightarrow> 's"
  assumes handle_rest: "handle v a (r @ x) s =
      (if snd (handle v a r s) then (push x (fst (handle v a r s)), True) else handle v a r s)"
    and push_nil: "push [] s = s"
    and push_append: "push (x @ y) s = push y (push x s)"
begin

lemma cut_line_append: "cut_line buf = Some (l, r) \<Longrightarrow> cut_line (buf @ x) = Some (l, r @ x)"
  by (induction buf arbitrary: l r) (auto split: if_splits)

definition agrees :: "'s reader \<Rightarrow> 's reader \<Rightarrow> bool" where
  "agrees r q = (rd_state r = rd_state q \<and> rd_detached r = rd_detached q \<and>
     (\<not> rd_detached r \<longrightarrow> rd_buffer r = rd_buffer q))"

lemma agrees_refl: "agrees r r"
  by (simp add: agrees_def)

lemma agrees_trans: "agrees r q \<Longrightarrow> agrees q p \<Longrightarrow> agrees r p"
  by (auto simp: agrees_def)

lemma on_data_agrees: "agrees r q \<Longrightarrow> agrees (on_data handle push x r) (on_data handle push x q)"
  by (auto simp: agrees_def on_data_def)

lemma read_lines_append:
  "agrees (read_lines handle (buf @ x) s) (on_data handle push x (read_lines handle buf s))"
proof (induction buf arbitrary: s rule: measure_induct_rule[of length])
  case (less buf)
  show ?case
  proof (cases "cut_line buf")
    case None
    then have "read_lines handle buf s = \<lparr>rd_buffer = buf, rd_detached = False, rd_state = s\<rparr>"
      by (simp add: read_lines.simps)
    then show ?thesis by (simp add: on_data_def agrees_def)
  next
    case (Some lr)
    obtain line rest where lr: "lr = (line, rest)" by (cases lr)
    have cut: "cut_line buf = Some (line, rest)" "cut_line (buf @ x) = Some (line, rest @ x)"
      using Some lr by (simp_all add: cut_line_append)
    obtain s' d where h: "handle (frame_verb line) (frame_args line) rest s = (s', d)"
      by (cases "handle (frame_verb line) (frame_args line) rest s")
    have hx: "handle (frame_verb line) (frame_args line) (rest @ x) s =
        (if d then (push x s', True) else (s', d))"
      by (simp add: handle_rest h)
    show ?thesis
    proof (cases d)
      case True
      then have "read_lines handle buf s = \<lparr>rd_buffer = rest, rd_detached = True, rd_state = s'\<rparr>"
        "read_lines handle (buf @ x) s = \<lparr>rd_buffer = rest @ x, rd_detached = True, rd_state = push x s'\<rparr>"
        using cut h hx by (simp_all add: read_lines.simps)
      then show ?thesis by (simp add: on_data_def agrees_def)
    next
      case False
      then have "read_lines handle buf s = read_lines handle rest s'"
        "read_lines handle (buf @ x) s = read_lines handle (rest @ x) s'"
        using cut h hx by (subst read_lines.simps, simp)+
      with less[OF cut_line_length[OF cut(1)]] show ?thesis by simp
    qed
  qed
qed

lemma on_data_append:
  "agrees (on_data handle push (x @ y) r) (on_data handle push y (on_data handle push x r))"
proof (cases "rd_detached r")
  case True
  then show ?thesis by (simp add: on_data_def push_append agrees_def)
next
  case False
  then show ?thesis using read_lines_append[of "rd_buffer r @ x" y "rd_state r"] by (simp add: on_data_def)
qed

lemma on_data_nil:
  assumes "\<not> rd_detached r \<longrightarrow> cut_line (rd_buffer r) = None"
  shows "agrees (on_data handle push [] r) r"
  using assms by (simp add: on_data_def push_nil agrees_def read_lines.simps)

text \<open>Any chunking of a byte sequence leads to the same place.\<close>

lemma on_data_chunks:
  "chunks \<noteq> [] \<Longrightarrow> agrees (foldl (\<lambda>r c. on_data handle push c r) r chunks) (on_data handle push (concat chunks) r)"
proof (induction chunks arbitrary: r rule: list_nonempty_induct)
  case (single c)
  then show ?case by (simp add: agrees_refl)
next
  case (cons c cs)
  have "agrees (foldl (\<lambda>r c. on_data handle push c r) r (c # cs))
      (on_data handle push (concat cs) (on_data handle push c r))"
    using cons.IH by simp
  moreover have "agrees (on_data handle push (concat cs) (on_data handle push c r))
      (on_data handle push (c @ concat cs) r)"
    using on_data_append[of c "concat cs" r] by (auto simp: agrees_def)
  ultimately show ?case using agrees_trans by simp
qed

lemma chunking_irrelevant:
  assumes "concat cs = concat ds" "cs \<noteq> []" "ds \<noteq> []"
  shows "agrees (foldl (\<lambda>r c. on_data handle push c r) r cs) (foldl (\<lambda>r c. on_data handle push c r) r ds)"
  using on_data_chunks[OF assms(2), of r] on_data_chunks[OF assms(3), of r] assms(1)
  by (auto simp: agrees_def)

end

section \<open>What the reader leaves in the buffer\<close>

lemma read_lines_buffer:
  "\<not> rd_detached (read_lines handle buf s) \<Longrightarrow> newline \<notin> set (rd_buffer (read_lines handle buf s))"
proof (induction buf arbitrary: s rule: measure_induct_rule[of length])
  case (less buf)
  have none: "cut_line b = None \<Longrightarrow> newline \<notin> set b" for b
    by (induction b) (auto split: if_splits)
  show ?case
  proof (cases "cut_line buf")
    case None
    with none show ?thesis by (simp add: read_lines.simps)
  next
    case (Some lr)
    then obtain line rest where cut: "cut_line buf = Some (line, rest)" by (cases lr) simp
    obtain s' d where h: "handle (frame_verb line) (frame_args line) rest s = (s', d)"
      by (cases "handle (frame_verb line) (frame_args line) rest s")
    have eq: "read_lines handle buf s =
        (if d then \<lparr>rd_buffer = rest, rd_detached = True, rd_state = s'\<rparr> else read_lines handle rest s')"
      using cut h by (subst read_lines.simps) simp
    show ?thesis using less.prems less.IH[OF cut_line_length[OF cut]] unfolding eq by (cases d) simp_all
  qed
qed

section \<open>Invariants of a reader's state\<close>

lemma cut_line_split: "cut_line buf = Some (l, r) \<Longrightarrow> split_on newline buf = l # split_on newline r"
proof (induction buf arbitrary: l r)
  case (Cons c cs)
  show ?case
  proof (cases "c = newline")
    case False
    with Cons.prems obtain l' where "cut_line cs = Some (l', r)" "l = c # l'" by auto
    with Cons.IH[OF this(1)] False show ?thesis by simp
  qed (use Cons.prems in simp)
qed simp

lemma read_lines_preserves:
  assumes "\<And>line r s t d. line \<in> set (split_on newline buf) \<Longrightarrow> Q s \<Longrightarrow>
      handle (frame_verb line) (frame_args line) r s = (t, d) \<Longrightarrow> Q t"
  shows "Q s \<Longrightarrow> Q (rd_state (read_lines handle buf s))"
  using assms
proof (induction buf arbitrary: s rule: measure_induct_rule[of length])
  case (less buf)
  show ?case
  proof (cases "cut_line buf")
    case None
    with less.prems(1) show ?thesis by (simp add: read_lines.simps)
  next
    case (Some lr)
    then obtain line rest where cut: "cut_line buf = Some (line, rest)" by (cases lr) simp
    obtain t d where h: "handle (frame_verb line) (frame_args line) rest s = (t, d)"
      by (cases "handle (frame_verb line) (frame_args line) rest s")
    have eq: "read_lines handle buf s =
        (if d then \<lparr>rd_buffer = rest, rd_detached = True, rd_state = t\<rparr> else read_lines handle rest t)"
      using cut h by (subst read_lines.simps) simp
    have t: "Q t" using less.prems(2)[of line s rest t d] less.prems(1) h cut_line_split[OF cut] by simp
    show ?thesis
    proof (cases d)
      case True
      with t eq show ?thesis by simp
    next
      case False
      have more: "Q t'" if "l \<in> set (split_on newline rest)" "Q s'"
          "handle (frame_verb l) (frame_args l) r s' = (t', d')" for l r s' t' d'
      proof (rule less.prems(2)[OF _ that(2,3)])
        show "l \<in> set (split_on newline buf)" using that(1) unfolding cut_line_split[OF cut] by simp
      qed
      have "Q (rd_state (read_lines handle rest t))"
        by (rule less.IH[OF cut_line_length[OF cut] t more])
      with False eq show ?thesis by simp
    qed
  qed
qed

end
