(* ===== verification/Js_Double.thy ===== *)
theory Js_Double
  imports Complex_Main "HOL-Library.Log_Nat"
begin

text \<open>
  Rounding to doubles, for the one quotient whose rounding decides what is sent: the nearest number
  with 53 significant bits, on a tie the one with an even significand. Values stay within the range of
  normal doubles, so the exponent is not bounded here.
\<close>

definition round_even :: "rat \<Rightarrow> int" where
  "round_even x =
    (let f = \<lfloor>x\<rfloor>; d = x - of_int f in if d < 1 / 2 \<or> (d = 1 / 2 \<and> even f) then f else f + 1)"

definition two_powi :: "int \<Rightarrow> rat" where
  "two_powi e = (if 0 \<le> e then 2 ^ nat e else 1 / 2 ^ nat (- e))"

text \<open>The exponent \<open>e\<close> with \<open>2 ^ e \<le> x < 2 ^ (e + 1)\<close>, from the lengths of numerator and denominator\<close>

definition binade :: "rat \<Rightarrow> int" where
  "binade x =
    (let (a, b) = quotient_of x; k = int (floorlog 2 (nat a)) - int (floorlog 2 (nat b))
     in if two_powi k \<le> x then k else k - 1)"

definition to_double :: "rat \<Rightarrow> rat" where
  "to_double x =
    (if x = 0 then 0
     else let u = two_powi (binade \<bar>x\<bar> - 52) in of_int (round_even (x / u)) * u)"

text \<open>\<open>Math.round\<close>\<close>

definition js_round :: "rat \<Rightarrow> int" where
  "js_round x = \<lfloor>x + 1 / 2\<rfloor>"

section \<open>How far rounding moves a number\<close>

lemma round_even_error: "\<bar>of_int (round_even x) - x\<bar> \<le> 1 / 2"
proof -
  have "of_int \<lfloor>x\<rfloor> \<le> x" "x < of_int \<lfloor>x\<rfloor> + 1" by linarith+
  then show ?thesis unfolding round_even_def Let_def abs_le_iff by (auto split: if_split) linarith+
qed

lemma two_powi_powi: "two_powi e = 2 powi e"
  by (simp add: two_powi_def power_int_def field_simps)

lemma two_powi_pos: "0 < two_powi e"
  by (simp add: two_powi_powi)

lemma binade_le: "0 < x \<Longrightarrow> two_powi (binade x) \<le> x"
proof -
  assume x: "0 < x"
  obtain a b where q: "quotient_of x = (a, b)" by (cases "quotient_of x")
  have b: "0 < b" using quotient_of_denom_pos[OF q] .
  have eq: "x = of_int a / of_int b" using quotient_of_div[OF q] .
  with x b have a: "0 < a" by (simp add: zero_less_divide_iff)
  let ?p = "floorlog 2 (nat a)" and ?q = "floorlog 2 (nat b)"
  have pa: "2 ^ (?p - 1) \<le> nat a" and pb: "nat b < 2 ^ ?q"
    using floorlog_bounds[of "nat a" 2] floorlog_bounds[of "nat b" 2] a b by auto
  have p: "0 < ?p" using a by (simp add: floorlog_def)
  have la: "(2 :: rat) powi (int ?p - 1) \<le> of_int a"
  proof -
    have "(2 :: rat) powi (int ?p - 1) = of_nat (2 ^ (?p - 1))" using p by (simp add: power_int_def nat_diff_distrib')
    also have "\<dots> \<le> of_nat (nat a)" using pa by (simp only: of_nat_le_iff)
    finally show ?thesis using a by simp
  qed
  have lb: "of_int b \<le> (2 :: rat) powi int ?q"
  proof -
    have "(of_nat (nat b) :: rat) \<le> of_nat (2 ^ ?q)" using pb by (simp only: of_nat_le_iff less_imp_le)
    then show ?thesis using b by (simp add: power_int_def)
  qed
  have "(2 :: rat) powi (int ?p - int ?q - 1) = 2 powi (int ?p - 1) / 2 powi int ?q"
    by (simp add: power_int_diff power_int_add field_simps)
  also have "\<dots> \<le> of_int a / of_int b" using la lb a b by (intro frac_le) simp_all
  finally have "two_powi (int ?p - int ?q - 1) \<le> x" by (simp add: two_powi_powi eq)
  then show ?thesis by (simp add: binade_def q Let_def)
qed

lemma to_double_error: "\<bar>to_double x - x\<bar> \<le> \<bar>x\<bar> / 2 ^ 53"
proof (cases "x = 0")
  case False
  define u where "u = two_powi (binade \<bar>x\<bar> - 52)"
  have u: "0 < u" by (simp add: u_def two_powi_pos)
  have "u = two_powi (binade \<bar>x\<bar>) / 2 ^ 52" by (simp add: u_def two_powi_powi power_int_diff)
  with binade_le[of "\<bar>x\<bar>"] False have le: "u \<le> \<bar>x\<bar> / 2 ^ 52" by (simp add: divide_right_mono)
  have "to_double x - x = (of_int (round_even (x / u)) - x / u) * u"
    using False u by (simp add: to_double_def u_def[symmetric] Let_def left_diff_distrib)
  then have "\<bar>to_double x - x\<bar> \<le> 1 / 2 * u"
    using round_even_error[of "x / u"] u by (simp add: abs_mult)
  with le show ?thesis by simp
qed (simp add: to_double_def)

lemma to_double_small: "to_double 1 = 1" "to_double 100 = 100" "js_round 100 = 100"
  by code_simp+

end
