(* ===== verification/Tunnel_Pool.thy ===== *)
theory Tunnel_Pool
  imports Line_Reader Js_Double
begin

text \<open>
  \<open>src/tunnel/reverse-tunnel.service.ts\<close>: the pool of preconnected sockets and its grouped
  error log. A connection is identified by its position in \<open>conns\<close>; each timer is a flag that
  says whether it is armed. One event of the socket, a timer or the Hub is one step.
\<close>

section \<open>The grouped error log\<close>

datatype log_print =
    PrintFirst string string
  | PrintSummary "(string \<times> nat \<times> string) list"

record error_log =
  el_counts :: "(string, nat \<times> string) jsmap"
  el_window :: bool
  el_prints :: "log_print list"

definition new_error_log :: error_log where
  "new_error_log = \<lparr>el_counts = [], el_window = False, el_prints = []\<rparr>"

definition record_error :: "string \<Rightarrow> string \<Rightarrow> error_log \<Rightarrow> error_log" where
  "record_error kind detail l =
    (if \<not> el_window l
     then l\<lparr>el_prints := el_prints l @ [PrintFirst kind detail], el_window := True\<rparr>
     else case jm_get (el_counts l) kind of
         Some (n, d) \<Rightarrow> l\<lparr>el_counts := jm_set kind (Suc n, detail) (el_counts l)\<rparr>
       | None \<Rightarrow> l\<lparr>el_counts := jm_set kind (1, detail) (el_counts l)\<rparr>)"

definition flush_errors :: "error_log \<Rightarrow> error_log" where
  "flush_errors l =
    (if el_counts l = [] then l\<lparr>el_window := False\<rparr>
     else l\<lparr>el_prints := el_prints l @ [PrintSummary (el_counts l)], el_counts := [], el_window := True\<rparr>)"

section \<open>State\<close>

record pipe =
  pipe_port :: int
  pipe_bytes :: string

record conn =
  connect_timer :: bool
  connected :: bool
  settled :: bool
  ack_timer :: bool
  heartbeats :: nat
  heartbeat_ref :: bool
  pong_ref :: bool
  pong_timer :: bool
  unhealthy :: bool
  destroyed :: bool
  sock_closed :: bool
  buffer :: string
  detached :: bool
  local_pipe :: "pipe option"

datatype pool_effect =
    Wrote nat string
  | Uncaught nat
  | Halted string

record pool_state =
  pool :: "nat list"
  pending :: int
  refill_timer :: "rat option"
  consecutive_failures :: nat
  suspended :: bool
  agent_uuid :: "string option"
  has_secret_reader :: bool
  conns :: "conn list"
  elog :: error_log
  effects :: "pool_effect list"

definition target_pool_count :: int where "target_pool_count = 10"

definition fatal_rejections :: "string list" where
  "fatal_rejections = [''invalid_signature'', ''expired'', ''no_secret'']"

definition pool_start :: pool_state where
  "pool_start = \<lparr>pool = [], pending = 0, refill_timer = None, consecutive_failures = 0,
     suspended = False, agent_uuid = None, has_secret_reader = False, conns = [],
     elog = new_error_log, effects = []\<rparr>"

definition new_conn :: conn where
  "new_conn = \<lparr>connect_timer = True, connected = False, settled = False, ack_timer = False,
     heartbeats = 0, heartbeat_ref = False, pong_ref = False, pong_timer = False,
     unhealthy = False, destroyed = False, sock_closed = False, buffer = [], detached = False,
     local_pipe = None\<rparr>"

definition upd_conn :: "nat \<Rightarrow> (conn \<Rightarrow> conn) \<Rightarrow> pool_state \<Rightarrow> pool_state" where
  "upd_conn i f s = s\<lparr>conns := (conns s)[i := f (conns s ! i)]\<rparr>"

lemma upd_conn_fields [simp]:
  "pool (upd_conn i f s) = pool s" "pending (upd_conn i f s) = pending s"
  "suspended (upd_conn i f s) = suspended s" "refill_timer (upd_conn i f s) = refill_timer s"
  "elog (upd_conn i f s) = elog s" "effects (upd_conn i f s) = effects s"
  "agent_uuid (upd_conn i f s) = agent_uuid s" "length (conns (upd_conn i f s)) = length (conns s)"
  "consecutive_failures (upd_conn i f s) = consecutive_failures s"
  "has_secret_reader (upd_conn i f s) = has_secret_reader s"
  by (simp_all add: upd_conn_def)

lemma nth_upd_conn:
  "conns (upd_conn i f s) ! j = (if j = i \<and> i < length (conns s) then f (conns s ! i) else conns s ! j)"
  by (cases "i < length (conns s)") (auto simp: upd_conn_def list_update_beyond)

lemma upd_conn_nth [simp]: "i < length (conns s) \<Longrightarrow> conns (upd_conn i f s) ! i = f (conns s ! i)"
  by (simp add: nth_upd_conn)

abbreviation log_error :: "string \<Rightarrow> string \<Rightarrow> pool_state \<Rightarrow> pool_state" where
  "log_error kind detail s \<equiv> s\<lparr>elog := record_error kind detail (elog s)\<rparr>"

section \<open>Filling the pool\<close>

definition preconnect :: "pool_state \<Rightarrow> pool_state" where
  "preconnect s = s\<lparr>pending := pending s + 1, conns := conns s @ [new_conn]\<rparr>"

function fill_to :: "int \<Rightarrow> pool_state \<Rightarrow> pool_state" where
  "fill_to limit s =
    (if int (length (pool s)) + pending s < limit then fill_to limit (preconnect s) else s)"
  by pat_completeness auto

termination
  by (relation "measure (\<lambda>(limit, s). nat (limit - (int (length (pool s)) + pending s)))")
     (auto simp: preconnect_def)

declare fill_to.simps [simp del]

definition form_preconnect_pool :: "pool_state \<Rightarrow> pool_state" where
  "form_preconnect_pool s =
    (if suspended s then s
     else fill_to (if length (pool s) = 0 then 1 else target_pool_count) s)"

definition init_preconnect_pool :: "string option \<Rightarrow> string option \<Rightarrow> pool_state \<Rightarrow> pool_state" where
  "init_preconnect_pool uuid secret s =
    (let has_uuid = (uuid \<noteq> None \<and> uuid \<noteq> Some []);
         s1 = (if has_uuid then s\<lparr>agent_uuid := uuid\<rparr> else s);
         s2 = (if secret \<noteq> None then s1\<lparr>has_secret_reader := True\<rparr> else s1)
     in if \<not> has_uuid \<or> secret = None then s2
        else form_preconnect_pool
          (s2\<lparr>suspended := False, consecutive_failures := 0, refill_timer := None\<rparr>))"

text \<open>\<open>rand\<close> is the draw of \<open>Math.random()\<close>.\<close>

definition backoff_ms :: "nat \<Rightarrow> nat" where
  "backoff_ms failures = min (500 * 2 ^ (failures - 1)) 30000"

definition schedule_refill :: "rat \<Rightarrow> pool_state \<Rightarrow> pool_state" where
  "schedule_refill rand s =
    (if suspended s \<or> refill_timer s \<noteq> None then s
     else
       let n = consecutive_failures s + 1;
           b = of_nat (backoff_ms n);
           delay = b + rand * b * (3 / 10);
           detail = ''attempt '' @ show_nat n @ '', in '' @ show_int (js_round delay) @
             ''ms, pooled '' @ show_nat (length (pool s)) @ ''/10''
       in log_error ''PRECONN:RETRY_SCHEDULED'' detail
            (s\<lparr>consecutive_failures := n, refill_timer := Some delay\<rparr>))"

section \<open>One connection\<close>

definition settle :: "nat \<Rightarrow> pool_state \<Rightarrow> pool_state" where
  "settle i s =
    (if settled (conns s ! i) then s
     else (upd_conn i (\<lambda>c. c\<lparr>settled := True\<rparr>) s)\<lparr>pending := pending s - 1\<rparr>)"

definition clear_ack :: "nat \<Rightarrow> pool_state \<Rightarrow> pool_state" where
  "clear_ack i s = upd_conn i (\<lambda>c. c\<lparr>ack_timer := False\<rparr>) s"

definition destroy :: "nat \<Rightarrow> pool_state \<Rightarrow> pool_state" where
  "destroy i s = upd_conn i (\<lambda>c. c\<lparr>destroyed := True\<rparr>) s"

definition start_heartbeat :: "nat \<Rightarrow> pool_state \<Rightarrow> pool_state" where
  "start_heartbeat i s = upd_conn i (\<lambda>c. c\<lparr>heartbeats := heartbeats c + 1, heartbeat_ref := True\<rparr>) s"

text \<open>\<open>clearInterval\<close> stops the interval the connection refers to, and no other.\<close>

definition stop_heartbeat :: "nat \<Rightarrow> pool_state \<Rightarrow> pool_state" where
  "stop_heartbeat i s =
    upd_conn i (\<lambda>c. c\<lparr>heartbeats := (if heartbeat_ref c then heartbeats c - 1 else heartbeats c),
      heartbeat_ref := False, pong_ref := False, pong_timer := False\<rparr>) s"

definition pre_line :: "string option \<Rightarrow> jsnum \<Rightarrow> string \<Rightarrow> string \<Rightarrow> string" where
  "pre_line uuid ts nonce sig =
    js_join '' '' [''tunnel:pre:v1'', (case uuid of None \<Rightarrow> ''undefined'' | Some u \<Rightarrow> u),
      num_to_string ts, nonce, sig] @ [newline]"

text \<open>A missing secret makes the HMAC call throw out of the callback, before the ack timer is set.\<close>

definition on_connect ::
  "mac_fun \<Rightarrow> nat \<Rightarrow> jsnum \<Rightarrow> string \<Rightarrow> string option \<Rightarrow> pool_state \<Rightarrow> pool_state" where
  "on_connect mac i ts nonce secret s =
    (let s1 = upd_conn i (\<lambda>c. c\<lparr>connect_timer := False, connected := True\<rparr>) s;
         payload = JObj 0 [(''agentUuid'', case agent_uuid s of None \<Rightarrow> JUndef | Some u \<Rightarrow> JStr u)]
     in case secret of
          None \<Rightarrow> s1\<lparr>effects := effects s1 @ [Uncaught i]\<rparr>
        | Some k \<Rightarrow>
            (case digest mac ''tunnel:pre'' ts nonce payload k of
               Inl e \<Rightarrow> s1\<lparr>effects := effects s1 @ [Uncaught i]\<rparr>
             | Inr sig \<Rightarrow>
                 upd_conn i (\<lambda>c. c\<lparr>ack_timer := True\<rparr>)
                   (s1\<lparr>effects := effects s1 @ [Wrote i (pre_line (agent_uuid s) ts nonce sig)]\<rparr>)))"

definition on_connect_timeout :: "nat \<Rightarrow> pool_state \<Rightarrow> pool_state" where
  "on_connect_timeout i s =
    destroy i (log_error ''PRECONN:CONNECT_TIMEOUT'' ''no handshake within 10000ms''
      (upd_conn i (\<lambda>c. c\<lparr>connect_timer := False, unhealthy := True\<rparr>) s))"

definition on_ack_timeout :: "nat \<Rightarrow> pool_state \<Rightarrow> pool_state" where
  "on_ack_timeout i s =
    destroy i (log_error ''PRECONN:ACK_TIMEOUT'' ''connected but the PRE line went unanswered''
      (clear_ack i s))"

text \<open>
  The port of an \<open>OPEN\<close> frame is \<open>Number(args[0])\<close>. \<open>pipe_bytes\<close> is what the local service is
  sent once it is connected: the bytes behind the frame, then what the socket still reads.
\<close>

definition target_port :: "string list \<Rightarrow> jsnum" where
  "target_port args = (case args of [] \<Rightarrow> NNaN | a # _ \<Rightarrow> string_to_num a)"

definition valid_port :: "jsnum \<Rightarrow> int option" where
  "valid_port x =
    (case num_int x of
       None \<Rightarrow> None
     | Some p \<Rightarrow> if p \<le> 0 \<or> p > 65535 then None else Some p)"

definition pipe_to_local_service :: "nat \<Rightarrow> jsnum \<Rightarrow> string \<Rightarrow> pool_state \<Rightarrow> pool_state" where
  "pipe_to_local_service i port rest s =
    (case valid_port port of
       None \<Rightarrow> upd_conn i (\<lambda>c. c\<lparr>destroyed := True, local_pipe := None\<rparr>)
         (log_error ''PRECONN:BAD_TARGET_PORT'' (''port: '' @ num_to_string port) s)
     | Some p \<Rightarrow> upd_conn i (\<lambda>c. c\<lparr>local_pipe := Some \<lparr>pipe_port = p, pipe_bytes = rest\<rparr>\<rparr>) s)"

definition on_pre_ok :: "nat \<Rightarrow> pool_state \<Rightarrow> pool_state" where
  "on_pre_ok i s =
    (let s1 = settle i (clear_ack i s);
         s2 = start_heartbeat i (s1\<lparr>pool := js_add i (pool s1)\<rparr>);
         s3 = form_preconnect_pool s2
     in if int (length (pool s3)) \<ge> target_pool_count then s3\<lparr>consecutive_failures := 0\<rparr> else s3)"

definition pre_reason :: "string list \<Rightarrow> string" where
  "pre_reason args = (case args of [] \<Rightarrow> ''unknown'' | a # _ \<Rightarrow> a)"

definition on_pre_err :: "nat \<Rightarrow> string list \<Rightarrow> pool_state \<Rightarrow> pool_state" where
  "on_pre_err i args s =
    (let s1 = clear_ack i s;
         reason = pre_reason args;
         s2 = (if reason \<in> set fatal_rejections
               then s1\<lparr>suspended := True, refill_timer := None, effects := effects s1 @ [Halted reason]\<rparr>
               else log_error ''PRECONN:REJECTED'' (''reason: '' @ reason) s1)
     in destroy i (settle i s2))"

definition on_open :: "nat \<Rightarrow> string list \<Rightarrow> string \<Rightarrow> pool_state \<Rightarrow> pool_state" where
  "on_open i args rest s =
    (let s1 = stop_heartbeat i s;
         s2 = s1\<lparr>pool := remove1 i (pool s1)\<rparr>
     in pipe_to_local_service i (target_port args) rest (form_preconnect_pool s2))"

definition on_frame :: "nat \<Rightarrow> pool_state frame_handler" where
  "on_frame i verb args rest s =
    (if verb = ''PRE:OK'' then (on_pre_ok i s, False)
     else if verb = ''PRE:ERR'' then (on_pre_err i args s, False)
     else if verb = ''PONG'' then (upd_conn i (\<lambda>c. c\<lparr>pong_ref := False, pong_timer := False\<rparr>) s, False)
     else if verb = ''OPEN'' then (on_open i args rest s, True)
     else (log_error ''PRECONN:UNKNOWN_FRAME'' (''verb: '' @ verb) s, False))"

definition push_pipe :: "nat \<Rightarrow> string \<Rightarrow> pool_state \<Rightarrow> pool_state" where
  "push_pipe i x s =
    upd_conn i (\<lambda>c. c\<lparr>local_pipe := map_option (\<lambda>p. p\<lparr>pipe_bytes := pipe_bytes p @ x\<rparr>) (local_pipe c)\<rparr>) s"

text \<open>The reader takes buffer and detach flag out of the connection and puts them back at the end.\<close>

definition take_reader :: "nat \<Rightarrow> pool_state \<Rightarrow> pool_state" where
  "take_reader i s = upd_conn i (\<lambda>c. c\<lparr>buffer := [], detached := False\<rparr>) s"

definition conn_reader :: "nat \<Rightarrow> pool_state \<Rightarrow> pool_state reader" where
  "conn_reader i s =
    \<lparr>rd_buffer = buffer (conns s ! i), rd_detached = detached (conns s ! i), rd_state = take_reader i s\<rparr>"

definition store_reader :: "nat \<Rightarrow> pool_state reader \<Rightarrow> pool_state" where
  "store_reader i r =
    upd_conn i (\<lambda>c. c\<lparr>buffer := rd_buffer r, detached := rd_detached r\<rparr>) (rd_state r)"

definition on_chunk :: "nat \<Rightarrow> string \<Rightarrow> pool_state \<Rightarrow> pool_state" where
  "on_chunk i chunk s = store_reader i (on_data (on_frame i) (push_pipe i) chunk (conn_reader i s))"

definition on_error :: "nat \<Rightarrow> string \<Rightarrow> pool_state \<Rightarrow> pool_state" where
  "on_error i message s =
    (let s1 = log_error ''PRECONN:SOCKET_ERROR'' message
           (upd_conn i (\<lambda>c. c\<lparr>unhealthy := True, destroyed := True\<rparr>) s)
     in if local_pipe (conns s ! i) = None then s1
        else log_error ''PRECONN:TUNNEL_PIPE_ERROR'' message s1)"

definition on_close :: "nat \<Rightarrow> rat \<Rightarrow> pool_state \<Rightarrow> pool_state" where
  "on_close i rand s =
    (let s1 = stop_heartbeat i
           (upd_conn i (\<lambda>c. c\<lparr>connect_timer := False, ack_timer := False, destroyed := True, sock_closed := True\<rparr>) s);
         was_pooled = (i \<in> set (pool s1));
         s2 = s1\<lparr>pool := remove1 i (pool s1)\<rparr>
     in if \<not> settled (conns s2 ! i) then schedule_refill rand (settle i s2)
        else if \<not> was_pooled then s2
        else if unhealthy (conns s2 ! i) then schedule_refill rand s2
        else form_preconnect_pool s2)"

definition on_heartbeat :: "nat \<Rightarrow> pool_state \<Rightarrow> pool_state" where
  "on_heartbeat i s =
    (if pong_ref (conns s ! i) then s
     else (upd_conn i (\<lambda>c. c\<lparr>pong_ref := True, pong_timer := True\<rparr>) s)
       \<lparr>effects := effects s @ [Wrote i (''PING'' @ [newline])]\<rparr>)"

text \<open>The handle of a fired pong timer stays set until a PONG or the close resets it.\<close>

definition on_pong_timeout :: "nat \<Rightarrow> pool_state \<Rightarrow> pool_state" where
  "on_pong_timeout i s =
    destroy i (log_error ''PRECONN:PONG_TIMEOUT'' ''socket open but the server stopped answering''
      (upd_conn i (\<lambda>c. c\<lparr>pong_timer := False, unhealthy := True\<rparr>) s))"

section \<open>Steps\<close>

datatype pool_event =
    Init "string option" "string option"
  | Connect nat jsnum string "string option"
  | ConnectTimeout nat
  | AckTimeout nat
  | Data nat string
  | SockError nat string
  | Close nat rat
  | Heartbeat nat
  | PongTimeout nat
  | RefillFires
  | LogWindow

fun pool_step :: "mac_fun \<Rightarrow> pool_event \<Rightarrow> pool_state \<Rightarrow> pool_state" where
  "pool_step mac (Init uuid secret) s = init_preconnect_pool uuid secret s"
| "pool_step mac (Connect i ts nonce secret) s = on_connect mac i ts nonce secret s"
| "pool_step mac (ConnectTimeout i) s = on_connect_timeout i s"
| "pool_step mac (AckTimeout i) s = on_ack_timeout i s"
| "pool_step mac (Data i chunk) s = on_chunk i chunk s"
| "pool_step mac (SockError i message) s = on_error i message s"
| "pool_step mac (Close i rand) s = on_close i rand s"
| "pool_step mac (Heartbeat i) s = on_heartbeat i s"
| "pool_step mac (PongTimeout i) s = on_pong_timeout i s"
| "pool_step mac RefillFires s = form_preconnect_pool (s\<lparr>refill_timer := None\<rparr>)"
| "pool_step mac LogWindow s = s\<lparr>elog := flush_errors (elog s)\<rparr>"

text \<open>
  When an event can happen: a timer only while armed, a socket event only while the socket is
  neither destroyed nor closed, except that every socket closes once. A tunnelled socket keeps
  delivering data.
\<close>

definition open_sock :: "conn \<Rightarrow> bool" where
  "open_sock c = (\<not> destroyed c \<and> \<not> sock_closed c)"

fun enabled :: "pool_event \<Rightarrow> pool_state \<Rightarrow> bool" where
  "enabled (Init uuid secret) s = True"
| "enabled (Connect i ts nonce secret) s =
    (i < length (conns s) \<and> \<not> connected (conns s ! i) \<and> open_sock (conns s ! i))"
| "enabled (ConnectTimeout i) s = (i < length (conns s) \<and> connect_timer (conns s ! i))"
| "enabled (AckTimeout i) s = (i < length (conns s) \<and> ack_timer (conns s ! i))"
| "enabled (Data i chunk) s =
    (i < length (conns s) \<and> connected (conns s ! i) \<and> open_sock (conns s ! i))"
| "enabled (SockError i message) s = (i < length (conns s) \<and> open_sock (conns s ! i))"
| "enabled (Close i rand) s =
    (i < length (conns s) \<and> \<not> sock_closed (conns s ! i) \<and> 0 \<le> rand \<and> rand < 1)"
| "enabled (Heartbeat i) s = (i < length (conns s) \<and> 0 < heartbeats (conns s ! i))"
| "enabled (PongTimeout i) s = (i < length (conns s) \<and> pong_timer (conns s ! i))"
| "enabled RefillFires s = (refill_timer s \<noteq> None)"
| "enabled LogWindow s = el_window (elog s)"

inductive pool_trans :: "mac_fun \<Rightarrow> pool_state \<Rightarrow> pool_event \<Rightarrow> pool_state \<Rightarrow> bool" for mac where
  pool_trans_step: "enabled e s \<Longrightarrow> pool_trans mac s e (pool_step mac e s)"

inductive_cases pool_transE: "pool_trans mac s e t"
inductive_simps pool_trans_iff: "pool_trans mac s e t"

abbreviation pool_reach :: "mac_fun \<Rightarrow> pool_state \<Rightarrow> bool" where
  "pool_reach mac \<equiv> reach (\<lambda>s. s = pool_start) (pool_trans mac)"

text \<open>Running a list of events, stopping with \<open>None\<close> at one that is not enabled.\<close>

fun pool_run :: "mac_fun \<Rightarrow> pool_event list \<Rightarrow> pool_state \<Rightarrow> pool_state option" where
  "pool_run mac [] s = Some s"
| "pool_run mac (e # es) s = (if enabled e s then pool_run mac es (pool_step mac e s) else None)"

end
