(* ===== verification/Tunnel_Pool_Inv.thy ===== *)
theory Tunnel_Pool_Inv
  imports Tunnel_Pool
begin

text \<open>
  Invariants of the tunnel pool: the pending counter counts the unsettled connections, pool and
  pending connections never exceed the target, a suspended pool schedules and dials nothing,
  and, as long as the server sends no passing rejection, a deficit always has a refill coming.
\<close>

section \<open>Filling in closed form\<close>

definition shortage :: "int \<Rightarrow> pool_state \<Rightarrow> nat" where
  "shortage limit s = nat (limit - (int (length (pool s)) + pending s))"

lemma fill_to_closed:
  "fill_to limit s = s\<lparr>pending := pending s + int (shortage limit s),
     conns := conns s @ replicate (shortage limit s) new_conn\<rparr>"
proof (induction limit s rule: fill_to.induct)
  case (1 limit s)
  show ?case
  proof (cases "int (length (pool s)) + pending s < limit")
    case False
    then have "shortage limit s = 0" by (simp add: shortage_def)
    with False show ?thesis by (subst fill_to.simps) simp
  next
    case True
    then have n: "shortage limit s = Suc (shortage limit (preconnect s))"
      by (simp add: shortage_def preconnect_def)
    have "fill_to limit s = fill_to limit (preconnect s)" using True by (subst fill_to.simps) simp
    also have "\<dots> = s\<lparr>pending := pending s + int (shortage limit s),
        conns := conns s @ replicate (shortage limit s) new_conn\<rparr>"
      unfolding 1[OF True] n
      by (simp add: preconnect_def)
    finally show ?thesis .
  qed
qed

definition quota :: "pool_state \<Rightarrow> int" where
  "quota s = (if length (pool s) = 0 then 1 else target_pool_count)"

definition occupied :: "pool_state \<Rightarrow> int" where
  "occupied s = int (length (pool s)) + pending s"

definition grown :: "pool_state \<Rightarrow> nat" where
  "grown s = (if suspended s then 0 else nat (quota s - occupied s))"

lemma form_closed:
  "form_preconnect_pool s = s\<lparr>pending := pending s + int (grown s),
     conns := conns s @ replicate (grown s) new_conn\<rparr>"
  by (simp add: form_preconnect_pool_def fill_to_closed grown_def shortage_def quota_def occupied_def)

lemma form_fields [simp]:
  "pool (form_preconnect_pool s) = pool s" "suspended (form_preconnect_pool s) = suspended s"
  "refill_timer (form_preconnect_pool s) = refill_timer s" "elog (form_preconnect_pool s) = elog s"
  "agent_uuid (form_preconnect_pool s) = agent_uuid s" "effects (form_preconnect_pool s) = effects s"
  "consecutive_failures (form_preconnect_pool s) = consecutive_failures s"
  "has_secret_reader (form_preconnect_pool s) = has_secret_reader s"
  by (simp_all add: form_closed)

lemma occupied_form: "occupied (form_preconnect_pool s) = (if suspended s then occupied s else max (occupied s) (quota s))"
  by (simp add: form_closed occupied_def grown_def max_def)

section \<open>Counting connections\<close>

definition count :: "('a \<Rightarrow> bool) \<Rightarrow> 'a list \<Rightarrow> int" where
  "count P xs = int (length (filter P xs))"

lemma count_append: "count P (xs @ ys) = count P xs + count P ys"
  by (simp add: count_def)

lemma count_replicate: "count P (replicate n x) = (if P x then int n else 0)"
  by (simp add: count_def)

lemma count_update:
  "i < length xs \<Longrightarrow> count P (xs[i := y]) = count P xs - of_bool (P (xs ! i)) + of_bool (P y)"
proof (induction xs arbitrary: i)
  case (Cons x xs)
  then show ?case by (cases i) (simp_all add: count_def)
qed simp

lemma count_update_same: "P y = P (xs ! i) \<Longrightarrow> count P (xs[i := y]) = count P xs"
  by (cases "i < length xs") (simp_all add: count_update list_update_beyond)

section \<open>The invariant\<close>

text \<open>What holds of the connections other than the one whose frames are being handled.\<close>

definition conn_ok :: "pool_state \<Rightarrow> nat \<Rightarrow> bool" where
  "conn_ok s i =
    (let c = conns s ! i in
     (sock_closed c \<longrightarrow> settled c \<and> destroyed c) \<and>
     (i \<in> set (pool s) \<longrightarrow> settled c \<and> \<not> sock_closed c \<and> \<not> detached c) \<and>
     (settled c \<and> i \<notin> set (pool s) \<longrightarrow> destroyed c \<or> detached c))"

definition pool_core :: "pool_state \<Rightarrow> bool" where
  "pool_core s =
    (pending s = count (\<lambda>c. \<not> settled c) (conns s) \<and>
     distinct (pool s) \<and> (\<forall>i \<in> set (pool s). i < length (conns s)) \<and>
     (suspended s \<longrightarrow> refill_timer s = None))"

definition pool_inv :: "pool_state \<Rightarrow> bool" where
  "pool_inv s =
    (pool_core s \<and> (\<forall>i < length (conns s). conn_ok s i) \<and> occupied s \<le> target_pool_count)"

lemma pool_inv_start: "pool_inv pool_start"
  by (simp add: pool_inv_def pool_core_def pool_start_def count_def occupied_def target_pool_count_def)

lemma conn_ok_new: "conns s ! i = new_conn \<Longrightarrow> i \<notin> set (pool s) \<Longrightarrow> conn_ok s i"
  by (simp add: conn_ok_def new_conn_def)

lemma quota_le: "quota s \<le> target_pool_count"
  by (simp add: quota_def target_pool_count_def)

text \<open>Filling keeps the core and adds good connections.\<close>

lemma pool_core_form: "pool_core s \<Longrightarrow> pool_core (form_preconnect_pool s)"
  by (auto simp: pool_core_def form_closed count_append count_replicate new_conn_def)

lemma conn_ok_form:
  assumes "pool_core s" "i < length (conns (form_preconnect_pool s))"
    and "i < length (conns s) \<Longrightarrow> conn_ok s i"
  shows "conn_ok (form_preconnect_pool s) i"
proof (cases "i < length (conns s)")
  case True
  with assms(3) show ?thesis by (simp add: conn_ok_def form_closed nth_append)
next
  case False
  with assms(1,2) show ?thesis
    by (intro conn_ok_new) (auto simp: form_closed nth_append pool_core_def)
qed

lemma pool_inv_form: "pool_inv s \<Longrightarrow> pool_inv (form_preconnect_pool s)"
  using conn_ok_form[of s] quota_le[of s]
  by (auto simp: pool_inv_def pool_core_form occupied_form)

text \<open>Changing one connection without touching the counters.\<close>

lemma pool_inv_upd:
  assumes "pool_inv s"
    and "settled (f (conns s ! i)) = settled (conns s ! i)"
    and "sock_closed (f (conns s ! i)) = sock_closed (conns s ! i)"
    and "detached (f (conns s ! i)) = detached (conns s ! i)"
    and "destroyed (conns s ! i) \<Longrightarrow> destroyed (f (conns s ! i))"
  shows "pool_inv (upd_conn i f s)"
proof -
  have "count (\<lambda>c. \<not> settled c) ((conns s)[i := f (conns s ! i)]) = count (\<lambda>c. \<not> settled c) (conns s)"
    using assms(2) by (intro count_update_same) simp
  moreover have "conn_ok (upd_conn i f s) j" if "conn_ok s j" "j < length (conns s)" for j
    using that assms(2-5) unfolding conn_ok_def Let_def nth_upd_conn by (cases "j = i") auto
  ultimately show ?thesis using assms(1)
    by (simp add: pool_inv_def pool_core_def occupied_def upd_conn_def)
qed

lemma pool_inv_effects [simp]: "pool_inv (s\<lparr>effects := x\<rparr>) = pool_inv s"
  by (simp add: pool_inv_def pool_core_def conn_ok_def occupied_def)

lemma pool_inv_elog [simp]: "pool_inv (s\<lparr>elog := l\<rparr>) = pool_inv s"
  by (simp add: pool_inv_def pool_core_def conn_ok_def occupied_def)

lemma pool_inv_failures [simp]: "pool_inv (s\<lparr>consecutive_failures := n\<rparr>) = pool_inv s"
  by (simp add: pool_inv_def pool_core_def conn_ok_def occupied_def)

lemma pool_inv_refill: "pool_inv s \<Longrightarrow> suspended s \<longrightarrow> t = None \<Longrightarrow> pool_inv (s\<lparr>refill_timer := t\<rparr>)"
  by (simp add: pool_inv_def pool_core_def conn_ok_def occupied_def)

lemma pool_inv_schedule: "pool_inv s \<Longrightarrow> pool_inv (schedule_refill r s)"
  by (simp add: schedule_refill_def Let_def pool_inv_refill)

lemma pool_inv_init: "pool_inv s \<Longrightarrow> pool_inv (init_preconnect_pool u k s)"
proof -
  assume s: "pool_inv s"
  have uuid: "pool_inv (t\<lparr>agent_uuid := a\<rparr>)" if "pool_inv t" for t a
    using that by (simp add: pool_inv_def pool_core_def conn_ok_def occupied_def)
  have reader: "pool_inv (t\<lparr>has_secret_reader := b\<rparr>)" if "pool_inv t" for t b
    using that by (simp add: pool_inv_def pool_core_def conn_ok_def occupied_def)
  have reset: "pool_inv (t\<lparr>suspended := False, consecutive_failures := 0, refill_timer := None\<rparr>)"
    if "pool_inv t" for t
    using that by (simp add: pool_inv_def pool_core_def conn_ok_def occupied_def)
  show ?thesis
    unfolding init_preconnect_pool_def Let_def
    using s uuid reader by (simp add: pool_inv_form reset)
qed

lemma pool_inv_heartbeat: "pool_inv s \<Longrightarrow> pool_inv (on_heartbeat i s)"
  by (simp add: on_heartbeat_def pool_inv_upd)

lemma pool_inv_stop: "pool_inv s \<Longrightarrow> pool_inv (stop_heartbeat i s)"
  by (simp add: stop_heartbeat_def pool_inv_upd)

lemma pool_inv_destroy: "pool_inv s \<Longrightarrow> pool_inv (destroy i s)"
  by (simp add: destroy_def pool_inv_upd)

lemma pool_inv_clear_ack: "pool_inv s \<Longrightarrow> pool_inv (clear_ack i s)"
  by (simp add: clear_ack_def pool_inv_upd)

lemma pool_inv_connect: "pool_inv s \<Longrightarrow> pool_inv (on_connect mac i ts nonce k s)"
  by (auto simp: on_connect_def Let_def intro!: pool_inv_upd split: option.split sum.split)

lemma pool_inv_timeouts:
  "pool_inv s \<Longrightarrow> pool_inv (on_connect_timeout i s)" "pool_inv s \<Longrightarrow> pool_inv (on_ack_timeout i s)"
  "pool_inv s \<Longrightarrow> pool_inv (on_pong_timeout i s)"
  by (simp_all add: on_connect_timeout_def on_ack_timeout_def on_pong_timeout_def
      pool_inv_destroy pool_inv_clear_ack pool_inv_upd)

lemma pool_inv_error: "pool_inv s \<Longrightarrow> pool_inv (on_error i m s)"
  by (simp add: on_error_def Let_def pool_inv_upd)

section \<open>Frames\<close>

text \<open>
  While a chunk is being handled, its connection may be in limbo: settled by a rejection, out of
  the pool, and not yet detached. The slot it gave up stays free until the chunk ends.
\<close>

definition limbo :: "pool_state \<Rightarrow> nat \<Rightarrow> bool" where
  "limbo s i = (settled (conns s ! i) \<and> i \<notin> set (pool s))"

definition chunk_inv :: "nat \<Rightarrow> pool_state \<Rightarrow> bool" where
  "chunk_inv i s =
    (pool_inv s \<and> i < length (conns s) \<and> \<not> sock_closed (conns s ! i) \<and> \<not> detached (conns s ! i) \<and>
     occupied s + of_bool (limbo s i) \<le> target_pool_count)"

lemma chunk_inv_begin:
  "pool_inv s \<Longrightarrow> i < length (conns s) \<Longrightarrow> open_sock (conns s ! i) \<Longrightarrow> \<not> detached (conns s ! i) \<Longrightarrow>
    chunk_inv i s"
  by (auto simp: chunk_inv_def pool_inv_def limbo_def conn_ok_def open_sock_def Let_def)

text \<open>The connection has left the pool; every other one is fine.\<close>

definition out_inv :: "nat \<Rightarrow> pool_state \<Rightarrow> bool" where
  "out_inv i s =
    (pool_core s \<and> (\<forall>j < length (conns s). j \<noteq> i \<longrightarrow> conn_ok s j) \<and> i < length (conns s) \<and>
     i \<notin> set (pool s) \<and> occupied s \<le> target_pool_count)"

lemma out_inv_inv: "out_inv i s \<Longrightarrow> conn_ok s i \<Longrightarrow> pool_inv s"
  by (auto simp: out_inv_def pool_inv_def)

lemma pool_core_upd:
  "settled (f (conns s ! i)) = settled (conns s ! i) \<Longrightarrow> pool_core (upd_conn i f s) = pool_core s"
  by (simp add: pool_core_def upd_conn_def count_update_same)

lemma occupied_upd [simp]: "occupied (upd_conn i f s) = occupied s"
  by (simp add: occupied_def)

lemma conn_ok_upd_other: "j \<noteq> i \<Longrightarrow> conn_ok (upd_conn i f s) j = conn_ok s j"
  by (simp add: conn_ok_def nth_upd_conn)

lemma out_inv_upd:
  "settled (f (conns s ! i)) = settled (conns s ! i) \<Longrightarrow> out_inv i (upd_conn i f s) = out_inv i s"
  by (simp add: out_inv_def pool_core_upd conn_ok_upd_other)

lemma out_inv_elog [simp]: "out_inv i (s\<lparr>elog := l\<rparr>) = out_inv i s"
  by (simp add: out_inv_def pool_core_def conn_ok_def occupied_def)

lemma out_inv_form: "out_inv i s \<Longrightarrow> out_inv i (form_preconnect_pool s)"
proof -
  assume s: "out_inv i s"
  have "conn_ok (form_preconnect_pool s) j" if "j < length (conns (form_preconnect_pool s))" "j \<noteq> i" for j
    using s that by (intro conn_ok_form) (auto simp: out_inv_def)
  moreover have "i < length (conns (form_preconnect_pool s))"
    using s by (simp add: out_inv_def form_closed)
  ultimately show ?thesis
    using s pool_core_form quota_le[of s] by (simp add: out_inv_def occupied_form)
qed

lemma form_nth: "i < length (conns s) \<Longrightarrow> conns (form_preconnect_pool s) ! i = conns s ! i"
  by (simp add: form_closed nth_append)

text \<open>Taking a connection out of the pool.\<close>

lemma out_inv_remove:
  assumes "pool_inv s" "i < length (conns s)"
  shows "out_inv i (s\<lparr>pool := remove1 i (pool s)\<rparr>)"
proof -
  have d: "distinct (pool s)" using assms(1) by (simp add: pool_inv_def pool_core_def)
  then have "set (remove1 i (pool s)) = set (pool s) - {i}" by simp
  then show ?thesis
    using assms d length_remove1[of i "pool s"]
    by (auto simp: out_inv_def pool_inv_def pool_core_def conn_ok_def occupied_def split: if_splits)
qed

lemma occupied_settle: "\<not> settled (conns s ! i) \<Longrightarrow> occupied (settle i s) = occupied s - 1"
  by (simp add: settle_def occupied_def)

lemma settle_fields [simp]:
  "pool (settle i s) = pool s" "suspended (settle i s) = suspended s"
  "refill_timer (settle i s) = refill_timer s" "length (conns (settle i s)) = length (conns s)"
  "consecutive_failures (settle i s) = consecutive_failures s"
  by (simp_all add: settle_def)

lemma settle_nth:
  "i < length (conns s) \<Longrightarrow> conns (settle i s) ! j =
    (if j = i then (conns s ! i)\<lparr>settled := True\<rparr> else conns s ! j)"
  by (simp add: settle_def nth_upd_conn)

lemma pool_core_settle: "i < length (conns s) \<Longrightarrow> pool_core s \<Longrightarrow> pool_core (settle i s)"
  by (simp add: settle_def pool_core_def upd_conn_def count_update)

lemma settle_settled: "settled (conns s ! i) \<Longrightarrow> settle i s = s"
  by (simp add: settle_def)

lemma out_inv_settle: "out_inv i s \<Longrightarrow> out_inv i (settle i s)"
proof -
  assume s: "out_inv i s"
  have "conn_ok (settle i s) j" if "j < length (conns s)" "j \<noteq> i" for j
    using s that by (simp add: out_inv_def conn_ok_def settle_nth)
  then show ?thesis
    using s pool_core_settle[of i s] occupied_settle[of s i] settle_settled[of s i]
    by (cases "settled (conns s ! i)") (simp_all add: out_inv_def)
qed

lemma chunk_inv_elog [simp]: "chunk_inv i (s\<lparr>elog := l\<rparr>) = chunk_inv i s"
  by (simp add: chunk_inv_def limbo_def occupied_def)

lemma chunk_inv_upd:
  assumes "chunk_inv i s" "settled (f (conns s ! i)) = settled (conns s ! i)"
    "sock_closed (f (conns s ! i)) = sock_closed (conns s ! i)"
    "detached (f (conns s ! i)) = detached (conns s ! i)"
    "destroyed (conns s ! i) \<Longrightarrow> destroyed (f (conns s ! i))"
  shows "chunk_inv i (upd_conn i f s)"
  using assms pool_inv_upd[of s f i] by (simp add: chunk_inv_def limbo_def)

lemma chunk_inv_pre_ok: "chunk_inv i s \<Longrightarrow> chunk_inv i (on_pre_ok i s)"
proof -
  assume "chunk_inv i s"
  then have s0: "chunk_inv i (clear_ack i s)" by (simp add: clear_ack_def chunk_inv_upd)
  define s1 where "s1 = clear_ack i s"
  define s2 where "s2 = settle i s1"
  define s3 where "s3 = s2\<lparr>pool := js_add i (pool s2)\<rparr>"
  have inv: "pool_inv s1" and i: "i < length (conns s1)" and c: "\<not> sock_closed (conns s1 ! i)"
    "\<not> detached (conns s1 ! i)" and occ: "occupied s1 + of_bool (limbo s1 i) \<le> target_pool_count"
    using s0 by (simp_all add: s1_def chunk_inv_def)
  have mem: "i \<in> set (pool s1) \<Longrightarrow> settled (conns s1 ! i)"
    using inv i by (auto simp: pool_inv_def conn_ok_def Let_def)
  have core2: "pool_core s2" using inv i by (simp add: s2_def pool_core_settle pool_inv_def)
  have core3: "pool_core s3" using core2 i by (auto simp: s3_def pool_core_def s2_def)
  have nth3: "conns s3 ! j = (if j = i then (conns s1 ! i)\<lparr>settled := True\<rparr> else conns s1 ! j)" for j
    by (simp add: s3_def s2_def settle_nth[OF i])
  have ok3: "conn_ok s3 j" if "j < length (conns s3)" for j
  proof (cases "j = i")
    case True
    then show ?thesis using c by (simp add: conn_ok_def nth3) (simp add: s3_def)
  next
    case False
    have "conn_ok s1 j" using inv that by (simp add: pool_inv_def s3_def s2_def)
    then show ?thesis using False by (simp add: conn_ok_def nth3) (simp add: s3_def s2_def)
  qed
  have occ3: "occupied s3 \<le> target_pool_count"
  proof (cases "settled (conns s1 ! i)")
    case True
    then have "s2 = s1" by (simp add: s2_def settle_settled)
    then show ?thesis using occ True by (cases "i \<in> set (pool s1)")
      (simp_all add: s3_def occupied_def js_add_def limbo_def)
  next
    case False
    then have "i \<notin> set (pool s1)" using mem by blast
    then show ?thesis using occ False occupied_settle[OF False]
      by (simp add: s3_def s2_def occupied_def js_add_def limbo_def)
  qed
  have inv3: "pool_inv s3" using core3 ok3 occ3 by (simp add: pool_inv_def)
  define s4 where "s4 = start_heartbeat i s3"
  have inv4: "pool_inv s4" using inv3 by (simp add: s4_def start_heartbeat_def pool_inv_upd)
  define s5 where "s5 = form_preconnect_pool s4"
  have inv5: "pool_inv s5" using inv4 by (simp add: s5_def pool_inv_form)
  have len: "i < length (conns s4)" using i by (simp add: s4_def start_heartbeat_def s3_def s2_def)
  have n5: "conns s5 ! i = conns s4 ! i" using form_nth[OF len] by (simp add: s5_def)
  have pool5: "i \<in> set (pool s5)" by (simp add: s5_def s4_def start_heartbeat_def s3_def)
  have "i < length (conns s3)" using i by (simp add: s3_def s2_def)
  then have st: "sock_closed (conns s5 ! i) = sock_closed (conns s1 ! i)"
    "detached (conns s5 ! i) = detached (conns s1 ! i)"
    by (simp_all add: n5 s4_def start_heartbeat_def nth3)
  have "chunk_inv i s5"
    using inv5 c st pool5 len by (simp add: chunk_inv_def limbo_def pool_inv_def s5_def form_closed)
  moreover have "chunk_inv i (s5\<lparr>consecutive_failures := 0\<rparr>) = chunk_inv i s5"
    by (simp add: chunk_inv_def limbo_def occupied_def)
  moreover have "on_pre_ok i s = (if int (length (pool s5)) \<ge> target_pool_count
      then s5\<lparr>consecutive_failures := 0\<rparr> else s5)"
    by (simp add: on_pre_ok_def Let_def s5_def s4_def s3_def s2_def s1_def)
  ultimately show ?thesis by simp
qed

lemma chunk_inv_settle_destroy:
  assumes "chunk_inv i s"
  shows "chunk_inv i (destroy i (settle i s))"
proof -
  have inv: "pool_inv s" and i: "i < length (conns s)" and c: "\<not> sock_closed (conns s ! i)"
    "\<not> detached (conns s ! i)" and occ: "occupied s + of_bool (limbo s i) \<le> target_pool_count"
    using assms by (simp_all add: chunk_inv_def)
  let ?t = "destroy i (settle i s)"
  have mem: "i \<in> set (pool s) \<Longrightarrow> settled (conns s ! i)"
    using inv i by (auto simp: pool_inv_def conn_ok_def Let_def)
  have nth: "conns ?t ! j = (if j = i then (conns s ! i)\<lparr>settled := True, destroyed := True\<rparr> else conns s ! j)" for j
    using i by (simp add: destroy_def nth_upd_conn settle_nth)
  have core: "pool_core ?t"
    using inv i by (simp add: destroy_def pool_core_upd pool_core_settle pool_inv_def)
  have ok: "conn_ok ?t j" if "j < length (conns ?t)" for j
  proof (cases "j = i")
    case True
    then show ?thesis using c by (simp add: conn_ok_def nth)
  next
    case False
    have "conn_ok s j" using inv that by (simp add: pool_inv_def destroy_def)
    then show ?thesis using False by (simp add: conn_ok_def nth) (simp add: destroy_def)
  qed
  have "occupied ?t + of_bool (limbo ?t i) \<le> target_pool_count"
  proof (cases "settled (conns s ! i)")
    case True
    then show ?thesis using occ by (simp add: destroy_def settle_settled limbo_def nth_upd_conn)
  next
    case False
    then show ?thesis using occ occupied_settle[OF False] by (simp add: destroy_def limbo_def)
  qed
  moreover have "occupied ?t \<le> target_pool_count"
    using calculation by (cases "limbo ?t i") simp_all
  ultimately show ?thesis
    using core ok i c by (simp add: chunk_inv_def pool_inv_def nth) (simp add: destroy_def)
qed

lemma chunk_inv_suspend:
  "chunk_inv i s \<Longrightarrow> chunk_inv i (s\<lparr>suspended := True, refill_timer := None, effects := x\<rparr>)"
  by (simp add: chunk_inv_def pool_inv_def pool_core_def conn_ok_def limbo_def occupied_def)

lemma chunk_inv_pre_err: "chunk_inv i s \<Longrightarrow> chunk_inv i (on_pre_err i args s)"
  unfolding on_pre_err_def Let_def
  by (rule chunk_inv_settle_destroy)
     (simp add: chunk_inv_suspend clear_ack_def chunk_inv_upd)

text \<open>After \<open>OPEN\<close> the connection is out of the pool; the reader marks it detached.\<close>

lemma out_inv_pipe: "out_inv i s \<Longrightarrow> out_inv i (pipe_to_local_service i x rest s)"
  by (auto simp: pipe_to_local_service_def out_inv_upd split: option.split)

lemma pipe_nth:
  "i < length (conns s) \<Longrightarrow> sock_closed (conns (pipe_to_local_service i x rest s) ! i) = sock_closed (conns s ! i) \<and>
    settled (conns (pipe_to_local_service i x rest s) ! i) = settled (conns s ! i)"
  by (auto simp: pipe_to_local_service_def split: option.split)

lemma stop_nth [simp]:
  "i < length (conns s) \<Longrightarrow> sock_closed (conns (stop_heartbeat i s) ! i) = sock_closed (conns s ! i)"
  "i < length (conns s) \<Longrightarrow> settled (conns (stop_heartbeat i s) ! i) = settled (conns s ! i)"
  "i < length (conns s) \<Longrightarrow> unhealthy (conns (stop_heartbeat i s) ! i) = unhealthy (conns s ! i)"
  "i < length (conns s) \<Longrightarrow> destroyed (conns (stop_heartbeat i s) ! i) = destroyed (conns s ! i)"
  by (simp_all add: stop_heartbeat_def)

lemma stop_fields [simp]:
  "pool (stop_heartbeat i s) = pool s" "length (conns (stop_heartbeat i s)) = length (conns s)"
  "suspended (stop_heartbeat i s) = suspended s" "refill_timer (stop_heartbeat i s) = refill_timer s"
  by (simp_all add: stop_heartbeat_def)

lemma open_inv:
  assumes "chunk_inv i s"
  shows "out_inv i (on_open i args rest s) \<and> \<not> sock_closed (conns (on_open i args rest s) ! i)"
proof -
  let ?s1 = "stop_heartbeat i s"
  let ?s2 = "?s1\<lparr>pool := remove1 i (pool ?s1)\<rparr>"
  let ?s3 = "form_preconnect_pool ?s2"
  have i: "i < length (conns s)" and inv: "pool_inv s" and c: "\<not> sock_closed (conns s ! i)"
    using assms by (simp_all add: chunk_inv_def)
  have "out_inv i ?s2" using inv i by (intro out_inv_remove pool_inv_stop) simp_all
  then have 3: "out_inv i ?s3" by (rule out_inv_form)
  then have len: "i < length (conns ?s3)" by (simp add: out_inv_def)
  have "i < length (conns ?s2)" using i by simp
  from form_nth[OF this] have "\<not> sock_closed (conns ?s3 ! i)" using c i by simp
  then show ?thesis
    using out_inv_pipe[OF 3] pipe_nth[OF len] by (simp add: on_open_def Let_def)
qed

lemma detach_inv:
  assumes "out_inv i s" "\<not> sock_closed (conns s ! i)"
  shows "pool_inv (upd_conn i (\<lambda>c. c\<lparr>buffer := b, detached := True\<rparr>) s)"
proof (rule out_inv_inv)
  show "out_inv i (upd_conn i (\<lambda>c. c\<lparr>buffer := b, detached := True\<rparr>) s)"
    using assms(1) by (simp add: out_inv_upd)
  have "i < length (conns s)" using assms(1) by (simp add: out_inv_def)
  then show "conn_ok (upd_conn i (\<lambda>c. c\<lparr>buffer := b, detached := True\<rparr>) s) i"
    using assms by (simp add: conn_ok_def out_inv_def)
qed

lemma frame_inv:
  assumes "chunk_inv i s" "on_frame i v args rest s = (t, d)"
  shows "if d then out_inv i t \<and> \<not> sock_closed (conns t ! i) else chunk_inv i t"
  using assms open_inv[OF assms(1)] chunk_inv_pre_ok[OF assms(1)] chunk_inv_pre_err[OF assms(1)]
  by (auto simp: on_frame_def chunk_inv_upd split: if_splits)

lemma read_lines_inv:
  "chunk_inv i s \<Longrightarrow> pool_inv (store_reader i (read_lines (on_frame i) buf s))"
proof (induction buf arbitrary: s rule: measure_induct_rule[of length])
  case (less buf)
  show ?case
  proof (cases "cut_line buf")
    case None
    then show ?thesis
      using less.prems by (simp add: read_lines.simps store_reader_def pool_inv_upd chunk_inv_def)
  next
    case (Some lr)
    then obtain line rest where cut: "cut_line buf = Some (line, rest)" by (cases lr) simp
    obtain t d where h: "on_frame i (frame_verb line) (frame_args line) rest s = (t, d)"
      by (cases "on_frame i (frame_verb line) (frame_args line) rest s")
    have eq: "read_lines (on_frame i) buf s =
        (if d then \<lparr>rd_buffer = rest, rd_detached = True, rd_state = t\<rparr> else read_lines (on_frame i) rest t)"
      using cut h by (subst read_lines.simps) simp
    show ?thesis
    proof (cases d)
      case True
      then show ?thesis
        using frame_inv[OF less.prems h] detach_inv[of i t rest] unfolding eq by (simp add: store_reader_def)
    next
      case False
      then show ?thesis
        using frame_inv[OF less.prems h] less.IH[OF cut_line_length[OF cut]] unfolding eq by simp
    qed
  qed
qed

lemma store_take:
  assumes "i < length (conns s)"
  shows "store_reader i (r\<lparr>rd_state := push_pipe i x (take_reader i s)\<rparr>) =
    upd_conn i (\<lambda>c. c\<lparr>local_pipe := map_option (\<lambda>p. p\<lparr>pipe_bytes := pipe_bytes p @ x\<rparr>) (local_pipe c),
      buffer := rd_buffer r, detached := rd_detached r\<rparr>) s"
  using assms by (simp add: store_reader_def push_pipe_def take_reader_def upd_conn_def)

lemma pool_inv_chunk:
  assumes "pool_inv s" "i < length (conns s)" "open_sock (conns s ! i)"
  shows "pool_inv (on_chunk i chunk s)"
proof (cases "detached (conns s ! i)")
  case True
  then have "on_chunk i chunk s = store_reader i ((conn_reader i s)\<lparr>rd_state := push_pipe i chunk (take_reader i s)\<rparr>)"
    by (simp add: on_chunk_def on_data_def conn_reader_def)
  then show ?thesis
    using True assms(1) unfolding store_take[OF assms(2)] by (simp add: conn_reader_def pool_inv_upd)
next
  case False
  have "chunk_inv i (take_reader i s)"
    unfolding take_reader_def by (rule chunk_inv_upd[OF chunk_inv_begin[OF assms False]]) (use False in simp_all)
  then show ?thesis
    using read_lines_inv False by (simp add: on_chunk_def on_data_def conn_reader_def)
qed

lemma pool_inv_close:
  assumes inv: "pool_inv s" and i: "i < length (conns s)"
  shows "pool_inv (on_close i rand s)"
proof -
  let ?f = "\<lambda>c. c\<lparr>connect_timer := False, ack_timer := False, destroyed := True, sock_closed := True\<rparr>"
  define s1 where "s1 = stop_heartbeat i (upd_conn i ?f s)"
  define s2 where "s2 = s1\<lparr>pool := remove1 i (pool s1)\<rparr>"
  have s2': "s2 = stop_heartbeat i (upd_conn i ?f (s\<lparr>pool := remove1 i (pool s)\<rparr>))"
    by (simp add: s2_def s1_def stop_heartbeat_def upd_conn_def)
  have out: "out_inv i s2"
    unfolding s2' stop_heartbeat_def by (simp add: out_inv_upd out_inv_remove[OF inv i])
  have c: "settled (conns s2 ! i) = settled (conns s ! i)" "destroyed (conns s2 ! i)"
    using i by (simp_all add: s2' nth_upd_conn)
  have i2: "i < length (conns s2)" using i by (simp add: s2')
  have eq: "on_close i rand s =
      (if \<not> settled (conns s2 ! i) then schedule_refill rand (settle i s2)
       else if i \<notin> set (pool s1) then s2
       else if unhealthy (conns s2 ! i) then schedule_refill rand s2
       else form_preconnect_pool s2)"
    by (simp only: on_close_def Let_def s2_def s1_def)
  show ?thesis
  proof (cases "settled (conns s2 ! i)")
    case False
    have "conn_ok (settle i s2) i" using out c i2 by (simp add: conn_ok_def settle_nth out_inv_def)
    then have "pool_inv (settle i s2)" by (rule out_inv_inv[OF out_inv_settle[OF out]])
    then show ?thesis
      using False by (simp add: eq pool_inv_schedule)
  next
    case True
    have "conn_ok s2 i" using out c True by (simp add: conn_ok_def out_inv_def)
    then have "pool_inv s2" by (rule out_inv_inv[OF out])
    then show ?thesis
      using True by (simp add: eq pool_inv_schedule pool_inv_form)
  qed
qed

lemma pool_inv_step: "pool_inv s \<Longrightarrow> pool_trans mac s e t \<Longrightarrow> pool_inv t"
proof -
  assume s: "pool_inv s" and "pool_trans mac s e t"
  then have en: "enabled e s" and t: "t = pool_step mac e s" by (auto elim: pool_transE)
  show ?thesis unfolding t
    using s en by (cases e) (simp_all add: pool_inv_init pool_inv_connect pool_inv_timeouts pool_inv_chunk
        pool_inv_error pool_inv_close pool_inv_heartbeat pool_inv_refill pool_inv_form)
qed

interpretation pool_machine: step_invariant "\<lambda>s. s = pool_start" "pool_trans mac" pool_inv
  by unfold_locales (use pool_inv_start pool_inv_step in auto)

end
