(* ===== verification/Tunnel_Progress.thy ===== *)
theory Tunnel_Progress
  imports Tunnel_Pool_Inv
begin

text \<open>
  Progress of the pool (a deficit always has a refill coming, as long as no passing rejection
  arrives), the bounds of the backoff, and the instance of the line protocol that makes the
  chunking of the byte stream irrelevant.
\<close>

section \<open>Progress\<close>

definition progress :: "pool_state \<Rightarrow> bool" where
  "progress s =
    (conns s \<noteq> [] \<and> \<not> suspended s \<and> refill_timer s = None \<longrightarrow> quota s \<le> occupied s)"

definition passing_rejection :: "string \<Rightarrow> bool" where
  "passing_rejection line =
    (frame_verb line = ''PRE:ERR'' \<and> pre_reason (frame_args line) \<notin> set fatal_rejections)"

fun no_passing_rejection :: "pool_event \<Rightarrow> pool_state \<Rightarrow> bool" where
  "no_passing_rejection (Data i chunk) s =
    (\<forall>line \<in> set (split_on newline (buffer (conns s ! i) @ chunk)). \<not> passing_rejection line)"
| "no_passing_rejection _ s = True"

lemma progress_form: "progress (form_preconnect_pool s)"
  by (auto simp: progress_def occupied_form quota_def)

lemma conns_upd_Nil [simp]: "conns (upd_conn i f s) = [] \<longleftrightarrow> conns s = []"
  by (simp add: upd_conn_def)

lemma quota_upd [simp]: "quota (upd_conn i f s) = quota s"
  by (simp add: quota_def)

lemma progress_upd [simp]: "progress (upd_conn i f s) = progress s"
  by (simp add: progress_def)

lemma progress_elog [simp]: "progress (s\<lparr>elog := l\<rparr>) = progress s"
  by (simp add: progress_def quota_def occupied_def)

lemma progress_effects [simp]: "progress (s\<lparr>effects := l\<rparr>) = progress s"
  by (simp add: progress_def quota_def occupied_def)

lemma progress_failures [simp]: "progress (s\<lparr>consecutive_failures := l\<rparr>) = progress s"
  by (simp add: progress_def quota_def occupied_def)

lemma progress_schedule: "progress (schedule_refill r s)"
  by (auto simp: progress_def schedule_refill_def Let_def)

lemma progress_pipe: "progress (pipe_to_local_service i x rest s) = progress s"
  by (auto simp: pipe_to_local_service_def split: option.split)

lemma progress_frame:
  assumes "progress s" "on_frame i (frame_verb line) (frame_args line) rest s = (t, d)"
    and "\<not> passing_rejection line"
  shows "progress t"
proof (cases "frame_verb line = ''PRE:ERR''")
  case True
  then have "pre_reason (frame_args line) \<in> set fatal_rejections"
    using assms(3) by (simp add: passing_rejection_def)
  then have "suspended (on_pre_err i (frame_args line) s)"
    by (simp add: on_pre_err_def Let_def destroy_def)
  moreover have "t = on_pre_err i (frame_args line) s" using assms(2) True by (simp add: on_frame_def)
  ultimately show ?thesis by (simp add: progress_def)
next
  case False
  have ok: "progress (on_pre_ok i s)" by (simp add: on_pre_ok_def Let_def progress_form)
  have op: "progress (on_open i (frame_args line) rest s)"
    by (simp add: on_open_def Let_def progress_pipe progress_form)
  show ?thesis
    using assms(1,2) False ok op by (auto simp: on_frame_def split: if_splits)
qed

lemma progress_chunk:
  assumes "progress s" "no_passing_rejection (Data i chunk) s"
  shows "progress (on_chunk i chunk s)"
proof -
  have p: "progress (take_reader i s)" using assms(1) by (simp add: take_reader_def)
  have "progress (rd_state (on_data (on_frame i) (push_pipe i) chunk (conn_reader i s)))"
  proof (cases "detached (conns s ! i)")
    case True
    with p show ?thesis by (simp add: on_data_def conn_reader_def push_pipe_def)
  next
    case False
    have "progress (rd_state (read_lines (on_frame i) (buffer (conns s ! i) @ chunk) (take_reader i s)))"
      using progress_frame assms(2) by (intro read_lines_preserves[where Q = progress] p) auto
    with False show ?thesis by (simp add: on_data_def conn_reader_def)
  qed
  then show ?thesis by (simp add: on_chunk_def store_reader_def)
qed

lemma progress_init: "progress s \<Longrightarrow> progress (init_preconnect_pool u k s)"
proof -
  assume s: "progress s"
  have "progress (t\<lparr>agent_uuid := a\<rparr>) = progress t" "progress (t\<lparr>has_secret_reader := b\<rparr>) = progress t" for t a b
    by (simp_all add: progress_def quota_def occupied_def)
  with s show ?thesis by (simp add: init_preconnect_pool_def Let_def progress_form)
qed

lemma progress_close:
  assumes "progress s" "i < length (conns s)"
  shows "progress (on_close i rand s)"
proof -
  let ?f = "\<lambda>c. c\<lparr>connect_timer := False, ack_timer := False, destroyed := True, sock_closed := True\<rparr>"
  define s1 where "s1 = stop_heartbeat i (upd_conn i ?f s)"
  define s2 where "s2 = s1\<lparr>pool := remove1 i (pool s1)\<rparr>"
  have eq: "on_close i rand s =
      (if \<not> settled (conns s2 ! i) then schedule_refill rand (settle i s2)
       else if i \<notin> set (pool s1) then s2
       else if unhealthy (conns s2 ! i) then schedule_refill rand s2
       else form_preconnect_pool s2)"
    by (simp only: on_close_def Let_def s2_def s1_def)
  have "progress s1" using assms(1) by (simp add: s1_def stop_heartbeat_def)
  then have "progress s2" if "i \<notin> set (pool s1)"
    using that by (simp add: s2_def remove1_idem)
  then show ?thesis by (simp add: eq progress_schedule progress_form)
qed

lemma progress_step:
  assumes "progress s" "enabled e s" "no_passing_rejection e s"
  shows "progress (pool_step mac e s)"
proof (cases e)
  case (Data i chunk)
  with assms progress_chunk show ?thesis by simp
next
  case (Connect i ts nonce k)
  with assms show ?thesis
    by (auto simp: on_connect_def Let_def split: option.split sum.split)
qed (use assms in \<open>simp_all add: progress_init progress_close progress_form on_connect_timeout_def
      on_ack_timeout_def on_pong_timeout_def on_error_def Let_def on_heartbeat_def destroy_def clear_ack_def\<close>)

definition polite_trans :: "mac_fun \<Rightarrow> pool_state \<Rightarrow> pool_event \<Rightarrow> pool_state \<Rightarrow> bool" where
  "polite_trans mac s e t = (pool_trans mac s e t \<and> no_passing_rejection e s)"

lemma progress_start: "progress pool_start"
  by (simp add: progress_def pool_start_def)

interpretation polite_machine: step_invariant "\<lambda>s. s = pool_start" "polite_trans mac" progress
  by unfold_locales (auto simp: progress_start polite_trans_def elim!: pool_transE intro!: progress_step)

section \<open>Backoff\<close>

definition refill_bounded :: "pool_state \<Rightarrow> bool" where
  "refill_bounded s = (\<forall>d. refill_timer s = Some d \<longrightarrow> 500 \<le> d \<and> d < 39000)"

lemma backoff_bounds: "500 \<le> backoff_ms n" "backoff_ms n \<le> 30000"
  by (simp_all add: backoff_ms_def)

lemma refill_bounded_keep:
  "refill_bounded s \<Longrightarrow> refill_timer t = refill_timer s \<or> refill_timer t = None \<Longrightarrow> refill_bounded t"
  by (auto simp: refill_bounded_def)

lemma refill_bounded_schedule:
  assumes "refill_bounded s" "0 \<le> r" "r < 1"
  shows "refill_bounded (schedule_refill r s)"
proof -
  have b: "500 \<le> b + r * b * (3 / 10) \<and> b + r * b * (3 / 10) < 39000" if "500 \<le> b" "b \<le> 30000" for b :: rat
  proof -
    have "0 \<le> r * b" using assms(2) that by simp
    moreover have "r * b < 1 * b" using assms(3) that by (intro mult_strict_right_mono) simp_all
    ultimately show ?thesis using that by linarith
  qed
  have "500 \<le> (of_nat (backoff_ms n) :: rat)" "(of_nat (backoff_ms n) :: rat) \<le> 30000" for n
    using backoff_bounds[of n] by (metis of_nat_le_iff of_nat_numeral)+
  with b assms(1) show ?thesis by (simp add: schedule_refill_def refill_bounded_def Let_def)
qed

lemma refill_frame:
  "on_frame i v args rest s = (t, d) \<Longrightarrow> refill_timer t = refill_timer s \<or> refill_timer t = None"
  by (auto simp: on_frame_def on_pre_ok_def on_pre_err_def on_open_def Let_def clear_ack_def
      start_heartbeat_def destroy_def pipe_to_local_service_def split: if_splits option.splits)

lemma refill_bounded_chunk: "refill_bounded s \<Longrightarrow> refill_bounded (on_chunk i chunk s)"
proof -
  assume s: "refill_bounded s"
  have p: "refill_bounded (take_reader i s)" using s by (simp add: take_reader_def refill_bounded_def)
  have "refill_bounded (rd_state (on_data (on_frame i) (push_pipe i) chunk (conn_reader i s)))"
  proof (cases "detached (conns s ! i)")
    case True
    with p show ?thesis by (simp add: on_data_def conn_reader_def push_pipe_def refill_bounded_def)
  next
    case False
    have "refill_bounded (rd_state (read_lines (on_frame i) (buffer (conns s ! i) @ chunk) (take_reader i s)))"
      by (rule read_lines_preserves[where Q = refill_bounded, OF _ p])
         (rule refill_bounded_keep[OF _ refill_frame])
    with False show ?thesis by (simp add: on_data_def conn_reader_def)
  qed
  then show ?thesis by (simp add: on_chunk_def store_reader_def refill_bounded_def)
qed

lemma refill_close:
  assumes "refill_bounded s" "0 \<le> r" "r < 1"
  shows "refill_bounded (on_close i r s)"
proof -
  let ?f = "\<lambda>c. c\<lparr>connect_timer := False, ack_timer := False, destroyed := True, sock_closed := True\<rparr>"
  define s1 where "s1 = stop_heartbeat i (upd_conn i ?f s)"
  define s2 where "s2 = s1\<lparr>pool := remove1 i (pool s1)\<rparr>"
  have eq: "on_close i r s =
      (if \<not> settled (conns s2 ! i) then schedule_refill r (settle i s2)
       else if i \<notin> set (pool s1) then s2
       else if unhealthy (conns s2 ! i) then schedule_refill r s2
       else form_preconnect_pool s2)"
    by (simp only: on_close_def Let_def s2_def s1_def)
  have "refill_timer s2 = refill_timer s" by (simp add: s2_def s1_def stop_heartbeat_def)
  then have "refill_bounded s2" "refill_bounded (settle i s2)" "refill_bounded (form_preconnect_pool s2)"
    using assms(1) by (simp_all add: refill_bounded_def)
  then show ?thesis using assms(2,3) by (simp add: eq refill_bounded_schedule)
qed

lemma refill_bounded_step: "refill_bounded s \<Longrightarrow> pool_trans mac s e t \<Longrightarrow> refill_bounded t"
proof -
  assume s: "refill_bounded s" and "pool_trans mac s e t"
  then have en: "enabled e s" and t: "t = pool_step mac e s" by (auto elim: pool_transE)
  show ?thesis
  proof (cases e)
    case (Data i chunk)
    with s t refill_bounded_chunk show ?thesis by simp
  next
    case (Close i r)
    with s t en refill_close show ?thesis by simp
  next
    case (Connect i ts nonce k)
    have "refill_timer (on_connect mac i ts nonce k s) = refill_timer s"
      by (simp add: on_connect_def Let_def split: option.split sum.split)
    with s t Connect show ?thesis by (simp add: refill_bounded_def)
  next
    case (Init u k)
    have "refill_timer (init_preconnect_pool u k s) = refill_timer s \<or>
        refill_timer (init_preconnect_pool u k s) = None"
      by (simp add: init_preconnect_pool_def Let_def)
    with refill_bounded_keep[OF s] t Init show ?thesis by simp
  next
    case RefillFires
    with t show ?thesis by (simp add: refill_bounded_def)
  qed (use s t in \<open>simp_all add: refill_bounded_def on_connect_timeout_def
        on_ack_timeout_def on_pong_timeout_def on_error_def on_heartbeat_def destroy_def clear_ack_def Let_def\<close>)
qed

interpretation backoff_machine: step_invariant "\<lambda>s. s = pool_start" "pool_trans mac" refill_bounded
proof unfold_locales
  fix s t e
  show "s = pool_start \<Longrightarrow> refill_bounded s" by (simp add: refill_bounded_def pool_start_def)
  show "refill_bounded s \<Longrightarrow> pool_trans mac s e t \<Longrightarrow> refill_bounded t" by (rule refill_bounded_step)
qed

end
