(* ===== verification/Tunnel_Laws.thy ===== *)
theory Tunnel_Laws
  imports Tunnel_Progress Hash_Laws
begin

text \<open>
  The tunnel's laws: chunk independence of the frame reader, the grouped error log, and the
  properties of the pool as a whole.
\<close>

section \<open>The frame handler is a line protocol\<close>

lemma upd_conn_upd: "upd_conn i f (upd_conn i g s) = upd_conn i (\<lambda>c. f (g c)) s"
  by (cases "i < length (conns s)") (simp_all add: upd_conn_def list_update_beyond)

lemma upd_conn_id: "f (conns s ! i) = conns s ! i \<Longrightarrow> upd_conn i f s = s"
  by (simp add: upd_conn_def)

lemma pipe_rest:
  "pipe_to_local_service i x (r @ y) s = push_pipe i y (pipe_to_local_service i x r s)"
  by (simp add: pipe_to_local_service_def push_pipe_def upd_conn_upd split: option.split)

interpretation frames: line_protocol "on_frame i" "push_pipe i"
proof unfold_locales
  fix v a r x s
  show "on_frame i v a (r @ x) s =
      (if snd (on_frame i v a r s) then (push_pipe i x (fst (on_frame i v a r s)), True)
       else on_frame i v a r s)"
    by (simp add: on_frame_def on_open_def Let_def pipe_rest)
next
  fix s
  show "push_pipe i [] s = s"
    unfolding push_pipe_def by (rule upd_conn_id) (simp add: option.map_ident)
next
  fix x y s
  show "push_pipe i (x @ y) s = push_pipe i y (push_pipe i x s)"
    by (simp add: push_pipe_def upd_conn_upd option.map_comp o_def)
qed

text \<open>A frame touches neither buffer nor detach flag, which the reader has taken out.\<close>

definition taken :: "nat \<Rightarrow> pool_state \<Rightarrow> bool" where
  "taken i s = (i < length (conns s) \<and> buffer (conns s ! i) = [] \<and> \<not> detached (conns s ! i))"

lemma taken_take: "i < length (conns s) \<Longrightarrow> taken i (take_reader i s)"
  by (simp add: taken_def take_reader_def)

lemma taken_upd:
  "taken i s \<Longrightarrow> buffer (f (conns s ! i)) = buffer (conns s ! i) \<Longrightarrow>
    detached (f (conns s ! i)) = detached (conns s ! i) \<Longrightarrow> taken i (upd_conn i f s)"
  by (simp add: taken_def)

lemma taken_form: "taken i s \<Longrightarrow> taken i (form_preconnect_pool s)"
  by (simp add: taken_def form_nth) (simp add: form_closed)

lemma taken_fields [simp]:
  "taken i (s\<lparr>pool := p\<rparr>) = taken i s" "taken i (s\<lparr>pending := q\<rparr>) = taken i s"
  "taken i (s\<lparr>elog := l\<rparr>) = taken i s" "taken i (s\<lparr>consecutive_failures := n\<rparr>) = taken i s"
  "taken i (s\<lparr>suspended := b, refill_timer := t, effects := x\<rparr>) = taken i s"
  by (simp_all add: taken_def)

lemma taken_settle: "taken i s \<Longrightarrow> taken i (settle i s)"
  by (simp add: settle_def taken_upd)

lemma taken_pre_ok: "taken i s \<Longrightarrow> taken i (on_pre_ok i s)"
  by (simp add: on_pre_ok_def Let_def clear_ack_def start_heartbeat_def taken_upd taken_form taken_settle)

lemma taken_pre_err: "taken i s \<Longrightarrow> taken i (on_pre_err i args s)"
  by (simp add: on_pre_err_def Let_def clear_ack_def destroy_def taken_upd taken_settle)

lemma taken_open: "taken i s \<Longrightarrow> taken i (on_open i args rest s)"
proof -
  assume "taken i s"
  then have "taken i (form_preconnect_pool ((stop_heartbeat i s)\<lparr>pool := remove1 i (pool (stop_heartbeat i s))\<rparr>))"
    by (intro taken_form) (simp add: stop_heartbeat_def taken_upd)
  then show ?thesis
    by (simp add: on_open_def Let_def pipe_to_local_service_def taken_upd split: option.split)
qed

lemma taken_frame: "taken i s \<Longrightarrow> on_frame i v args rest s = (t, d) \<Longrightarrow> taken i t"
  by (auto simp: on_frame_def taken_pre_ok taken_pre_err taken_open taken_upd split: if_splits)

lemma taken_data: "taken i (rd_state r) \<Longrightarrow> taken i (rd_state (on_data (on_frame i) (push_pipe i) x r))"
proof (cases "rd_detached r")
  case True
  assume "taken i (rd_state r)"
  with True show ?thesis by (simp add: on_data_def push_pipe_def taken_upd)
next
  case False
  assume "taken i (rd_state r)"
  then have "taken i (rd_state (read_lines (on_frame i) (rd_buffer r @ x) (rd_state r)))"
    by (rule read_lines_preserves[where Q = "taken i", rotated]) (rule taken_frame)
  with False show ?thesis by (simp add: on_data_def)
qed

lemma reader_round: "taken i (rd_state r) \<Longrightarrow> conn_reader i (store_reader i r) = r"
  by (cases r) (auto simp: conn_reader_def store_reader_def take_reader_def taken_def upd_conn_upd
      intro!: upd_conn_id)

lemma on_chunk_foldl:
  assumes "i < length (conns s)" "cs \<noteq> []"
  shows "foldl (\<lambda>s c. on_chunk i c s) s cs =
    store_reader i (foldl (\<lambda>r c. on_data (on_frame i) (push_pipe i) c r) (conn_reader i s) cs) \<and>
    taken i (rd_state (foldl (\<lambda>r c. on_data (on_frame i) (push_pipe i) c r) (conn_reader i s) cs))"
  using assms(2)
proof (induction cs rule: rev_nonempty_induct)
  case (single c)
  have "taken i (rd_state (conn_reader i s))" using assms(1) by (simp add: conn_reader_def taken_take)
  then show ?case using taken_data by (simp add: on_chunk_def)
next
  case (snoc c cs)
  then show ?case using taken_data by (simp add: on_chunk_def reader_round)
qed

text \<open>Everything but the dead bytes in the buffer of a detached reader.\<close>

definition forget_dead_buffer :: "nat \<Rightarrow> pool_state \<Rightarrow> pool_state" where
  "forget_dead_buffer i s = upd_conn i (\<lambda>c. if detached c then c\<lparr>buffer := []\<rparr> else c) s"

lemma forget_store:
  "frames.agrees r q \<Longrightarrow> forget_dead_buffer i (store_reader i r) = forget_dead_buffer i (store_reader i q)"
  by (cases r; cases q) (auto simp: frames.agrees_def forget_dead_buffer_def store_reader_def upd_conn_upd)

lemma chunking:
  assumes "i < length (conns s)" "concat cs = concat ds" "cs \<noteq> []" "ds \<noteq> []"
  shows "forget_dead_buffer i (foldl (\<lambda>s c. on_chunk i c s) s cs) =
    forget_dead_buffer i (foldl (\<lambda>s c. on_chunk i c s) s ds)"
  using on_chunk_foldl[OF assms(1,3)] on_chunk_foldl[OF assms(1,4)]
    forget_store[OF frames.chunking_irrelevant[OF assms(2-4)]] by simp

lemma forget_pipe: "local_pipe (conns (forget_dead_buffer i t) ! i) = local_pipe (conns t ! i)"
  by (auto simp: forget_dead_buffer_def nth_upd_conn)

section \<open>The socket under its own data events\<close>

text \<open>Handling data neither connects nor closes the socket, and never revives a destroyed one.\<close>

definition sock_kept :: "nat \<Rightarrow> conn \<Rightarrow> pool_state \<Rightarrow> bool" where
  "sock_kept i c s =
    (i < length (conns s) \<and> connected (conns s ! i) = connected c \<and>
     sock_closed (conns s ! i) = sock_closed c \<and> (destroyed c \<longrightarrow> destroyed (conns s ! i)))"

lemma kept_upd:
  "sock_kept i c s \<Longrightarrow> connected (f (conns s ! i)) = connected (conns s ! i) \<Longrightarrow>
    sock_closed (f (conns s ! i)) = sock_closed (conns s ! i) \<Longrightarrow>
    (destroyed (conns s ! i) \<Longrightarrow> destroyed (f (conns s ! i))) \<Longrightarrow> sock_kept i c (upd_conn i f s)"
  by (simp add: sock_kept_def)

lemma kept_form: "sock_kept i c s \<Longrightarrow> sock_kept i c (form_preconnect_pool s)"
  by (simp add: sock_kept_def form_nth) (simp add: form_closed)

lemma kept_fields [simp]:
  "sock_kept i c (s\<lparr>pool := p\<rparr>) = sock_kept i c s" "sock_kept i c (s\<lparr>pending := q\<rparr>) = sock_kept i c s"
  "sock_kept i c (s\<lparr>elog := l\<rparr>) = sock_kept i c s" "sock_kept i c (s\<lparr>consecutive_failures := n\<rparr>) = sock_kept i c s"
  "sock_kept i c (s\<lparr>suspended := b, refill_timer := t, effects := x\<rparr>) = sock_kept i c s"
  by (simp_all add: sock_kept_def)

lemma kept_settle: "sock_kept i c s \<Longrightarrow> sock_kept i c (settle i s)"
  by (simp add: settle_def kept_upd)

lemma kept_open: "sock_kept i c s \<Longrightarrow> sock_kept i c (on_open i args rest s)"
proof -
  assume "sock_kept i c s"
  then have "sock_kept i c (form_preconnect_pool ((stop_heartbeat i s)\<lparr>pool := remove1 i (pool (stop_heartbeat i s))\<rparr>))"
    by (intro kept_form) (simp add: stop_heartbeat_def kept_upd)
  then show ?thesis
    by (simp add: on_open_def Let_def pipe_to_local_service_def kept_upd split: option.split)
qed

lemma kept_frame:
  assumes "sock_kept i c s" "on_frame i v args rest s = (t, d)"
  shows "sock_kept i c t"
proof -
  have "sock_kept i c (on_pre_ok i s)"
    using assms(1)
    by (auto simp: on_pre_ok_def Let_def clear_ack_def start_heartbeat_def intro!: kept_form kept_settle kept_upd)
  moreover have "sock_kept i c (on_pre_err i args s)"
    using assms(1) by (simp add: on_pre_err_def Let_def clear_ack_def destroy_def kept_upd kept_settle)
  ultimately show ?thesis
    using assms kept_open by (auto simp: on_frame_def kept_upd split: if_splits)
qed

lemma kept_chunk:
  assumes "i < length (conns s)"
  shows "sock_kept i (conns s ! i) (on_chunk i x s)"
proof -
  let ?c = "conns s ! i"
  have s: "sock_kept i ?c (take_reader i s)" using assms by (simp add: take_reader_def sock_kept_def)
  have "sock_kept i ?c (rd_state (read_lines (on_frame i) b (take_reader i s)))" for b
    by (rule read_lines_preserves[where Q = "sock_kept i ?c", OF kept_frame s])
  then show ?thesis using s
    by (simp add: on_chunk_def on_data_def conn_reader_def store_reader_def push_pipe_def kept_upd)
qed

lemma run_data: "pool_run mac (map (Data i) cs) s = Some t \<Longrightarrow> t = foldl (\<lambda>s c. on_chunk i c s) s cs"
  by (induction cs arbitrary: s) (simp_all split: if_splits)

lemma kept_enabled: "i < length (conns s) \<Longrightarrow> \<not> destroyed (conns (on_chunk i x s) ! i) \<Longrightarrow>
    enabled (Data i y) s \<Longrightarrow> enabled (Data i z) (on_chunk i x s)"
  using kept_chunk[of i s x] by (simp add: sock_kept_def open_sock_def)

lemma destroyed_fold:
  "i < length (conns s) \<Longrightarrow> destroyed (conns s ! i) \<Longrightarrow> destroyed (conns (foldl (\<lambda>s c. on_chunk i c s) s ds) ! i)"
proof (induction ds arbitrary: s)
  case (Cons d ds)
  then show ?case using kept_chunk[of i s d] by (simp add: sock_kept_def)
qed simp

lemma data_run:
  "enabled (Data i []) s \<Longrightarrow> \<not> destroyed (conns (foldl (\<lambda>s c. on_chunk i c s) s ds) ! i) \<Longrightarrow>
    pool_run mac (map (Data i) ds) s = Some (foldl (\<lambda>s c. on_chunk i c s) s ds)"
proof (induction ds arbitrary: s)
  case (Cons d ds)
  have i: "i < length (conns s)" "i < length (conns (on_chunk i d s))"
    using Cons.prems(1) kept_chunk[of i s d] by (simp_all add: sock_kept_def)
  have "\<not> destroyed (conns (on_chunk i d s) ! i)" using destroyed_fold[OF i(2)] Cons.prems(2) by fastforce
  then have "enabled (Data i []) (on_chunk i d s)" by (rule kept_enabled[OF i(1) _ Cons.prems(1)])
  then show ?case using Cons by simp
qed simp

section \<open>The grouped error log\<close>

text \<open>A run of the log: \<open>Some\<close> for a recorded error, \<open>None\<close> for the window timer.\<close>

fun log_run :: "(string \<times> string) option list \<Rightarrow> error_log \<Rightarrow> error_log" where
  "log_run [] l = l"
| "log_run (Some (k, d) # es) l = log_run es (record_error k d l)"
| "log_run (None # es) l = log_run es (if el_window l then flush_errors l else l)"

fun printed_count :: "string \<Rightarrow> log_print \<Rightarrow> nat" where
  "printed_count k (PrintFirst k' d) = of_bool (k = k')"
| "printed_count k (PrintSummary cs) = (case jm_get cs k of None \<Rightarrow> 0 | Some (n, d) \<Rightarrow> n)"

definition held_count :: "string \<Rightarrow> error_log \<Rightarrow> nat" where
  "held_count k l = (case jm_get (el_counts l) k of None \<Rightarrow> 0 | Some (n, d) \<Rightarrow> n)"

definition reported_count :: "string \<Rightarrow> error_log \<Rightarrow> nat" where
  "reported_count k l = (\<Sum>p \<leftarrow> el_prints l. printed_count k p)"

lemma reported_record:
  "reported_count k (record_error j d l) + held_count k (record_error j d l) =
    reported_count k l + held_count k l + of_bool (k = j)"
  by (auto simp: record_error_def reported_count_def held_count_def jsm.get_put split: option.splits)

lemma reported_flush:
  "reported_count k (flush_errors l) + held_count k (flush_errors l) = reported_count k l + held_count k l"
  by (auto simp: flush_errors_def reported_count_def held_count_def jm_get_def split: option.splits)

lemma reported_run:
  "reported_count k (log_run es l) + held_count k (log_run es l) =
    reported_count k l + held_count k l + length (filter (\<lambda>e. \<exists>d. e = Some (k, d)) es)"
proof (induction es arbitrary: l)
  case (Cons e es)
  show ?case
  proof (cases e)
    case None
    with Cons reported_flush show ?thesis by simp
  next
    case (Some kd)
    obtain j d where "kd = (j, d)" by (cases kd)
    with Some Cons reported_record[of k j d l] show ?thesis by simp
  qed
qed simp

section \<open>A suspended pool\<close>

definition still :: "nat \<Rightarrow> pool_state \<Rightarrow> bool" where
  "still n s = (suspended s \<and> length (conns s) = n)"

lemma still_simps [simp]:
  "still n (upd_conn i f s) = still n s" "still n (s\<lparr>elog := l\<rparr>) = still n s"
  "still n (s\<lparr>effects := x\<rparr>) = still n s" "still n (s\<lparr>pool := p\<rparr>) = still n s"
  "still n (s\<lparr>pending := q\<rparr>) = still n s" "still n (s\<lparr>consecutive_failures := m\<rparr>) = still n s"
  "still n (s\<lparr>refill_timer := t\<rparr>) = still n s"
  by (simp_all add: still_def)

lemma still_form: "still n s \<Longrightarrow> form_preconnect_pool s = s"
  by (simp add: still_def form_preconnect_pool_def)

lemma still_schedule: "still n s \<Longrightarrow> schedule_refill r s = s"
  by (simp add: still_def schedule_refill_def)

lemma still_settle: "still n s \<Longrightarrow> still n (settle i s)"
  by (simp add: settle_def)

lemma still_suspend: "still n s \<Longrightarrow> still n (s\<lparr>suspended := True, refill_timer := None, effects := x\<rparr>)"
  by (simp add: still_def)

lemma still_frame:
  assumes "still n s" "on_frame i v args rest s = (t, d)"
  shows "still n t"
proof -
  have "still n (on_pre_ok i s)"
    using assms(1) still_settle still_form[of n]
    by (simp add: on_pre_ok_def Let_def clear_ack_def start_heartbeat_def)
  moreover have "still n (on_pre_err i args s)"
    using assms(1) still_suspend
    by (auto simp: on_pre_err_def Let_def clear_ack_def destroy_def intro!: still_settle)
  moreover have "still n (on_open i args rest s)"
    using assms(1) still_form[of n]
    by (simp add: on_open_def Let_def stop_heartbeat_def pipe_to_local_service_def split: option.split)
  ultimately show ?thesis using assms by (auto simp: on_frame_def split: if_splits)
qed

lemma still_chunk: "still n s \<Longrightarrow> still n (on_chunk i c s)"
proof -
  assume "still n s"
  then have s: "still n (take_reader i s)" by (simp add: take_reader_def)
  have "still n (rd_state (read_lines (on_frame i) b (take_reader i s)))" for b
    by (rule read_lines_preserves[where Q = "still n", OF still_frame s])
  then show ?thesis using s
    by (simp add: on_chunk_def on_data_def conn_reader_def store_reader_def push_pipe_def)
qed

lemma still_step:
  assumes "still n s" "\<forall>u k. e \<noteq> Init u k"
  shows "still n (pool_step mac e s)"
proof (cases e)
  case (Connect i ts nonce k)
  with assms(1) show ?thesis by (simp add: on_connect_def Let_def split: option.split sum.split)
next
  case (Close i r)
  let ?f = "\<lambda>c. c\<lparr>connect_timer := False, ack_timer := False, destroyed := True, sock_closed := True\<rparr>"
  let ?s1 = "stop_heartbeat i (upd_conn i ?f s)"
  have "still n (?s1\<lparr>pool := p\<rparr>)" for p using assms(1) by (simp add: stop_heartbeat_def)
  with Close show ?thesis
    using still_settle still_form[of n] still_schedule[of n] by (simp add: on_close_def Let_def)
next
  case (Init u k)
  with assms(2) show ?thesis by blast
next
  case RefillFires
  have "still n (s\<lparr>refill_timer := None\<rparr>)" using assms(1) by simp
  with still_form[of n] RefillFires show ?thesis by simp
qed (use assms(1) in \<open>simp_all add: still_chunk on_connect_timeout_def on_ack_timeout_def
      on_pong_timeout_def on_error_def Let_def on_heartbeat_def destroy_def clear_ack_def\<close>)

section \<open>Delivery\<close>

lemma cut_line_first: "newline \<notin> set l \<Longrightarrow> cut_line (l @ newline # r) = Some (l, r)"
  by (induction l) auto

text \<open>A word of visible ASCII characters\<close>

definition word :: "string \<Rightarrow> bool" where
  "word w = (w \<noteq> [] \<and> list_all (\<lambda>c. 33 \<le> code c \<and> code c \<le> 126) w)"

lemma word_chars:
  assumes "word w" "c \<in> set w"
  shows "\<not> is_space c" "c \<noteq> CHR '' ''" "c \<noteq> newline" "code c < 128"
proof -
  have r: "33 \<le> code c" "code c \<le> 126" using assms by (auto simp: word_def list_all_iff)
  then show "\<not> is_space c" "c \<noteq> CHR '' ''" "c \<noteq> newline" "code c < 128"
    by (auto simp: is_space_def newline_def)
qed

lemma word_line:
  assumes "word v" "word a"
  shows "frame_verb (v @ CHR '' '' # a) = v \<and> frame_args (v @ CHR '' '' # a) = [a]"
proof -
  have ne: "v \<noteq> []" "a \<noteq> []" using assms by (simp_all add: word_def)
  have "ascii (v @ CHR '' '' # a)"
    using word_chars(4)[OF assms(1)] word_chars(4)[OF assms(2)] by (auto simp: ascii_def list_all_iff)
  moreover have "js_trim (v @ CHR '' '' # a) = v @ CHR '' '' # a"
    using ne word_chars(1)[OF assms(1), of "hd v"] word_chars(1)[OF assms(2), of "last a"]
    by (intro js_trim_no_space) (simp_all add: hd_append)
  moreover have "split_on (CHR '' '') (v @ CHR '' '' # a) = [v, a]"
    using word_chars(2)[OF assms(1)] word_chars(2)[OF assms(2)]
    by (subst split_on_app) (blast, subst split_on_single, blast, simp)
  ultimately show ?thesis by (simp add: frame_verb_def frame_args_def utf8_text_ascii)
qed

lemma word_line_end: "word v \<Longrightarrow> word a \<Longrightarrow>
    cut_line (v @ CHR '' '' # a @ newline # r) = Some (v @ CHR '' '' # a, r)"
  using cut_line_first[of "v @ CHR '' '' # a" r] word_chars(3)[of v newline] word_chars(3)[of a newline]
  by (auto simp: newline_def)

lemma digits_word: "list_all is_digit a \<Longrightarrow> a \<noteq> [] \<Longrightarrow> word a"
  by (auto simp: word_def list_all_iff is_digit_def)

lemma open_line:
  assumes "list_all is_digit a" "a \<noteq> []"
  shows "frame_verb (''OPEN '' @ a) = ''OPEN'' \<and> frame_args (''OPEN '' @ a) = [a]"
  using word_line[OF _ digits_word[OF assms], of "''OPEN''"] by (simp add: word_def)

lemma open_pipe:
  assumes "i < length (conns s)" "valid_port (target_port args) = Some p"
  shows "local_pipe (conns (on_open i args rest s) ! i) = Some \<lparr>pipe_port = p, pipe_bytes = rest\<rparr>"
proof -
  let ?s2 = "(stop_heartbeat i s)\<lparr>pool := remove1 i (pool (stop_heartbeat i s))\<rparr>"
  have "i < length (conns ?s2)" using assms(1) by simp
  then have "i < length (conns (form_preconnect_pool ?s2))" by (simp add: form_closed)
  then show ?thesis using assms(2) by (simp add: on_open_def Let_def pipe_to_local_service_def)
qed

lemma open_chunk:
  assumes i: "i < length (conns s)" and rd: "\<not> detached (conns s ! i)" "buffer (conns s ! i) = []"
    and a: "list_all is_digit a" "valid_port (string_to_num a) = Some p" "a \<noteq> []"
  shows "local_pipe (conns (on_chunk i (''OPEN '' @ a @ newline # body) s) ! i) =
    Some \<lparr>pipe_port = p, pipe_bytes = body\<rparr>"
proof -
  have nl: "newline \<notin> set (''OPEN '' @ a)"
    using a(1) by (auto simp: list_all_iff is_digit_def newline_def)
  have cut: "cut_line (''OPEN '' @ a @ newline # body) = Some (''OPEN '' @ a, body)"
    using cut_line_first[OF nl, of body] by simp
  let ?t = "take_reader i s"
  have frame: "on_frame i (frame_verb (''OPEN '' @ a)) (frame_args (''OPEN '' @ a)) body ?t =
      (on_open i [a] body ?t, True)"
    using open_line[OF a(1,3)] by (simp add: on_frame_def)
  have "read_lines (on_frame i) (''OPEN '' @ a @ newline # body) ?t =
      \<lparr>rd_buffer = body, rd_detached = True, rd_state = on_open i [a] body ?t\<rparr>"
    using cut frame by (subst read_lines.simps) simp
  then have chunk: "on_chunk i (''OPEN '' @ a @ newline # body) s =
      upd_conn i (\<lambda>c. c\<lparr>buffer := body, detached := True\<rparr>) (on_open i [a] body ?t)"
    using rd by (simp add: on_chunk_def on_data_def conn_reader_def store_reader_def)
  have "i < length (conns ?t)" using i by (simp add: take_reader_def)
  moreover have "valid_port (target_port [a]) = Some p" using a(2) by (simp add: target_port_def)
  ultimately have "local_pipe (conns (on_open i [a] body ?t) ! i) = Some \<lparr>pipe_port = p, pipe_bytes = body\<rparr>"
    by (rule open_pipe)
  then show ?thesis unfolding chunk nth_upd_conn by simp
qed

section \<open>Runs\<close>

lemma run_reach: "pool_reach mac s \<Longrightarrow> pool_run mac es s = Some t \<Longrightarrow> pool_reach mac t"
proof (induction es arbitrary: s)
  case (Cons e es)
  then have en: "enabled e s" and r: "pool_run mac es (pool_step mac e s) = Some t"
    by (simp_all split: if_splits)
  have "pool_reach mac (pool_step mac e s)"
    by (rule reach_step[OF Cons.prems(1) pool_trans_step[OF en]])
  from Cons.IH[OF this r] show ?case .
qed simp

lemma reach_pool_start: "pool_reach mac pool_start"
  by (rule reach_start) (rule refl)

lemmas run_from_start = run_reach[OF reach_pool_start]

definition greet :: "pool_event list" where
  "greet = [Init (Some ''uuid'') (Some ''key''), Connect 0 (num_of_int 5) ''n'' (Some ''key''),
     Data 0 (''PRE:OK'' @ [newline])]"

section \<open>Properties of the pool\<close>

text \<open>C16: in every reachable state the pending counter is the number of connections whose
  outcome is open, pool and pending connections together never exceed the target of ten, and
  every pooled connection occurs once, has been accepted, and is neither closed nor consumed.
  This holds under any interleaving of events and any bytes the server sends.\<close>

theorem pool_within_target:
  assumes "pool_reach mac s"
  shows "pending s = count (\<lambda>c. \<not> settled c) (conns s) \<and>
    int (length (pool s)) + pending s \<le> target_pool_count \<and> distinct (pool s) \<and>
    (\<forall>i \<in> set (pool s). i < length (conns s) \<and> settled (conns s ! i) \<and>
      \<not> sock_closed (conns s ! i) \<and> \<not> detached (conns s ! i))"
  using pool_machine.inv_reach[OF assms]
  by (auto simp: pool_inv_def pool_core_def occupied_def conn_ok_def Let_def)

theorem pool_within_target_witness:
  "\<exists>s. pool_run zero_mac greet pool_start = Some s \<and> pool s = [0] \<and> pending s = 9 \<and>
    int (length (pool s)) + pending s \<le> target_pool_count"
proof -
  have run: "map_option (\<lambda>s. (pool s, pending s)) (pool_run zero_mac greet pool_start) = Some ([0], 9)"
    by code_simp
  then obtain s where s: "pool_run zero_mac greet pool_start = Some s" "pool s = [0]" "pending s = 9"
    by auto
  from pool_within_target[OF run_from_start[OF s(1)]] s show ?thesis by blast
qed

text \<open>C17: once a rejection that retrying cannot cure has suspended the pool, no event but a new
  registration opens a connection, and no refill is scheduled.\<close>

theorem suspended_pool_is_quiet:
  assumes "pool_reach mac s" "suspended s" "pool_trans mac s e t" "\<forall>u k. e \<noteq> Init u k"
  shows "suspended t \<and> length (conns t) = length (conns s) \<and> refill_timer t = None"
proof -
  have t: "t = pool_step mac e s" using assms(3) by (auto elim: pool_transE)
  have "still (length (conns s)) s" using assms(2) by (simp add: still_def)
  then have "still (length (conns s)) t" unfolding t using assms(4) by (rule still_step)
  moreover have "pool_inv t" using pool_machine.inv_reach_step[OF assms(1,3)] by simp
  ultimately show ?thesis by (simp add: still_def pool_inv_def pool_core_def)
qed

definition refuse :: "pool_event list" where
  "refuse = [Init (Some ''uuid'') (Some ''key''), Connect 0 (num_of_int 5) ''n'' (Some ''key''),
     Data 0 (''PRE:ERR expired'' @ [newline])]"

theorem suspended_pool_is_quiet_witness:
  "\<exists>s. pool_run zero_mac refuse pool_start = Some s \<and>
    length (conns (pool_step zero_mac (Close 0 0) s)) = 1"
proof -
  have "map_option (\<lambda>s. (suspended s, length (conns s), enabled (Close 0 0) s))
      (pool_run zero_mac refuse pool_start) = Some (True, 1, True)" by code_simp
  then obtain s where s: "pool_run zero_mac refuse pool_start = Some s" "suspended s"
    "length (conns s) = 1" "enabled (Close 0 0) s" by auto
  from suspended_pool_is_quiet[OF run_from_start[OF s(1)] s(2) pool_trans_step[OF s(4), of zero_mac]] s
  show ?thesis by simp
qed

text \<open>C18: the pool does not stall. As long as the server sends no passing rejection, in every
  state that is neither suspended nor before its first connection, either a refill is scheduled or
  the pool is at its quota: one probe while it is empty, ten connections once one was accepted.\<close>

theorem deficit_has_refill:
  assumes "reach (\<lambda>s. s = pool_start) (polite_trans mac) s"
    and "conns s \<noteq> []" "\<not> suspended s" "refill_timer s = None"
  shows "(if pool s = [] then 1 else target_pool_count) \<le> int (length (pool s)) + pending s"
  using polite_machine.inv_reach[OF assms(1)] assms(2-4)
  by (simp add: progress_def quota_def occupied_def)

theorem deficit_has_refill_witness:
  "1 \<le> int (length (pool (pool_step zero_mac (Init (Some ''u'') (Some ''k'')) pool_start))) +
     pending (pool_step zero_mac (Init (Some ''u'') (Some ''k'')) pool_start)"
proof -
  define e where "e = Init (Some ''u'') (Some ''k'')"
  define s where "s = pool_step zero_mac e pool_start"
  have en: "enabled e pool_start" and polite: "no_passing_rejection e pool_start"
    by (simp_all add: e_def)
  have "polite_trans zero_mac pool_start e s"
    unfolding polite_trans_def s_def using pool_trans_step[OF en] polite by blast
  then have r: "reach (\<lambda>s. s = pool_start) (polite_trans zero_mac) s"
    by (rule reach_step[rotated]) (rule reach_start, rule refl)
  have "(conns s \<noteq> [], suspended s, refill_timer s, pool s) = (True, False, None, [])"
    unfolding s_def e_def by code_simp
  then have "conns s \<noteq> []" "\<not> suspended s" "refill_timer s = None" "pool s = []" by simp_all
  with deficit_has_refill[OF r] show ?thesis unfolding s_def e_def by simp
qed

text \<open>A pool in which nothing can happen but by a registration\<close>

definition dormant :: "nat \<Rightarrow> pool_state \<Rightarrow> bool" where
  "dormant n s = (pool s = [] \<and> pending s = 0 \<and> refill_timer s = None \<and> \<not> suspended s \<and> length (conns s) = n)"

lemma dormant_simps [simp]:
  "dormant n (upd_conn i f s) = dormant n s" "dormant n (s\<lparr>elog := l\<rparr>) = dormant n s"
  "dormant n (s\<lparr>effects := x\<rparr>) = dormant n s"
  by (simp_all add: dormant_def)

lemma dormant_conn:
  assumes "pool_inv s" "dormant n s" "i < length (conns s)"
  shows "settled (conns s ! i) \<and> (open_sock (conns s ! i) \<longrightarrow> detached (conns s ! i))"
proof -
  have "filter (\<lambda>c. \<not> settled c) (conns s) = []"
    using assms(1,2) by (simp add: pool_inv_def pool_core_def dormant_def count_def)
  then have st: "settled (conns s ! i)" using assms(3) nth_mem by (fastforce simp: filter_empty_conv)
  have "conn_ok s i" using assms(1,3) by (simp add: pool_inv_def)
  with st assms(2) show ?thesis by (auto simp: conn_ok_def Let_def dormant_def open_sock_def)
qed

lemma dormant_chunk: "dormant n s \<Longrightarrow> detached (conns s ! i) \<Longrightarrow> dormant n (on_chunk i c s)"
  by (simp add: on_chunk_def on_data_def conn_reader_def store_reader_def push_pipe_def take_reader_def)

lemma dormant_close: "dormant n s \<Longrightarrow> i < length (conns s) \<Longrightarrow> settled (conns s ! i) \<Longrightarrow> dormant n (on_close i r s)"
  by (simp add: on_close_def Let_def stop_heartbeat_def nth_upd_conn dormant_def)

lemma dormant_step:
  assumes "pool_inv s" "dormant n s" "enabled e s" "\<forall>u k. e \<noteq> Init u k"
  shows "dormant n (pool_step mac e s)"
proof (cases e)
  case (Init u k)
  with assms(4) show ?thesis by blast
next
  case (Connect i ts nonce k)
  with assms(2) show ?thesis by (simp add: on_connect_def Let_def split: option.split sum.split)
next
  case RefillFires
  with assms(2,3) show ?thesis by (simp add: dormant_def)
qed (use assms dormant_conn[OF assms(1,2)] in \<open>simp_all add: dormant_chunk dormant_close on_connect_timeout_def
      on_ack_timeout_def on_pong_timeout_def on_error_def Let_def on_heartbeat_def destroy_def clear_ack_def\<close>)

lemma dormant_run:
  assumes "\<forall>e \<in> set es. \<forall>u k. e \<noteq> Init u k"
  shows "pool_inv s \<Longrightarrow> dormant n s \<Longrightarrow> pool_run mac es s = Some u \<Longrightarrow> dormant n u"
  using assms
proof (induction es arbitrary: s)
  case (Cons e es)
  then have en: "enabled e s" and r: "pool_run mac es (pool_step mac e s) = Some u"
    by (simp_all split: if_splits)
  have "pool_inv (pool_step mac e s)" by (rule pool_inv_step[OF Cons.prems(1) pool_trans_step[OF en]])
  moreover have "dormant n (pool_step mac e s)" using Cons.prems by (intro dormant_step[OF _ _ en]) simp_all
  ultimately show ?case using Cons.IH r Cons.prems(4) by simp
qed simp

text \<open>The one connection being tried has its handshake behind it and waits for the answer.\<close>

definition lone_probe :: "nat \<Rightarrow> pool_state \<Rightarrow> bool" where
  "lone_probe i s =
    (pool s = [] \<and> pending s = 1 \<and> refill_timer s = None \<and> \<not> suspended s \<and> i < length (conns s) \<and>
     \<not> settled (conns s ! i) \<and> connected (conns s ! i) \<and> open_sock (conns s ! i) \<and>
     buffer (conns s ! i) = [] \<and> \<not> detached (conns s ! i))"

lemma rejection_chunk:
  assumes "lone_probe i s" "word r" "r \<notin> set fatal_rejections"
  shows "dormant (length (conns s)) (on_chunk i (''PRE:ERR '' @ r @ [newline]) s)"
proof -
  have p: "pool s = []" "pending s = 1" "refill_timer s = None" "\<not> suspended s" "i < length (conns s)"
    "\<not> settled (conns s ! i)" "buffer (conns s ! i) = []" "\<not> detached (conns s ! i)"
    using assms(1) by (simp_all add: lone_probe_def)
  have w: "word ''PRE:ERR''" by (simp add: word_def)
  note cut = word_line_end[OF w assms(2), of "[]", simplified]
  have frame: "on_frame i (frame_verb (''PRE:ERR '' @ r)) (frame_args (''PRE:ERR '' @ r)) [] t =
      (on_pre_err i [r] t, False)" for t
    using word_line[OF w assms(2)] by (simp add: on_frame_def)
  let ?t = "take_reader i s"
  have "on_pre_err i [r] ?t = destroy i (settle i (log_error ''PRECONN:REJECTED'' (''reason: '' @ r) (clear_ack i ?t)))"
    using assms(3) by (simp add: on_pre_err_def pre_reason_def Let_def)
  moreover have "\<not> settled (conns (log_error ''PRECONN:REJECTED'' (''reason: '' @ r) (clear_ack i ?t)) ! i)"
    using p by (simp add: clear_ack_def take_reader_def nth_upd_conn)
  ultimately have d: "dormant (length (conns s)) (on_pre_err i [r] ?t)"
    using p by (simp add: dormant_def settle_def destroy_def clear_ack_def take_reader_def)
  have "read_lines (on_frame i) (''PRE:ERR '' @ r @ [newline]) ?t =
      \<lparr>rd_buffer = [], rd_detached = False, rd_state = on_pre_err i [r] ?t\<rparr>"
    using cut frame by (subst read_lines.simps) (simp add: read_lines.simps[of _ "[]"])
  then show ?thesis
    using d p by (simp add: on_chunk_def on_data_def conn_reader_def store_reader_def)
qed

text \<open>C19: a passing rejection is the exception to C18, and it is fatal for a lone probe. Whenever the one
  connection being tried is answered by \<open>PRE:ERR\<close> and a reason that does not suspend the pool, then
  from this answer on and until a new registration, nothing is pooled, pending or scheduled and no
  connection is opened, whatever the sockets, the timers and the server do; the pool is not suspended.\<close>

theorem passing_rejection_strands_pool:
  assumes "pool_reach mac s" "lone_probe i s" "word r" "r \<notin> set fatal_rejections"
  shows "\<exists>t. pool_run mac [Data i (''PRE:ERR '' @ r @ [newline])] s = Some t \<and>
    (\<forall>es u. pool_run mac es t = Some u \<and> (\<forall>e \<in> set es. \<forall>uuid secret. e \<noteq> Init uuid secret) \<longrightarrow>
      pool u = [] \<and> pending u = 0 \<and> refill_timer u = None \<and> \<not> suspended u \<and>
      length (conns u) = length (conns s))"
proof -
  let ?e = "Data i (''PRE:ERR '' @ r @ [newline])"
  have en: "enabled ?e s" using assms(2) by (simp add: lone_probe_def)
  have "pool_inv (pool_step mac ?e s)"
    by (rule pool_inv_step[OF pool_machine.inv_reach[OF assms(1)] pool_trans_step[OF en]])
  moreover have "dormant (length (conns s)) (pool_step mac ?e s)"
    using rejection_chunk[OF assms(2-4)] by simp
  ultimately have "dormant (length (conns s)) u"
    if "pool_run mac es (pool_step mac ?e s) = Some u" "\<forall>e \<in> set es. \<forall>uuid secret. e \<noteq> Init uuid secret" for es u
    using dormant_run that by blast
  then show ?thesis using en by (auto simp: dormant_def simp del: enabled.simps pool_step.simps)
qed

definition probing :: "pool_event list" where
  "probing = [Init (Some ''uuid'') (Some ''key''), Connect 0 (num_of_int 5) ''n'' (Some ''key'')]"

theorem passing_rejection_strands_pool_witness:
  "\<exists>s t. pool_run zero_mac probing pool_start = Some s \<and>
    pool_run zero_mac [Data 0 (''PRE:ERR busy'' @ [newline]), Close 0 0] s = Some t \<and>
    pool t = [] \<and> pending t = 0 \<and> refill_timer t = None \<and> \<not> suspended t"
proof -
  have "map_option (lone_probe 0) (pool_run zero_mac probing pool_start) = Some True"
    and close: "map_option (\<lambda>s. pool_run zero_mac [Data 0 (''PRE:ERR busy'' @ [newline]), Close 0 0] s \<noteq> None)
      (pool_run zero_mac probing pool_start) = Some True"
    by code_simp+
  then obtain s t where s: "pool_run zero_mac probing pool_start = Some s" "lone_probe 0 s"
    and t: "pool_run zero_mac [Data 0 (''PRE:ERR busy'' @ [newline]), Close 0 0] s = Some t" by auto
  have r: "word ''busy''" "''busy'' \<notin> set fatal_rejections" by (simp_all add: word_def fatal_rejections_def)
  obtain t' where t': "pool_run zero_mac [Data 0 (''PRE:ERR busy'' @ [newline])] s = Some t'"
    and after: "\<And>es u. pool_run zero_mac es t' = Some u \<and> (\<forall>e \<in> set es. \<forall>uuid secret. e \<noteq> Init uuid secret) \<Longrightarrow>
      pool u = [] \<and> pending u = 0 \<and> refill_timer u = None \<and> \<not> suspended u \<and> length (conns u) = length (conns s)"
    using passing_rejection_strands_pool[OF run_from_start[OF s(1)] s(2) r] by auto
  have "pool_run zero_mac [Close 0 0] t' = Some t"
    using t t' unfolding pool_run.simps by (simp del: enabled.simps pool_step.simps split: if_split_asm)
  then have "pool t = [] \<and> pending t = 0 \<and> refill_timer t = None \<and> \<not> suspended t"
    using after[of "[Close 0 0]" t] by simp
  with s t show ?thesis by blast
qed

text \<open>C20: whatever the number of failures, a scheduled refill fires no earlier than after half a
  second and before 39 seconds, jitter included.\<close>

theorem refill_delay_bounds:
  assumes "pool_reach mac s" "refill_timer s = Some d"
  shows "500 \<le> d \<and> d < 39000"
  using backoff_machine.inv_reach[OF assms(1)] assms(2) by (simp add: refill_bounded_def)

theorem refill_delay_bounds_witness:
  "\<exists>s d. pool_run zero_mac [Init (Some ''u'') (Some ''k''), Close 0 (1 / 2)] pool_start = Some s \<and>
    refill_timer s = Some d \<and> d < 39000"
proof -
  have "map_option refill_timer
      (pool_run zero_mac [Init (Some ''u'') (Some ''k''), Close 0 (1 / 2)] pool_start) = Some (Some 575)"
    by code_simp
  then obtain s where s: "pool_run zero_mac [Init (Some ''u'') (Some ''k''), Close 0 (1 / 2)] pool_start = Some s"
    "refill_timer s = Some 575" by auto
  from refill_delay_bounds[OF run_from_start[OF s(1)] s(2)] s show ?thesis by blast
qed

text \<open>Filling the pool is idempotent: a second call, whoever makes it, opens nothing.\<close>

lemma form_pool_idempotent:
  "form_preconnect_pool (form_preconnect_pool s) = form_preconnect_pool s"
proof (cases "suspended s")
  case True
  then show ?thesis by (simp add: form_preconnect_pool_def)
next
  case False
  let ?t = "form_preconnect_pool s"
  have "quota ?t \<le> occupied ?t" using False by (simp add: occupied_form quota_def)
  then have "grown ?t = 0" by (simp add: grown_def)
  then show ?thesis by (simp only: form_closed[of ?t]) simp
qed

text \<open>C21: how TCP cuts the byte stream into data events does not matter while the socket stands: when one
  way of cutting some bytes can happen and leaves the socket undestroyed, every other way of cutting
  them can happen too and leads to the same pool, connections, timers, pipes and logs, up to the
  dead buffer of a reader that has been detached.\<close>

theorem tunnel_chunking_irrelevant:
  assumes "pool_run mac (map (Data i) cs) s = Some t" "\<not> destroyed (conns t ! i)"
    and "concat cs = concat ds" "cs \<noteq> []" "ds \<noteq> []"
  shows "\<exists>u. pool_run mac (map (Data i) ds) s = Some u \<and> forget_dead_buffer i u = forget_dead_buffer i t"
proof -
  let ?u = "foldl (\<lambda>s c. on_chunk i c s) s ds"
  have t: "t = foldl (\<lambda>s c. on_chunk i c s) s cs" using run_data assms(1) by blast
  obtain c cs' where "cs = c # cs'" using assms(4) by (cases cs) auto
  then have en: "enabled (Data i []) s" using assms(1) by (simp split: if_splits)
  then have same: "forget_dead_buffer i ?u = forget_dead_buffer i t"
    unfolding t by (intro chunking[OF _ assms(3)[symmetric] assms(5,4)]) simp
  have "destroyed (conns (forget_dead_buffer i v) ! i) = destroyed (conns v ! i)" for v
    by (auto simp: forget_dead_buffer_def nth_upd_conn)
  with same assms(2) have "\<not> destroyed (conns ?u ! i)" by metis
  with en same show ?thesis using data_run by blast
qed

theorem tunnel_chunking_irrelevant_witness:
  "\<exists>s u. pool_run zero_mac probing pool_start = Some s \<and>
    pool_run zero_mac (map (Data 0) [''PRE'', '':OK'' @ [newline] @ ''OPE'', ''N 80'' @ [newline] @ ''GET'']) s = Some u \<and>
    local_pipe (conns u ! 0) = Some \<lparr>pipe_port = 80, pipe_bytes = ''GET''\<rparr>"
proof -
  let ?one = "[''PRE:OK'' @ [newline] @ ''OPEN 80'' @ [newline] @ ''GET'']"
  let ?ds = "[''PRE'', '':OK'' @ [newline] @ ''OPE'', ''N 80'' @ [newline] @ ''GET'']"
  have "map_option (\<lambda>s. map_option (\<lambda>t. (destroyed (conns t ! 0), local_pipe (conns t ! 0)))
        (pool_run zero_mac (map (Data 0) ?one) s)) (pool_run zero_mac probing pool_start) =
      Some (Some (False, Some \<lparr>pipe_port = 80, pipe_bytes = ''GET''\<rparr>))" by code_simp
  then obtain s t where s: "pool_run zero_mac probing pool_start = Some s"
    and t: "pool_run zero_mac (map (Data 0) ?one) s = Some t" "\<not> destroyed (conns t ! 0)"
      "local_pipe (conns t ! 0) = Some \<lparr>pipe_port = 80, pipe_bytes = ''GET''\<rparr>" by auto
  obtain u where u: "pool_run zero_mac (map (Data 0) ?ds) s = Some u" "forget_dead_buffer 0 u = forget_dead_buffer 0 t"
    using tunnel_chunking_irrelevant[OF t(1,2), of ?ds] by auto
  have "local_pipe (conns u ! 0) = local_pipe (conns t ! 0)"
    using forget_pipe[of 0 u] forget_pipe[of 0 t] u(2) by simp
  with s u t(3) show ?thesis by auto
qed

text \<open>A frame that destroys the socket is the limit of this: the rest of its own chunk is still handled, so a
  \<open>PRE:OK\<close> behind a rejection puts the dead socket into the pool, which then dials nine more; in a
  data event of its own it is never read.\<close>

lemma destroyed_socket_pooled:
  "\<exists>s. pool_run zero_mac probing pool_start = Some s \<and>
    map_option (\<lambda>t. (pool t, destroyed (conns t ! 0), pending t))
      (pool_run zero_mac [Data 0 (''PRE:ERR x'' @ [newline] @ ''PRE:OK'' @ [newline])] s) = Some ([0], True, 9) \<and>
    pool_run zero_mac (map (Data 0) [''PRE:ERR x'' @ [newline], ''PRE:OK'' @ [newline]]) s = None"
proof -
  have "map_option (\<lambda>s. (map_option (\<lambda>t. (pool t, destroyed (conns t ! 0), pending t))
        (pool_run zero_mac [Data 0 (''PRE:ERR x'' @ [newline] @ ''PRE:OK'' @ [newline])] s),
      pool_run zero_mac (map (Data 0) [''PRE:ERR x'' @ [newline], ''PRE:OK'' @ [newline]]) s = None))
    (pool_run zero_mac probing pool_start) = Some (Some ([0], True, 9), True)" by code_simp
  then show ?thesis by auto
qed

text \<open>C22: a consumed connection delivers exactly the bytes behind its \<open>OPEN\<close> frame to the local
  service on the port the frame names, however frame and bytes were cut into data events.\<close>

theorem open_delivers_bytes:
  assumes "i < length (conns s)" "\<not> detached (conns s ! i)" "buffer (conns s ! i) = []"
    and "list_all is_digit a" "valid_port (string_to_num a) = Some p" "a \<noteq> []"
    and "concat cs = ''OPEN '' @ a @ newline # body" "cs \<noteq> []"
  shows "local_pipe (conns (foldl (\<lambda>s c. on_chunk i c s) s cs) ! i) =
    Some \<lparr>pipe_port = p, pipe_bytes = body\<rparr>"
proof -
  let ?d = "''OPEN '' @ a @ newline # body"
  have keep: "local_pipe (conns (forget_dead_buffer i t) ! i) = local_pipe (conns t ! i)" for t
    by (auto simp: forget_dead_buffer_def nth_upd_conn)
  have "forget_dead_buffer i (foldl (\<lambda>s c. on_chunk i c s) s cs) = forget_dead_buffer i (on_chunk i ?d s)"
    using chunking[OF assms(1), of cs "[?d]"] assms(7,8) by simp
  then have "local_pipe (conns (foldl (\<lambda>s c. on_chunk i c s) s cs) ! i) = local_pipe (conns (on_chunk i ?d s) ! i)"
    using keep by metis
  then show ?thesis using open_chunk[OF assms(1-6)] by simp
qed

theorem open_delivers_bytes_witness:
  "local_pipe (conns (on_chunk 0 ''ET /'' (on_chunk 0 (''80'' @ [newline] @ ''G'')
     (on_chunk 0 ''OPEN '' (preconnect pool_start)))) ! 0) = Some \<lparr>pipe_port = 80, pipe_bytes = ''GET /''\<rparr>"
proof -
  have d: "list_all is_digit ''80''" "valid_port (string_to_num ''80'') = Some 80" by code_simp+
  have i: "0 < length (conns (preconnect pool_start))" "\<not> detached (conns (preconnect pool_start) ! 0)"
    "buffer (conns (preconnect pool_start) ! 0) = []"
    by (simp_all add: preconnect_def pool_start_def new_conn_def)
  show ?thesis
    using open_delivers_bytes[OF i d, of "[''OPEN '', ''80'' @ [newline] @ ''G'', ''ET /'']" "''GET /''"] by simp
qed

text \<open>C23: the grouped error log loses nothing and counts nothing twice: of every kind, the number
  of recorded errors is the number printed so far plus the number held for the next summary.\<close>

theorem error_log_conserves:
  "reported_count k (log_run es new_error_log) + held_count k (log_run es new_error_log) =
    length (filter (\<lambda>e. \<exists>d. e = Some (k, d)) es)"
  unfolding reported_run by (simp add: reported_count_def held_count_def new_error_log_def jm_get_def)

end
