(* ===== verification/Js_Coerce.thy ===== *)
theory Js_Coerce
  imports Js_Values
begin

text \<open>
  \<open>Boolean\<close>, \<open>String\<close> and \<open>Number\<close> on values that come out of \<open>JSON.parse\<close>, and the nullish operators.
  Objects are taken to have no own \<open>toString\<close> or \<open>valueOf\<close>.
\<close>

fun nonzero :: "jsnum \<Rightarrow> bool" where
  "nonzero NNaN = False"
| "nonzero (NInf b) = True"
| "nonzero (NDec m e) = (m \<noteq> 0)"

fun truthy :: "jsval \<Rightarrow> bool" where
  "truthy JUndef = False"
| "truthy JNull = False"
| "truthy (JBool b) = b"
| "truthy (JNum n) = nonzero n"
| "truthy (JStr s) = (s \<noteq> [])"
| "truthy (JBigInt i) = (i \<noteq> 0)"
| "truthy _ = True"

definition nullish :: "jsval \<Rightarrow> bool" where
  "nullish v = (v = JUndef \<or> v = JNull)"

definition or_else :: "jsval \<Rightarrow> jsval \<Rightarrow> jsval" where
  "or_else v w = (if nullish v then w else v)"

fun js_string :: "jsval \<Rightarrow> string"
  and js_strings :: "jsval list \<Rightarrow> string list" where
  "js_string JUndef = ''undefined''"
| "js_string JNull = ''null''"
| "js_string (JBool b) = (if b then ''true'' else ''false'')"
| "js_string (JNum n) = num_to_string n"
| "js_string (JStr s) = s"
| "js_string (JBigInt i) = show_int i"
| "js_string (JArr a vs) = js_join '','' (js_strings vs)"
| "js_string JFun = ''function''"
| "js_string (JToJSON v) = ''[object Object]''"
| "js_string (JObj a kvs) = ''[object Object]''"
| "js_strings [] = []"
| "js_strings (v # vs) = (if nullish v then [] else js_string v) # js_strings vs"

fun js_number :: "jsval \<Rightarrow> jsnum" where
  "js_number JNull = NDec 0 0"
| "js_number (JBool b) = (if b then NDec 1 0 else NDec 0 0)"
| "js_number (JNum n) = n"
| "js_number (JStr s) = string_to_num s"
| "js_number (JArr a vs) = string_to_num (js_string (JArr a vs))"
| "js_number (JBigInt i) = num_of_int i"
| "js_number _ = NNaN"

fun str_value :: "jsval \<Rightarrow> string option" where
  "str_value (JStr s) = Some s"
| "str_value _ = None"

text \<open>Reading a member: \<open>null\<close> and \<open>undefined\<close> have none and throw.\<close>

definition member :: "jsval \<Rightarrow> string \<Rightarrow> string + jsval" where
  "member v k =
    (if nullish v then Inl ''TypeError: Cannot read properties of null'' else Inr (get_field v k))"

lemma truthy_not_nullish: "truthy v \<Longrightarrow> \<not> nullish v"
  by (cases v) (auto simp: nullish_def)

end
