(* ===== verification/Container_Status.thy ===== *)
theory Container_Status
  imports Js_Coerce
begin

text \<open>
  \<open>container-status.util.ts\<close>, \<open>docker-cli.ts\<close>, the line splitting of \<open>docker-output.util.ts\<close> and the
  Docker event subscription of \<open>docker-event.service.ts\<close>: what the agent reads off the text that
  Docker prints. \<open>parseJsonOutput\<close> is in \<open>Container_Inspect\<close>.
\<close>

section \<open>Container states\<close>

datatype container_status = Building | Starting | Running | Stopped | Failed | Removed

fun status_text :: "container_status \<Rightarrow> string" where
  "status_text Building = ''building''"
| "status_text Starting = ''starting''"
| "status_text Running = ''running''"
| "status_text Stopped = ''stopped''"
| "status_text Failed = ''failed''"
| "status_text Removed = ''removed''"

lemma status_text_inj: "status_text a = status_text b \<Longrightarrow> a = b"
  by (cases a; cases b) simp_all

definition exit_failed :: "jsnum option \<Rightarrow> bool" where
  "exit_failed exitCode = (case exitCode of None \<Rightarrow> False | Some n \<Rightarrow> nonzero n \<and> n \<noteq> NDec 0 0)"

definition or_empty :: "string option \<Rightarrow> string" where
  "or_empty s = (case s of None \<Rightarrow> [] | Some x \<Rightarrow> x)"

definition normalize_container_status ::
    "string option \<Rightarrow> jsnum option \<Rightarrow> string option \<Rightarrow> container_status" where
  "normalize_container_status state exitCode health =
    (let s = js_lower (or_empty state); h = js_lower (or_empty health)
     in if s = ''removing'' \<or> s = ''removed'' then Removed
        else if s = ''created'' \<or> s = ''restarting'' then Starting
        else if s = ''running'' then
          (if h = ''unhealthy'' then Failed else if h = ''starting'' then Starting else Running)
        else if s = ''exited'' \<or> s = ''dead'' then (if exit_failed exitCode then Failed else Stopped)
        else if s = ''paused'' then Stopped
        else Stopped)"

definition health_from_status :: "string option \<Rightarrow> string option" where
  "health_from_status status =
    (if or_empty status = [] then None
     else let l = js_lower (or_empty status)
          in if js_includes ''unhealthy'' l then Some ''unhealthy''
             else if js_includes ''health: starting'' l \<or> js_includes ''(health: starting)'' l
               then Some ''starting''
             else if js_includes ''healthy'' l then Some ''healthy''
             else None)"

text \<open>\<open>label.split('=')\<close> is never empty, so its head and tail are the key and the value's pieces.\<close>

definition label_entry :: "string \<Rightarrow> string \<times> string" where
  "label_entry l = (let w = split_on (CHR ''='') l in (hd w, js_join ''='' (tl w)))"

definition from_entries :: "(string \<times> 'v) list \<Rightarrow> (string \<times> 'v) list" where
  "from_entries es = fold (\<lambda>(k, v) o'. obj_define k v o') es []"

definition labels_to_record :: "string option \<Rightarrow> (string \<times> string) list" where
  "labels_to_record labels =
    (if or_empty labels = [] then []
     else from_entries
       (filter (\<lambda>e. fst e \<noteq> []) (map label_entry (split_on (CHR '','') (or_empty labels)))))"

section \<open>The environment of a child process\<close>

definition reserved_env :: "string list" where
  "reserved_env = [''PORT'', ''SERVER_PORT'', ''HUB_URL'', ''CENTRAL_SERVER_URL'', ''OPTICS_SOURCE_URL'',
     ''REMOTE_DOCKER_HOST'', ''REMOTE_DOCKER_PORT'', ''DATABASE_URL'', ''CORS_ORIGIN'']"

definition subprocess_env :: "(string \<times> string) list \<Rightarrow> (string \<times> string) list" where
  "subprocess_env process_env =
    fold (\<lambda>(key, val) cleaned.
        if key \<notin> set reserved_env \<and> \<not> starts_with key ''OPTICS_'' then obj_assign key val cleaned
        else cleaned)
      process_env []"

section \<open>Terminal escapes and lines\<close>

definition esc :: char where
  "esc = CHR 0x1B"

text \<open>\<open>[@-Z\\-_]\<close>, \<open>[0-?]\<close>, \<open>[ -/]\<close> and \<open>[@-~]\<close> of the pattern in \<open>stripAnsi\<close>\<close>

definition is_esc_single :: "char \<Rightarrow> bool" where
  "is_esc_single c = ((64 \<le> code c \<and> code c \<le> 90) \<or> (92 \<le> code c \<and> code c \<le> 95))"

definition is_csi_param :: "char \<Rightarrow> bool" where
  "is_csi_param c = (48 \<le> code c \<and> code c \<le> 63)"

definition is_csi_inter :: "char \<Rightarrow> bool" where
  "is_csi_inter c = (32 \<le> code c \<and> code c \<le> 47)"

definition is_csi_final :: "char \<Rightarrow> bool" where
  "is_csi_final c = (64 \<le> code c \<and> code c \<le> 126)"

text \<open>What is left after the escape sequence that starts at an escape character, if one does.\<close>

definition csi_rest :: "string \<Rightarrow> string option" where
  "csi_rest s =
    (case dropWhile is_csi_inter (dropWhile is_csi_param s) of
       [] \<Rightarrow> None
     | c # r \<Rightarrow> if is_csi_final c then Some r else None)"

definition escape_rest :: "string \<Rightarrow> string option" where
  "escape_rest s =
    (case s of
       [] \<Rightarrow> None
     | c # r \<Rightarrow> if is_esc_single c then Some r else if c = CHR ''['' then csi_rest r else None)"

lemma csi_rest_shorter: "csi_rest s = Some r \<Longrightarrow> length r < length s"
proof -
  assume r: "csi_rest s = Some r"
  let ?d = "dropWhile is_csi_inter (dropWhile is_csi_param s)"
  have "length r < length ?d" using r by (auto simp: csi_rest_def split: list.splits if_splits)
  also have "\<dots> \<le> length s" by (meson le_trans length_dropWhile_le)
  finally show ?thesis .
qed

lemma escape_rest_shorter: "escape_rest s = Some r \<Longrightarrow> length r < length s"
  using csi_rest_shorter by (auto simp: escape_rest_def less_SucI split: list.splits if_splits)

function strip_ansi :: "string \<Rightarrow> string" where
  "strip_ansi [] = []"
| "strip_ansi (c # cs) =
    (case (if c = esc then escape_rest cs else None) of
       Some r \<Rightarrow> strip_ansi r
     | None \<Rightarrow> c # strip_ansi cs)"
  by pat_completeness auto

termination
  by (relation "measure length") (auto dest: escape_rest_shorter split: if_splits)

text \<open>\<open>text.split(/\r?\n|\r/)\<close>\<close>

definition lf :: char where "lf = CHR 0x0A"
definition cr :: char where "cr = CHR 0x0D"

fun drop_lf :: "string \<Rightarrow> string" where
  "drop_lf [] = []"
| "drop_lf (c # cs) = (if c = lf then cs else c # cs)"

lemma length_drop_lf: "length (drop_lf s) \<le> length s"
  by (cases s) auto

function split_lines :: "string \<Rightarrow> string list" where
  "split_lines [] = [[]]"
| "split_lines (c # cs) =
    (if c = cr then [] # split_lines (drop_lf cs)
     else if c = lf then [] # split_lines cs
     else (case split_lines cs of [] \<Rightarrow> [[c]] | w # ws \<Rightarrow> (c # w) # ws))"
  by pat_completeness auto

termination
  by (relation "measure length") (auto simp: le_imp_less_Suc length_drop_lf)

text \<open>A chunk is the text its bytes decode to.\<close>

definition output_lines :: "string \<Rightarrow> string list" where
  "output_lines chunk =
    filter (\<lambda>l. l \<noteq> []) (map (\<lambda>l. js_trim (strip_ansi l)) (split_lines chunk))"

section \<open>Docker events\<close>

record docker_event =
  ev_type :: string
  ev_action :: string
  ev_time :: "jsnum option"
  ev_time_nano :: "jsnum option"
  ev_attributes :: "(string \<times> string) list"

record status_event =
  se_status :: string
  se_container :: string
  se_timestamp :: int
  se_action :: string
  se_exit :: "string option"

text \<open>
  A time stamp is kept as its milliseconds. \<open>time_clip\<close> is what \<open>new Date\<close> makes of a number: it drops
  the fraction, and out of range gives an invalid date, on which \<open>toISOString\<close> throws. The event's
  times are finite numbers: JSON has no others.
\<close>

definition time_clip :: "rat \<Rightarrow> int option" where
  "time_clip r =
    (if \<bar>r\<bar> \<le> 8640000000000000 then Some (if 0 \<le> r then \<lfloor>r\<rfloor> else \<lceil>r\<rceil>) else None)"

definition truthy_time :: "jsnum option \<Rightarrow> rat option" where
  "truthy_time t = (case t of None \<Rightarrow> None | Some n \<Rightarrow> if nonzero n then Some (num_val n) else None)"

definition event_time :: "int \<Rightarrow> docker_event \<Rightarrow> int option" where
  "event_time now e =
    (case truthy_time (ev_time_nano e) of
       Some n \<Rightarrow> time_clip (of_int \<lfloor>n / 1000000\<rfloor>)
     | None \<Rightarrow> (case truthy_time (ev_time e) of
                  Some t \<Rightarrow> time_clip (t * 1000)
                | None \<Rightarrow> time_clip (of_int now)))"

definition attribute :: "docker_event \<Rightarrow> string \<Rightarrow> string \<Rightarrow> string" where
  "attribute e k dflt = (case map_of (ev_attributes e) k of None \<Rightarrow> dflt | Some v \<Rightarrow> v)"

text \<open>\<open>None\<close>: no status event, because the action is not one of those or the date is invalid.\<close>

definition to_status_event :: "int \<Rightarrow> docker_event \<Rightarrow> status_event option" where
  "to_status_event now e =
    (case event_time now e of
       None \<Rightarrow> None
     | Some timestamp \<Rightarrow>
         let name = attribute e ''name'' []; action = ev_action e;
             ev = (\<lambda>status code. Some \<lparr>se_status = status, se_container = name,
                     se_timestamp = timestamp, se_action = action, se_exit = code\<rparr>)
         in if action \<in> {''die'', ''stop'', ''kill''} then
              (let exitCode = attribute e ''exitCode'' ''0''
               in ev (if exitCode \<noteq> ''0'' then ''failed'' else ''stopped'') (Some exitCode))
            else if action = ''create'' then ev ''starting'' None
            else if action = ''start'' then ev ''running'' None
            else if action = ''restart'' then ev ''restarting'' None
            else if action = ''destroy'' then ev ''removed'' None
            else None)"

text \<open>
  The \<open>data\<close> callback of the subscription: \<open>parse\<close> is \<open>JSON.parse\<close> on the chunk followed by the
  field accesses, \<open>None\<close> when one of them throws. The result is what the registered callback gets.
\<close>

definition on_docker_chunk ::
    "(string \<Rightarrow> docker_event option) \<Rightarrow> bool \<Rightarrow> int \<Rightarrow> string \<Rightarrow> status_event option" where
  "on_docker_chunk parse registered now chunk =
    (case parse chunk of
       None \<Rightarrow> None
     | Some e \<Rightarrow> if ev_type e \<noteq> ''container'' then None
                  else if \<not> registered then None
                  else to_status_event now e)"

section \<open>Lines\<close>

lemma split_lines_nonempty [simp]: "split_lines s \<noteq> []"
  by (cases s) (auto split: list.splits)

lemma split_lines_plain: "w \<in> set (split_lines s) \<Longrightarrow> lf \<notin> set w \<and> cr \<notin> set w"
proof (induction s arbitrary: w rule: split_lines.induct)
  case (2 c cs)
  obtain v vs where v: "split_lines cs = v # vs" by (cases "split_lines cs") auto
  consider "c = cr" | "c = lf" "c \<noteq> cr" | "c \<noteq> cr" "c \<noteq> lf" by blast
  then show ?case
  proof cases
    case 3
    with 2 v show ?thesis by auto
  qed (use 2 in auto)
qed simp

lemma split_lines_lf: "split_lines (s @ lf # t) =
    (if s \<noteq> [] \<and> last s = cr then butlast (split_lines s) @ split_lines t
     else split_lines s @ split_lines t)"
proof (induction s rule: split_lines.induct)
  case 1
  have "lf \<noteq> cr" by (simp add: lf_def cr_def)
  then show ?case by simp
next
  case (2 c cs)
  show ?case
  proof (cases "c = cr")
    case True
    show ?thesis
    proof (cases cs)
      case Nil
      then show ?thesis using True by simp
    next
      case (Cons d ds)
      have nl: "lf \<noteq> cr" by (simp add: lf_def cr_def)
      show ?thesis
      proof (cases "d = lf")
        case d: True
        have ih: "split_lines (ds @ lf # t) = (if ds \<noteq> [] \<and> last ds = cr then butlast (split_lines ds) @ split_lines t
            else split_lines ds @ split_lines t)" using 2(1) True Cons d by simp
        show ?thesis using ih True Cons d nl by auto
      next
        case d: False
        have step: "split_lines (cr # d # xs) = [] # split_lines (d # xs)" for xs
          using d by (subst split_lines.simps(2)) (simp del: split_lines.simps(2))
        have ih: "split_lines ((d # ds) @ lf # t) = (if last (d # ds) = cr
            then butlast (split_lines (d # ds)) @ split_lines t else split_lines (d # ds) @ split_lines t)"
          using 2(1) True Cons d by (simp del: split_lines.simps(2))
        have "split_lines (c # cs @ lf # t) = [] # split_lines ((d # ds) @ lf # t)"
          using step[of "ds @ lf # t"] True Cons by (simp del: split_lines.simps(2))
        then show ?thesis using ih step[of ds] True Cons by (simp del: split_lines.simps(2))
      qed
    qed
  next
    case False
    show ?thesis
    proof (cases "c = lf")
      case True
      then show ?thesis using 2(2) False by auto
    next
      case c: False
      note ih = 2(3)[OF False c]
      obtain v vs where v: "split_lines cs = v # vs" by (cases "split_lines cs") auto
      show ?thesis
      proof (cases "cs \<noteq> [] \<and> last cs = cr")
        case True
        then have "vs \<noteq> []"
        proof -
          have "length (split_lines (xs @ [cr])) \<ge> 2" for xs
          proof (induction xs rule: split_lines.induct)
            case (2 x xs)
            then show ?case by (cases xs) (auto split: list.splits)
          qed simp
          moreover have "butlast cs @ [cr] = cs" using True append_butlast_last_id by metis
          ultimately have "length (split_lines cs) \<ge> 2" by metis
          with v show ?thesis by auto
        qed
        with ih True v False c show ?thesis by auto
      next
        case cs: False
        with ih v False c show ?thesis by auto
      qed
    qed
  qed
qed

lemma last_split_lines: "s \<noteq> [] \<Longrightarrow> last s = cr \<Longrightarrow> last (split_lines s) = []"
proof (induction s rule: split_lines.induct)
  case (2 c cs)
  have nl: "lf \<noteq> cr" by (simp add: lf_def cr_def)
  show ?case
  proof (cases cs)
    case Nil
    with 2 show ?thesis by simp
  next
    case (Cons d ds)
    then have l: "last cs = cr" using 2 by simp
    consider "c = cr" | "c = lf" "c \<noteq> cr" | "c \<noteq> cr" "c \<noteq> lf" by blast
    then show ?thesis
    proof cases
      case 1
      have "drop_lf cs \<noteq> [] \<and> last (drop_lf cs) = cr" using Cons l nl by (cases ds) auto
      then show ?thesis using 2(1) 1 by simp
    next
      case c: 2
      then show ?thesis using 2(2) Cons l by simp
    next
      case c: 3
      obtain v vs where v: "split_lines cs = v # vs" by (cases "split_lines cs") auto
      have "last (split_lines cs) = []" using 2(3) c Cons l by simp
      moreover have "vs \<noteq> [] \<or> v = []" using calculation v by auto
      moreover have "vs \<noteq> []"
      proof (rule ccontr)
        assume "\<not> vs \<noteq> []"
        then have "split_lines cs = [[]]" using calculation v by simp
        then show False using Cons l nl
          by (cases "d = cr \<or> d = lf") (auto split: list.splits)
      qed
      ultimately show ?thesis using v c by simp
    qed
  qed
qed simp

lemma output_lines_lf: "output_lines (s @ lf # t) = output_lines s @ output_lines t"
proof (cases "s \<noteq> [] \<and> last s = cr")
  case True
  define ws where "ws = butlast (split_lines s)"
  have "split_lines s = ws @ [last (split_lines s)]" by (simp add: ws_def)
  also have "last (split_lines s) = []" using last_split_lines True by simp
  finally have s: "split_lines s = ws @ [[]]" .
  have "split_lines (s @ lf # t) = ws @ split_lines t" using split_lines_lf[of s t] True by (simp add: ws_def)
  with s show ?thesis by (simp add: output_lines_def)
next
  case False
  then have "split_lines (s @ lf # t) = split_lines s @ split_lines t" using split_lines_lf[of s t] by auto
  then show ?thesis by (simp add: output_lines_def)
qed

lemma set_csi_rest: "csi_rest s = Some r \<Longrightarrow> set r \<subseteq> set s"
proof -
  assume r: "csi_rest s = Some r"
  let ?d = "dropWhile is_csi_inter (dropWhile is_csi_param s)"
  have "set r \<subseteq> set ?d" using r by (auto simp: csi_rest_def split: list.splits if_splits)
  also have "\<dots> \<subseteq> set s" by (meson set_dropWhileD subsetI)
  finally show ?thesis .
qed

lemma set_escape_rest: "escape_rest s = Some r \<Longrightarrow> set r \<subseteq> set s"
  using set_csi_rest by (cases s) (auto simp: escape_rest_def split: if_splits)

lemma strip_ansi_subset: "set (strip_ansi s) \<subseteq> set s"
proof (induction s rule: strip_ansi.induct)
  case (2 c cs)
  show ?case
  proof (cases "if c = esc then escape_rest cs else None")
    case None
    then show ?thesis using 2(1) by auto
  next
    case (Some r)
    then have "set (strip_ansi r) \<subseteq> set r" using 2(2) by blast
    moreover have "set r \<subseteq> set cs" using Some set_escape_rest by (simp split: if_splits)
    ultimately show ?thesis using Some by auto
  qed
qed simp

lemma js_trim_subset: "set (js_trim s) \<subseteq> set s"
  by (auto simp: js_trim_def dest!: set_dropWhileD)

lemma output_lines_plain: "l \<in> set (output_lines s) \<Longrightarrow> l \<noteq> [] \<and> lf \<notin> set l \<and> cr \<notin> set l"
  using strip_ansi_subset js_trim_subset split_lines_plain by (fastforce simp: output_lines_def)

section \<open>Labels\<close>

lemma from_entries_id:
  assumes "distinct (map fst es)" "\<forall>e \<in> set es. \<not> is_index (fst e)"
  shows "from_entries es = es"
proof -
  have "fold (\<lambda>(k, v) o'. obj_define k v o') es acc = acc @ es"
    if "distinct (map fst (acc @ es))" for acc
    using that assms(2)
  proof (induction es arbitrary: acc)
    case (Cons e es)
    have "map_of acc (fst e) = None" using Cons(2) by (auto simp: map_of_eq_None_iff)
    then have "obj_define (fst e) (snd e) acc = acc @ [e]" using Cons(3) by (simp add: obj_define_def)
    then show ?case using Cons(1)[of "acc @ [e]"] Cons(2,3) by (simp add: case_prod_beta)
  qed simp
  from this[of "[]"] assms(1) show ?thesis by (simp add: from_entries_def)
qed

definition label_text :: "string \<times> string \<Rightarrow> string" where
  "label_text e = fst e @ CHR ''='' # snd e"

lemma label_entry_text: "CHR ''='' \<notin> set (fst e) \<Longrightarrow> label_entry (label_text e) = e"
  by (simp add: label_entry_def label_text_def split_on_app join_split_on)

text \<open>Labels Docker can print without ambiguity: no comma anywhere, no equals sign in a key.\<close>

definition plain_label :: "string \<times> string \<Rightarrow> bool" where
  "plain_label e = (fst e \<noteq> [] \<and> CHR ''='' \<notin> set (fst e) \<and> CHR '','' \<notin> set (fst e) \<and>
     CHR '','' \<notin> set (snd e) \<and> \<not> is_index (fst e))"

text \<open>The labels of a container, printed as Docker prints them, are read back exactly, values holding
  equals signs included.\<close>

lemma labels_roundtrip:
  assumes "es \<noteq> []" "list_all plain_label es" "distinct (map fst es)"
  shows "labels_to_record (Some (js_join '','' (map label_text es))) = es"
proof -
  have split: "split_on (CHR '','') (js_join '','' (map label_text es)) = map label_text es"
    using assms(1,2) by (intro split_on_join) (auto simp: list_all_iff plain_label_def label_text_def)
  have entries: "map label_entry (map label_text es) = es"
    unfolding map_map using assms(2) by (intro map_idI) (simp add: list_all_iff plain_label_def label_entry_text)
  have "filter (\<lambda>e. fst e \<noteq> []) es = es" using assms(2) by (simp add: list_all_iff plain_label_def)
  moreover have "from_entries es = es"
    using assms(2,3) by (intro from_entries_id) (auto simp: list_all_iff plain_label_def)
  moreover have "js_join '','' (map label_text es) \<noteq> []"
  proof
    assume "js_join '','' (map label_text es) = []"
    with split have "map label_text es = [[]]" by simp
    then show False by (auto simp: label_text_def)
  qed
  ultimately show ?thesis unfolding labels_to_record_def or_empty_def using split entries by simp
qed

lemma labels_roundtrip_example:
  "labels_to_record (Some ''com.docker.compose.service=web,opts=a=b'') =
     [(''com.docker.compose.service'', ''web''), (''opts'', ''a=b'')]"
proof -
  have "list_all plain_label [(''com.docker.compose.service'', ''web''), (''opts'', ''a=b'')]" by code_simp
  then show ?thesis
    using labels_roundtrip[of "[(''com.docker.compose.service'', ''web''), (''opts'', ''a=b'')]"]
    by (simp add: label_text_def)
qed

text \<open>Cutting the output of a command after a line break does not change the lines it is split
  into, and every line is free of line breaks and not blank; cut inside a line, it becomes two.\<close>

lemma output_lines_chunks:
  "output_lines (s @ lf # t) = output_lines s @ output_lines t \<and>
   list_all (\<lambda>l. l \<noteq> [] \<and> lf \<notin> set l \<and> cr \<notin> set l) (output_lines s) \<and>
   output_lines ''pulling'' = [''pulling''] \<and>
   output_lines ''pul'' @ output_lines ''ling'' = [''pul'', ''ling'']"
proof -
  have "output_lines ''pulling'' = [''pulling'']"
    and "output_lines ''pul'' @ output_lines ''ling'' = [''pul'', ''ling'']" by code_simp+
  then show ?thesis using output_lines_lf output_lines_plain by (simp add: list_all_iff)
qed

end
