(* ===== verification/Agent_Ops.thy ===== *)
theory Agent_Ops
  imports Container_Status
begin

text \<open>
  The language the services are modelled in. An operation runs against an environment that answers
  every call that leaves the agent (Docker, the database, the file system, the clock); the answer
  may depend on everything done so far. It returns a result or throws, updates the agent's state
  and appends what it did to a trace. An exception is kept as the text \<open>String(e)\<close> gives. One
  operation runs at a time: what other handlers do while it waits is not part of its trace.
\<close>

section \<open>Payloads\<close>

text \<open>A service index is whatever JSON value the Hub sent; a validated one is an integer.\<close>

type_synonym index = jsval

text \<open>\<open>DockerLogEntry\<close> and the \<open>service-log\<close> payloads. Time stamps are milliseconds.\<close>

record log_entry =
  le_line :: string
  le_time :: "int option"
  le_source :: "string option"
  le_stream :: "string option"
  le_container :: "string option"
  le_service :: "string option"
  le_stderr :: bool

text \<open>\<open>ContainerState\<close>; an absent and a \<open>null\<close> exit code or health are one.\<close>

record container_state =
  cs_name :: string
  cs_status :: container_status
  cs_service :: "string option"
  cs_exit :: "jsnum option"
  cs_health :: "string option"

record snapshot =
  sn_index :: index
  sn_containers :: "container_state list"
  sn_running :: nat
  sn_total :: nat

text \<open>A row of \<open>serviceLogSessionMarker\<close> and the marker sent to the Hub\<close>

record marker =
  mk_index :: index
  mk_service :: string
  mk_container :: string
  mk_event :: string
  mk_time :: int

record progress =
  pr_loaded :: nat
  pr_total :: nat
  pr_percent :: nat
  pr_phase :: string

text \<open>What a service hands to the \<open>emit\<close> callback it was given.\<close>

datatype service_event = EvLog index log_entry | EvStatus index string

datatype hub_payload =
    PLog index log_entry
  | PStatus index string
  | PMarkers index "marker list"
  | PSnapshot snapshot
  | PProgress index progress
  | PHistory index "jsval option" "log_entry list" "marker list option" bool
  | PResponse jsval

section \<open>Effects\<close>

datatype engine_call =
    EStart string | EStop string | ERestart string | EInspect string | ERemove string
  | ERemoveImage string
  | EBuild string string | EFollow string
  | ECreate string string "string list option" "(string \<times> string) list"

datatype fs_call =
    FsRemove string | FsMkdir string | FsExists string | FsIsDirectory string
  | FsWrite string string | FsChmod string | FsReadDir string

datatype db_call =
    DbFindMarker index string string int int
  | DbCreateMarker marker
  | DbFindMarkers index "int option" jsnum
  | DbDeleteMarkers index
  | DbSetStatus index string int
  | DbDeleteService index

datatype effect =
    Hub string hub_payload
  | GatewayStatus index string
  | GatewayLog index log_entry
  | CliRun "string list" "string option"
  | CliSync "string list" "string option"
  | CliStream "string list" nat
  | CliKill nat
  | Engine engine_call
  | Fs fs_call
  | Db db_call
  | Disconnect

type_synonym trace = "effect list"

text \<open>How a child process ended: closed with a code (none when a signal ended it), or not started.\<close>

datatype cli_end = Closed "int option" | NotStarted string

record sync_result =
  sy_status :: "int option"
  sy_stdout :: string
  sy_stderr :: string

text \<open>
  The environment. Each answer is a function of the trace, whose last element is the call that is
  being answered.
\<close>

record env =
  en_now :: "trace \<Rightarrow> int"
  en_cli :: "trace \<Rightarrow> string list \<times> cli_end"
  en_sync :: "trace \<Rightarrow> sync_result"
  en_engine :: "trace \<Rightarrow> string option"
  en_running :: "trace \<Rightarrow> bool"
  en_build :: "trace \<Rightarrow> (string option \<times> string option) list"
  en_fs :: "trace \<Rightarrow> string option"
  en_test :: "trace \<Rightarrow> bool"
  en_files :: "trace \<Rightarrow> string list"
  en_db :: "trace \<Rightarrow> string option"
  en_marker :: "trace \<Rightarrow> marker option"
  en_markers :: "trace \<Rightarrow> marker list"

section \<open>Operations\<close>

type_synonym ('s, 'a) op = "env \<Rightarrow> 's \<Rightarrow> trace \<Rightarrow> (string + 'a) \<times> 's \<times> trace"

definition ret :: "'a \<Rightarrow> ('s, 'a) op" where
  "ret x = (\<lambda>env s tr. (Inr x, s, tr))"

definition throw :: "string \<Rightarrow> ('s, 'a) op" where
  "throw e = (\<lambda>env s tr. (Inl e, s, tr))"

definition bind_op :: "('s, 'a) op \<Rightarrow> ('a \<Rightarrow> ('s, 'b) op) \<Rightarrow> ('s, 'b) op" where
  "bind_op m f = (\<lambda>env s tr.
     (case m env s tr of
        (Inl e, s', tr') \<Rightarrow> (Inl e, s', tr')
      | (Inr x, s', tr') \<Rightarrow> f x env s' tr'))"

definition then_op :: "('s, unit) op \<Rightarrow> ('s, 'b) op \<Rightarrow> ('s, 'b) op" where
  "then_op m n = bind_op m (\<lambda>_. n)"

text \<open>\<open>try \<dots> catch (e) \<dots>\<close>\<close>

definition try_op :: "('s, 'a) op \<Rightarrow> (string \<Rightarrow> ('s, 'a) op) \<Rightarrow> ('s, 'a) op" where
  "try_op m h = (\<lambda>env s tr.
     (case m env s tr of
        (Inl e, s', tr') \<Rightarrow> h e env s' tr'
      | (Inr x, s', tr') \<Rightarrow> (Inr x, s', tr')))"

definition perform :: "effect \<Rightarrow> ('s, unit) op" where
  "perform e = (\<lambda>env s tr. (Inr (), s, tr @ [e]))"

definition ask :: "(env \<Rightarrow> trace \<Rightarrow> 'a) \<Rightarrow> ('s, 'a) op" where
  "ask q = (\<lambda>env s tr. (Inr (q env tr), s, tr))"

definition gets :: "('s \<Rightarrow> 'a) \<Rightarrow> ('s, 'a) op" where
  "gets f = (\<lambda>env s tr. (Inr (f s), s, tr))"

definition modify :: "('s \<Rightarrow> 's) \<Rightarrow> ('s, unit) op" where
  "modify f = (\<lambda>env s tr. (Inr (), f s, tr))"

text \<open>Statements one after the other, and a loop over a list\<close>

fun block :: "('s, unit) op list \<Rightarrow> ('s, unit) op" where
  "block [] = ret ()"
| "block (m # ms) = then_op m (block ms)"

fun for_each :: "'a list \<Rightarrow> ('a \<Rightarrow> ('s, unit) op) \<Rightarrow> ('s, unit) op" where
  "for_each [] f = ret ()"
| "for_each (x # xs) f = then_op (f x) (for_each xs f)"

definition when_op :: "bool \<Rightarrow> ('s, unit) op \<Rightarrow> ('s, unit) op" where
  "when_op b m = (if b then m else ret ())"

definition throw_if :: "string option \<Rightarrow> ('s, unit) op" where
  "throw_if e = (case e of None \<Rightarrow> ret () | Some m \<Rightarrow> throw m)"

section \<open>Calls that leave the agent\<close>

definition engine :: "engine_call \<Rightarrow> ('s, unit) op" where
  "engine c = then_op (perform (Engine c)) (bind_op (ask en_engine) throw_if)"

definition db_call :: "db_call \<Rightarrow> ('s, unit) op" where
  "db_call c = then_op (perform (Db c)) (bind_op (ask en_db) throw_if)"

definition fs_do :: "fs_call \<Rightarrow> ('s, unit) op" where
  "fs_do c = then_op (perform (Fs c)) (bind_op (ask en_fs) throw_if)"

definition fs_test :: "fs_call \<Rightarrow> ('s, bool) op" where
  "fs_test c = then_op (perform (Fs c)) (ask en_test)"

definition run_sync :: "string list \<Rightarrow> string option \<Rightarrow> ('s, sync_result) op" where
  "run_sync args cwd = then_op (perform (CliSync args cwd)) (ask en_sync)"

definition emit_output_lines :: "string \<Rightarrow> (string \<Rightarrow> ('s, unit) op) \<Rightarrow> ('s, unit) op" where
  "emit_output_lines chunk sendLog = for_each (output_lines chunk) sendLog"

definition code_text :: "int option \<Rightarrow> string" where
  "code_text c = (case c of None \<Rightarrow> ''null'' | Some n \<Rightarrow> show_int n)"

definition js_err :: "string \<Rightarrow> string" where
  "js_err m = ''Error: '' @ m"

text \<open>\<open>DockerCli.run\<close>: every caller passes \<open>onLine\<close>.\<close>

definition run_cli ::
    "string list \<Rightarrow> string \<Rightarrow> string option \<Rightarrow> (string \<Rightarrow> ('s, unit) op) \<Rightarrow> bool \<Rightarrow> ('s, unit) op" where
  "run_cli args label cwd onLine ignoreExitCode =
    then_op (perform (CliRun args cwd))
      (bind_op (ask en_cli) (\<lambda>(chunks, fin).
        then_op (for_each chunks (\<lambda>chunk. emit_output_lines chunk onLine))
          (case fin of
             NotStarted err \<Rightarrow>
               if ignoreExitCode then onLine (''[DockerCli] '' @ label @ '' failed to start: '' @ err)
               else throw err
           | Closed ec \<Rightarrow>
               if ec = Some 0 \<or> ignoreExitCode then ret ()
               else throw (js_err (label @ '' exited with code '' @ code_text ec)))))"

section \<open>Emitters\<close>

text \<open>\<open>emitters.ts\<close>: \<open>sendLog\<close> and \<open>sendStatus\<close> over the callback of the caller.\<close>

definition send_log ::
    "(service_event \<Rightarrow> ('s, unit) op) \<Rightarrow> index \<Rightarrow> string \<Rightarrow> string \<Rightarrow> string \<Rightarrow> ('s, unit) op" where
  "send_log emit idx container stream line =
    bind_op (ask en_now) (\<lambda>now.
      emit (EvLog idx
        \<lparr>le_line = line, le_time = Some now, le_source = Some ''agent'', le_stream = Some stream,
         le_container = Some container, le_service = None, le_stderr = False\<rparr>))"

definition send_status :: "(service_event \<Rightarrow> ('s, unit) op) \<Rightarrow> index \<Rightarrow> string \<Rightarrow> ('s, unit) op" where
  "send_status emit idx status = emit (EvStatus idx status)"

text \<open>\<open>deployPreset.toUpperCase()\<close>; a preset that is not a string has no such method.\<close>

definition preset_upper :: "jsval \<Rightarrow> ('s, string) op" where
  "preset_upper p =
    (case p of JStr s \<Rightarrow> ret (js_upper s)
     | _ \<Rightarrow> throw ''TypeError: deployPreset.toUpperCase is not a function'')"

definition is_compose_preset :: "jsval \<Rightarrow> ('s, bool) op" where
  "is_compose_preset p = bind_op (preset_upper p) (\<lambda>u. ret (u \<noteq> ''DOCKERFILE''))"

section \<open>Running\<close>

lemma run_ret [simp]: "ret x env s tr = (Inr x, s, tr)"
  by (simp add: ret_def)

lemma run_throw [simp]: "throw e env s tr = (Inl e, s, tr)"
  by (simp add: throw_def)

lemma run_perform [simp]: "perform e env s tr = (Inr (), s, tr @ [e])"
  by (simp add: perform_def)

lemma run_ask [simp]: "ask q env s tr = (Inr (q env tr), s, tr)"
  by (simp add: ask_def)

lemma run_gets [simp]: "gets f env s tr = (Inr (f s), s, tr)"
  by (simp add: gets_def)

lemma run_modify [simp]: "modify f env s tr = (Inr (), f s, tr)"
  by (simp add: modify_def)

lemma run_bind:
  "bind_op m f env s tr =
    (case m env s tr of (Inl e, s', tr') \<Rightarrow> (Inl e, s', tr') | (Inr x, s', tr') \<Rightarrow> f x env s' tr')"
  by (simp add: bind_op_def)

lemma run_bind_Inr [simp]: "m env s tr = (Inr x, s', tr') \<Longrightarrow> bind_op m f env s tr = f x env s' tr'"
  by (simp add: run_bind)

lemma run_bind_Inl [simp]: "m env s tr = (Inl e, s', tr') \<Longrightarrow> bind_op m f env s tr = (Inl e, s', tr')"
  by (simp add: run_bind)

lemma run_then_Inr [simp]: "m env s tr = (Inr x, s', tr') \<Longrightarrow> then_op m n env s tr = n env s' tr'"
  by (simp add: then_op_def)

lemma run_then_Inl [simp]: "m env s tr = (Inl e, s', tr') \<Longrightarrow> then_op m n env s tr = (Inl e, s', tr')"
  by (simp add: then_op_def)

lemma run_try_Inr [simp]: "m env s tr = (Inr x, s', tr') \<Longrightarrow> try_op m h env s tr = (Inr x, s', tr')"
  by (simp add: try_op_def)

lemma run_try_Inl [simp]: "m env s tr = (Inl e, s', tr') \<Longrightarrow> try_op m h env s tr = h e env s' tr'"
  by (simp add: try_op_def)

section \<open>Contracts\<close>

text \<open>
  What an operation promises: it keeps an invariant of the state, extends the trace by effects of
  a class, throws only exceptions of a class and returns only results of a class. The rules follow
  the combinators, so a component's contract is an application of \<open>intro contracts\<close>.
\<close>

definition contract ::
    "('s \<Rightarrow> bool) \<Rightarrow> (effect \<Rightarrow> bool) \<Rightarrow> (string \<Rightarrow> bool) \<Rightarrow> ('a \<Rightarrow> bool) \<Rightarrow> ('s, 'a) op \<Rightarrow> bool" where
  "contract I P E Q m = (\<forall>env s tr. I s \<longrightarrow>
     (case m env s tr of (r, s', tr') \<Rightarrow>
        I s' \<and> (\<exists>new. tr' = tr @ new \<and> list_all P new) \<and> (case r of Inl e \<Rightarrow> E e | Inr x \<Rightarrow> Q x)))"

named_theorems contracts "contracts of operations, following their structure"

lemma contractI:
  assumes "\<And>env s tr r s' tr'. I s \<Longrightarrow> m env s tr = (r, s', tr') \<Longrightarrow>
    I s' \<and> (\<exists>new. tr' = tr @ new \<and> list_all P new) \<and> (case r of Inl e \<Rightarrow> E e | Inr x \<Rightarrow> Q x)"
  shows "contract I P E Q m"
  unfolding contract_def using assms by (auto split: prod.split)

lemma contractD:
  assumes "contract I P E Q m" "I s" "m env s tr = (r, s', tr')"
  shows "I s' \<and> (\<exists>new. tr' = tr @ new \<and> list_all P new) \<and> (case r of Inl e \<Rightarrow> E e | Inr x \<Rightarrow> Q x)"
proof -
  have "case m env s tr of (r, s', tr') \<Rightarrow>
      I s' \<and> (\<exists>new. tr' = tr @ new \<and> list_all P new) \<and> (case r of Inl e \<Rightarrow> E e | Inr x \<Rightarrow> Q x)"
    using assms(1)[unfolded contract_def, rule_format, OF assms(2)] .
  then show ?thesis by (simp only: assms(3) prod.case)
qed

lemma contract_ret [contracts]: "Q x \<Longrightarrow> contract I P E Q (ret x)"
  by (rule contractI) auto

lemma contract_throw [contracts]: "E e \<Longrightarrow> contract I P E Q (throw e)"
  by (rule contractI) auto

lemma contract_perform [contracts]: "P e \<Longrightarrow> Q () \<Longrightarrow> contract I P E Q (perform e)"
  by (rule contractI) auto

lemma contract_ask: "(\<And>env tr. Q (q env tr)) \<Longrightarrow> contract I P E Q (ask q)"
  by (rule contractI) auto

lemma contract_gets: "(\<And>s. I s \<Longrightarrow> Q (f s)) \<Longrightarrow> contract I P E Q (gets f)"
  by (rule contractI) auto

lemma contract_modify [contracts]: "(\<And>s. I s \<Longrightarrow> I (f s)) \<Longrightarrow> Q () \<Longrightarrow> contract I P E Q (modify f)"
  by (rule contractI) auto

lemma contract_bind:
  assumes "contract I P E Q m" "\<And>x. Q x \<Longrightarrow> contract I P E R (f x)"
  shows "contract I P E R (bind_op m f)"
proof (rule contractI)
  fix env s tr r s' tr'
  assume s: "I s" and run: "bind_op m f env s tr = (r, s', tr')"
  obtain r1 s1 tr1 where m: "m env s tr = (r1, s1, tr1)" by (cases "m env s tr") auto
  note c = contractD[OF assms(1) s m]
  show "I s' \<and> (\<exists>new. tr' = tr @ new \<and> list_all P new) \<and> (case r of Inl e \<Rightarrow> E e | Inr x \<Rightarrow> R x)"
  proof (cases r1)
    case (Inl e)
    then show ?thesis using run m c by auto
  next
    case (Inr x)
    then have "f x env s1 tr1 = (r, s', tr')" "Q x" "I s1" using run m c by auto
    then have d: "I s' \<and> (\<exists>new. tr' = tr1 @ new \<and> list_all P new) \<and> (case r of Inl e \<Rightarrow> E e | Inr x \<Rightarrow> R x)"
      using contractD assms(2) by metis
    from c obtain new where "tr1 = tr @ new" "list_all P new" by blast
    with d show ?thesis by auto
  qed
qed

lemma contract_mono:
  assumes "contract I P E Q m" "\<And>e. P e \<Longrightarrow> P' e" "\<And>e. E e \<Longrightarrow> E' e" "\<And>x. Q x \<Longrightarrow> Q' x"
  shows "contract I P' E' Q' m"
proof (rule contractI)
  fix env s tr r s' tr'
  assume "I s" "m env s tr = (r, s', tr')"
  from contractD[OF assms(1) this] obtain new where
    n: "I s'" "tr' = tr @ new" "list_all P new" "case r of Inl e \<Rightarrow> E e | Inr x \<Rightarrow> Q x" by blast
  have "list_all P' new" using n(3) assms(2) by (auto simp: list_all_iff)
  then show "I s' \<and> (\<exists>new. tr' = tr @ new \<and> list_all P' new) \<and> (case r of Inl e \<Rightarrow> E' e | Inr x \<Rightarrow> Q' x)"
    using n assms(3,4) by (auto split: sum.splits)
qed

lemma contract_true: "contract I P E Q m \<Longrightarrow> contract I P E (\<lambda>_. True) m"
  by (erule contract_mono) auto

lemma contract_bind_any [contracts]:
  "contract I P E (\<lambda>_. True) m \<Longrightarrow> (\<And>x. contract I P E R (f x)) \<Longrightarrow> contract I P E R (bind_op m f)"
  by (rule contract_bind)

lemma contract_then [contracts]:
  "contract I P E (\<lambda>_. True) m \<Longrightarrow> contract I P E R n \<Longrightarrow> contract I P E R (then_op m n)"
  unfolding then_op_def by (rule contract_bind)

lemma contract_ask_any [contracts]: "contract I P E (\<lambda>_. True) (ask q)"
  by (rule contract_ask) simp

lemma contract_gets_any [contracts]: "contract I P E (\<lambda>_. True) (gets f)"
  by (rule contract_gets) simp

lemma contract_try [contracts]:
  assumes "contract I P (\<lambda>_. True) Q m" "\<And>e. contract I P E Q (h e)"
  shows "contract I P E Q (try_op m h)"
proof (rule contractI)
  fix env s tr r s' tr'
  assume s: "I s" and run: "try_op m h env s tr = (r, s', tr')"
  obtain r1 s1 tr1 where m: "m env s tr = (r1, s1, tr1)" by (cases "m env s tr") auto
  note c = contractD[OF assms(1) s m]
  show "I s' \<and> (\<exists>new. tr' = tr @ new \<and> list_all P new) \<and> (case r of Inl e \<Rightarrow> E e | Inr x \<Rightarrow> Q x)"
  proof (cases r1)
    case (Inr x)
    then show ?thesis using run m c by auto
  next
    case (Inl e)
    then have "h e env s1 tr1 = (r, s', tr')" "I s1" using run m c by auto
    then have d: "I s' \<and> (\<exists>new. tr' = tr1 @ new \<and> list_all P new) \<and> (case r of Inl e \<Rightarrow> E e | Inr x \<Rightarrow> Q x)"
      using contractD assms(2) by metis
    from c obtain new where "tr1 = tr @ new" "list_all P new" by blast
    with d show ?thesis by auto
  qed
qed

lemma contract_when [contracts]:
  "(b \<Longrightarrow> contract I P E Q m) \<Longrightarrow> Q () \<Longrightarrow> contract I P E Q (when_op b m)"
  by (simp add: when_op_def contract_ret)

lemma contract_throw_if [contracts]: "(\<And>m. e = Some m \<Longrightarrow> E m) \<Longrightarrow> contract I P E (\<lambda>_. True) (throw_if e)"
  by (cases e) (auto simp: throw_if_def intro: contracts)

lemma contract_block [contracts]:
  "list_all (contract I P E (\<lambda>_. True)) ms \<Longrightarrow> contract I P E (\<lambda>_. True) (block ms)"
  by (induction ms) (auto intro: contracts)

lemma contract_for_each [contracts]:
  "(\<And>x. x \<in> set xs \<Longrightarrow> contract I P E (\<lambda>_. True) (f x)) \<Longrightarrow> contract I P E (\<lambda>_. True) (for_each xs f)"
  by (induction xs) (auto intro: contracts)

lemma contract_engine [contracts]:
  "P (Engine c) \<Longrightarrow> contract I P (\<lambda>_. True) (\<lambda>_. True) (engine c)"
  unfolding engine_def by (intro contracts) auto

lemma contract_run_sync [contracts]:
  "P (CliSync args cwd) \<Longrightarrow> contract I P E (\<lambda>_. True) (run_sync args cwd)"
  unfolding run_sync_def by (intro contracts) auto

lemma contract_run_cli [contracts]:
  assumes "P (CliRun args cwd)" "\<And>l. contract I P (\<lambda>_. True) (\<lambda>_. True) (onLine l)"
  shows "contract I P (\<lambda>_. True) (\<lambda>_. True) (run_cli args label cwd onLine ign)"
  unfolding run_cli_def emit_output_lines_def using assms
  by (auto intro!: contracts split: cli_end.split)

lemma contract_run_cli_ignored [contracts]:
  assumes "P (CliRun args cwd)" "\<And>l. contract I P E (\<lambda>_. True) (onLine l)"
  shows "contract I P E (\<lambda>_. True) (run_cli args label cwd onLine True)"
  unfolding run_cli_def emit_output_lines_def using assms
  by (auto intro!: contracts split: cli_end.split)

lemma contract_send_log [contracts]:
  "(\<And>i l. contract I P E (\<lambda>_. True) (emit (EvLog i l))) \<Longrightarrow>
   contract I P E (\<lambda>_. True) (send_log emit idx container stream line)"
  unfolding send_log_def by (intro contracts)

lemma contract_send_status [contracts]:
  "(\<And>i l. contract I P E (\<lambda>_. True) (emit (EvStatus i l))) \<Longrightarrow>
   contract I P E (\<lambda>_. True) (send_status emit idx status)"
  unfolding send_status_def .

end
