(* ===== verification/Docker_Names.thy ===== *)
theory Docker_Names
  imports Js_Text
begin

text \<open>
  \<open>docker-name.util.ts\<close>: turning a service name into an identifier Docker accepts everywhere.
  The three regular expression replacements are one routine that rewrites maximal runs of a
  character class. SHA-1 is a parameter giving the hex digest.
\<close>

section \<open>Replacing runs\<close>

text \<open>
  \<open>replace_runs p n d s\<close> is \<open>s.replace(/[p]{n,}/g, d)\<close>: every maximal run of at least \<open>n\<close>
  characters of the class becomes \<open>d\<close>, shorter runs stay.
\<close>

function replace_runs :: "(char \<Rightarrow> bool) \<Rightarrow> nat \<Rightarrow> char \<Rightarrow> string \<Rightarrow> string" where
  "replace_runs p n d [] = []"
| "replace_runs p n d (c # cs) =
    (if p c
     then (let run = c # takeWhile p cs
           in (if n \<le> length run then [d] else run) @ replace_runs p n d (dropWhile p cs))
     else c # replace_runs p n d cs)"
  by pat_completeness auto

termination
  by (relation "measure (\<lambda>(p, n, d, s). length s)") (auto simp: le_imp_less_Suc length_dropWhile_le)

definition is_name_char :: "char \<Rightarrow> bool" where
  "is_name_char c = (is_lower_alpha c \<or> is_digit c \<or> c = CHR ''_'')"

definition is_separator :: "char \<Rightarrow> bool" where
  "is_separator c = (c = CHR ''-'' \<or> c = CHR ''_'')"

text \<open>\<open>s.replace(/^[-_]+|[-_]+$/g, '')\<close>\<close>

definition strip_separators :: "string \<Rightarrow> string" where
  "strip_separators s = rev (dropWhile is_separator (rev (dropWhile is_separator s)))"

definition docker_chars :: "string \<Rightarrow> string" where
  "docker_chars raw =
    strip_separators
      (replace_runs is_separator 2 (CHR ''-'')
        (replace_runs (\<lambda>c. \<not> is_name_char c) 1 (CHR ''-'') (js_lower raw)))"

definition to_docker_name :: "(string \<Rightarrow> string) \<Rightarrow> string \<Rightarrow> string" where
  "to_docker_name sha1 raw =
    (let normalized = docker_chars raw
     in if normalized \<noteq> [] then normalized else ''service-'' @ take 8 (sha1 raw))"

text \<open>What the code relies on of SHA-1: forty lower case hex digits.\<close>

definition hex_sha1 :: "(string \<Rightarrow> string) \<Rightarrow> bool" where
  "hex_sha1 sha1 = (\<forall>s. length (sha1 s) = 40 \<and> list_all is_hex_lower (sha1 s))"

text \<open>
  \<open>ServiceLifecycleService.containerBelongsToService\<close>: the container of a service itself, or one
  whose name continues it with a hyphen.
\<close>

definition container_belongs :: "(string \<Rightarrow> string) \<Rightarrow> string \<Rightarrow> string \<Rightarrow> bool" where
  "container_belongs sha1 container service =
    (let n = to_docker_name sha1 service
     in container = n \<or> starts_with container (n @ ''-''))"

section \<open>The names that come out\<close>

fun no_adjacent :: "(char \<Rightarrow> bool) \<Rightarrow> string \<Rightarrow> bool" where
  "no_adjacent p (a # b # r) = (\<not> (p a \<and> p b) \<and> no_adjacent p (b # r))"
| "no_adjacent p _ = True"

text \<open>
  Lower case letters, digits, single hyphens and underscores, with a letter or digit at both ends.
\<close>

definition docker_name :: "string \<Rightarrow> bool" where
  "docker_name s =
    (s \<noteq> [] \<and> list_all (\<lambda>c. is_name_char c \<or> c = CHR ''-'') s \<and> no_adjacent is_separator s \<and>
     \<not> is_separator (hd s) \<and> \<not> is_separator (last s))"

lemma no_adjacent_Cons: "no_adjacent p (a # s) \<longleftrightarrow> (s = [] \<or> \<not> (p a \<and> p (hd s))) \<and> no_adjacent p s"
  by (cases s) auto

lemma hd_replace_runs: "s = [] \<or> \<not> p (hd s) \<Longrightarrow> replace_runs p n d s = [] \<or> \<not> p (hd (replace_runs p n d s))"
  by (cases s) auto

lemma replace_runs_no_adjacent:
  assumes "p d"
  shows "no_adjacent p (replace_runs p 2 d s)"
proof (induction s rule: length_induct)
  case (1 s)
  show ?case
  proof (cases s)
    case (Cons c cs)
    show ?thesis
    proof (cases "p c")
      case False
      with 1 Cons show ?thesis by (simp add: no_adjacent_Cons)
    next
      case True
      let ?rest = "replace_runs p 2 d (dropWhile p cs)"
      have "length (dropWhile p cs) < length s" using Cons by (simp add: le_imp_less_Suc length_dropWhile_le)
      then have rest: "no_adjacent p ?rest" using 1 by blast
      have "dropWhile p cs = [] \<or> \<not> p (hd (dropWhile p cs))" using hd_dropWhile by blast
      then have h: "?rest = [] \<or> \<not> p (hd ?rest)" by (rule hd_replace_runs)
      have "replace_runs p 2 d s = d # ?rest \<or> replace_runs p 2 d s = c # ?rest"
        using Cons True by (cases "takeWhile p cs") auto
      with rest h show ?thesis by (auto simp: no_adjacent_Cons)
    qed
  qed simp
qed

lemma set_replace_runs: "set (replace_runs p n d s) \<subseteq> insert d (set s)"
proof (induction s rule: length_induct)
  case (1 s)
  show ?case
  proof (cases s)
    case (Cons c cs)
    have "length (dropWhile p cs) < length s" using Cons by (simp add: le_imp_less_Suc length_dropWhile_le)
    then have "set (replace_runs p n d (dropWhile p cs)) \<subseteq> insert d (set cs)"
      using 1 set_dropWhileD by fastforce
    moreover have "set (takeWhile p cs) \<subseteq> set cs" using set_takeWhileD by fastforce
    moreover have "set (replace_runs p n d cs) \<subseteq> insert d (set cs)" using 1 Cons by simp
    ultimately show ?thesis using Cons by (auto simp: Let_def)
  qed simp
qed

lemma replace_runs_class: "\<not> p d \<or> p d \<Longrightarrow> c \<in> set (replace_runs p 1 d s) \<Longrightarrow> c = d \<or> \<not> p c"
proof (induction s rule: length_induct)
  case (1 s)
  show ?case
  proof (cases s)
    case Nil
    with 1 show ?thesis by simp
  next
    case (Cons x xs)
    have "length (dropWhile p xs) < length s" using Cons by (simp add: le_imp_less_Suc length_dropWhile_le)
    with 1 Cons show ?thesis by (cases "p x") (auto simp: Let_def)
  qed
qed

lemma replace_runs_id:
  "no_adjacent p s \<Longrightarrow> 2 \<le> n \<or> (\<forall>c \<in> set s. p c \<longrightarrow> c = d) \<Longrightarrow> replace_runs p n d s = s"
proof (induction s rule: length_induct)
  case (1 s)
  show ?case
  proof (cases s)
    case (Cons c cs)
    have cs: "no_adjacent p cs" "cs = [] \<or> \<not> (p c \<and> p (hd cs))"
      using 1(2) Cons by (simp_all add: no_adjacent_Cons)
    have "2 \<le> n \<or> (\<forall>c \<in> set cs. p c \<longrightarrow> c = d)" using 1(3) Cons by auto
    then have "replace_runs p n d cs = cs" using 1(1)[rule_format, of cs] Cons cs(1) by simp
    moreover have "takeWhile p cs = [] \<and> dropWhile p cs = cs" if "p c"
      using cs(2) that by (cases cs) auto
    ultimately show ?thesis using Cons 1(3) by (auto simp: Let_def)
  qed simp
qed

lemma no_adjacent_append: "no_adjacent p (s @ t) \<Longrightarrow> no_adjacent p s \<and> no_adjacent p t"
  by (induction s) (auto simp: no_adjacent_Cons)

lemma strip_separators_split: "\<exists>u v. s = u @ strip_separators s @ v"
proof -
  let ?t = "dropWhile is_separator s"
  have "s = takeWhile is_separator s @ ?t" by simp
  moreover have "?t = rev (dropWhile is_separator (rev ?t)) @ rev (takeWhile is_separator (rev ?t))"
    by (metis rev_append rev_rev_ident takeWhile_dropWhile_id)
  ultimately show ?thesis unfolding strip_separators_def by metis
qed

lemma strip_separators_ends:
  assumes "strip_separators s \<noteq> []"
  shows "\<not> is_separator (hd (strip_separators s)) \<and> \<not> is_separator (last (strip_separators s))"
proof -
  let ?t = "dropWhile is_separator s"
  let ?r = "dropWhile is_separator (rev ?t)"
  have r: "?r \<noteq> []" using assms by (simp add: strip_separators_def)
  then have l: "\<not> is_separator (hd ?r)" using hd_dropWhile by blast
  have "?t \<noteq> []" using r by (metis dropWhile.simps(1) rev.simps(1))
  then have t: "\<not> is_separator (hd ?t)" using hd_dropWhile by blast
  obtain u where "rev ?t = u @ ?r" by (metis takeWhile_dropWhile_id)
  then have "?t = rev ?r @ rev u" by (metis rev_append rev_rev_ident)
  then have "hd ?t = hd (rev ?r)" using r by (metis hd_append2 rev_is_Nil_conv)
  with t l r show ?thesis by (simp add: strip_separators_def last_rev)
qed

lemma strip_separators_id:
  "s \<noteq> [] \<Longrightarrow> \<not> is_separator (hd s) \<Longrightarrow> \<not> is_separator (last s) \<Longrightarrow> strip_separators s = s"
proof -
  assume s: "s \<noteq> []" "\<not> is_separator (hd s)" "\<not> is_separator (last s)"
  have "dropWhile is_separator s = s" using s(1,2) by (cases s) auto
  moreover have "dropWhile is_separator (rev s) = rev s"
    using s(1,3) by (cases "rev s") (auto simp: hd_rev dest: arg_cong[of _ _ rev])
  ultimately show ?thesis by (simp add: strip_separators_def)
qed

lemma docker_chars_name:
  assumes "docker_chars raw \<noteq> []"
  shows "docker_name (docker_chars raw)"
proof -
  let ?a = "replace_runs (\<lambda>c. \<not> is_name_char c) 1 (CHR ''-'') (js_lower raw)"
  let ?b = "replace_runs is_separator 2 (CHR ''-'') ?a"
  have eq: "docker_chars raw = strip_separators ?b" by (simp add: docker_chars_def)
  obtain u v where uv: "?b = u @ docker_chars raw @ v" using strip_separators_split eq by metis
  have a: "c = CHR ''-'' \<or> is_name_char c" if "c \<in> set ?a" for c
    using replace_runs_class[of "\<lambda>c. \<not> is_name_char c" "CHR ''-''" c "js_lower raw"] that by blast
  have "is_name_char c \<or> c = CHR ''-''" if "c \<in> set (docker_chars raw)" for c
  proof -
    have "c \<in> set ?b" using that by (subst uv) simp
    then have "c = CHR ''-'' \<or> c \<in> set ?a" using set_replace_runs[of is_separator 2 "CHR ''-''" ?a] by blast
    then show ?thesis using a by blast
  qed
  moreover have "no_adjacent is_separator (docker_chars raw)"
  proof -
    have "no_adjacent is_separator ?b" by (rule replace_runs_no_adjacent) (simp add: is_separator_def)
    then show ?thesis using uv no_adjacent_append by metis
  qed
  ultimately show ?thesis
    using strip_separators_ends[of ?b] assms eq by (simp add: docker_name_def list_all_iff)
qed

lemma name_char_lower: "is_name_char c \<Longrightarrow> lower_char c = c"
  by (auto simp: is_name_char_def lower_char_def is_lower_alpha_def is_digit_def Let_def)

lemma docker_chars_id: "docker_name s \<Longrightarrow> docker_chars s = s"
proof -
  assume s: "docker_name s"
  have ch: "is_name_char c \<or> c = CHR ''-''" if "c \<in> set s" for c
    using s that by (auto simp: docker_name_def list_all_iff)
  have "lower_char (CHR ''-'') = CHR ''-''" by code_simp
  with ch name_char_lower have "map lower_char s = s" by (intro map_idI) blast
  then have low: "js_lower s = s" by (simp add: js_lower_def)
  have "no_adjacent (\<lambda>c. \<not> is_name_char c) s"
  proof -
    have "no_adjacent is_separator t \<Longrightarrow> (\<And>c. c \<in> set t \<Longrightarrow> is_name_char c \<or> c = CHR ''-'') \<Longrightarrow>
        no_adjacent (\<lambda>c. \<not> is_name_char c) t" for t
    proof (induction t)
      case (Cons c t)
      then show ?case by (cases t) (auto simp: is_separator_def)
    qed simp
    then show ?thesis using s ch by (simp add: docker_name_def)
  qed
  then have 1: "replace_runs (\<lambda>c. \<not> is_name_char c) 1 (CHR ''-'') s = s"
    using ch by (intro replace_runs_id) auto
  have 2: "replace_runs is_separator 2 (CHR ''-'') s = s"
    using s by (intro replace_runs_id) (simp_all add: docker_name_def)
  show ?thesis
    unfolding docker_chars_def low 1 2
    using s by (intro strip_separators_id) (simp_all add: docker_name_def)
qed

lemma hex_lower_name_char: "is_hex_lower c \<Longrightarrow> is_name_char c \<and> \<not> is_separator c"
  by (auto simp: is_hex_lower_def is_name_char_def is_lower_alpha_def is_digit_def is_separator_def)

lemma no_adjacent_none: "(\<And>c. c \<in> set s \<Longrightarrow> \<not> p c) \<Longrightarrow> no_adjacent p s"
  by (induction s) (auto simp: no_adjacent_Cons)

lemma fallback_name: "hex_sha1 sha1 \<Longrightarrow> docker_name (''service-'' @ take 8 (sha1 raw))"
proof -
  assume h: "hex_sha1 sha1"
  let ?t = "take 8 (sha1 raw)"
  have hex: "is_hex_lower c" if "c \<in> set ?t" for c
    using h that by (auto simp: hex_sha1_def list_all_iff dest: in_set_takeD)
  have len: "length ?t = 8" using h by (simp add: hex_sha1_def)
  then have ne: "?t \<noteq> []" by auto
  have adj: "no_adjacent is_separator ?t" by (rule no_adjacent_none) (use hex hex_lower_name_char in blast)
  have hd: "\<not> is_separator (hd ?t)" "\<not> is_separator (last ?t)"
    using hex hex_lower_name_char ne by (metis hd_in_set, metis last_in_set)
  have letters: "is_name_char c" if "c \<in> set ''service''" for c
    using that by (auto simp: is_name_char_def is_lower_alpha_def)
  have "no_adjacent is_separator (''service-'' @ ?t)"
    using adj hd(1) by (simp add: no_adjacent_Cons) (simp add: is_separator_def)
  moreover have "list_all (\<lambda>c. is_name_char c \<or> c = CHR ''-'') (''service-'' @ ?t)"
    using hex hex_lower_name_char letters by (auto simp: list_all_iff)
  ultimately show ?thesis using ne hd(2) by (simp add: docker_name_def is_separator_def)
qed

lemma to_docker_name_valid: "hex_sha1 sha1 \<Longrightarrow> docker_name (to_docker_name sha1 raw)"
  using docker_chars_name fallback_name by (simp add: to_docker_name_def Let_def)

lemma to_docker_name_id: "docker_name s \<Longrightarrow> to_docker_name sha1 s = s"
  by (simp add: to_docker_name_def docker_chars_id) (simp add: docker_name_def)

section \<open>Docker's rules\<close>

text \<open>
  The three rules the code aims at. A container is named by \<open>[a-zA-Z0-9][a-zA-Z0-9_.-]+\<close>, a compose project
  by \<open>[a-z0-9][a-z0-9_-]*\<close>, and an image by at most 255 characters of the form
  \<open>[a-z0-9]+((\.|_|__|-+)[a-z0-9]+)*\<close>, recognised by its automaton.
\<close>

definition is_low :: "char \<Rightarrow> bool" where
  "is_low c = (is_lower_alpha c \<or> is_digit c)"

definition container_rule :: "string \<Rightarrow> bool" where
  "container_rule s =
    (2 \<le> length s \<and> (is_low (hd s) \<or> is_upper_alpha (hd s)) \<and>
     list_all (\<lambda>c. is_low c \<or> is_upper_alpha c \<or> c \<in> {CHR ''_'', CHR ''.'', CHR ''-''}) (tl s))"

definition compose_rule :: "string \<Rightarrow> bool" where
  "compose_rule s =
    (s \<noteq> [] \<and> is_low (hd s) \<and> list_all (\<lambda>c. is_low c \<or> c \<in> {CHR ''_'', CHR ''-''}) (tl s))"

datatype image_state = Begins | InWord | AfterDot | AfterUnderscore | AfterTwo | AfterHyphens

fun image_from :: "image_state \<Rightarrow> string \<Rightarrow> bool" where
  "image_from q [] = (q = InWord)"
| "image_from q (c # s) =
    (if is_low c then image_from InWord s
     else if c = CHR ''.'' then q = InWord \<and> image_from AfterDot s
     else if c = CHR ''_'' then (q = InWord \<and> image_from AfterUnderscore s) \<or> (q = AfterUnderscore \<and> image_from AfterTwo s)
     else if c = CHR ''-'' then q \<in> {InWord, AfterHyphens} \<and> image_from AfterHyphens s
     else False)"

definition image_rule :: "string \<Rightarrow> bool" where
  "image_rule s = (length s \<le> 255 \<and> image_from Begins s)"

lemma name_char_cases: "is_name_char c \<or> c = CHR ''-'' \<Longrightarrow> is_low c \<or> is_separator c"
  by (auto simp: is_name_char_def is_low_def is_separator_def)

lemma low_not_separator: "is_low c \<Longrightarrow> \<not> is_separator c"
  by (auto simp: is_low_def is_separator_def is_lower_alpha_def is_digit_def)

lemma image_from_name:
  "list_all (\<lambda>c. is_low c \<or> is_separator c) s \<Longrightarrow> no_adjacent is_separator s \<Longrightarrow>
   (if s = [] then q = InWord else \<not> is_separator (last s) \<and> (is_separator (hd s) \<longrightarrow> q = InWord)) \<Longrightarrow>
   image_from q s"
proof (induction s arbitrary: q)
  case (Cons c s)
  have rest: "list_all (\<lambda>c. is_low c \<or> is_separator c) s" "no_adjacent is_separator s"
    using Cons.prems by (simp_all add: no_adjacent_Cons)
  show ?case
  proof (cases "is_low c")
    case True
    have "image_from InWord s" using Cons.prems(3) by (intro Cons.IH[OF rest]) (auto split: if_splits)
    with True show ?thesis by simp
  next
    case False
    then have c: "is_separator c" "q = InWord" using Cons.prems(1,3) by auto
    have s: "s \<noteq> []" "\<not> is_separator (hd s)" "\<not> is_separator (last s)"
      using Cons.prems(2,3) c(1) by (auto simp: no_adjacent_Cons split: if_splits)
    have "image_from p s" for p using s by (intro Cons.IH[OF rest]) simp
    with False c show ?thesis by (auto simp: is_separator_def)
  qed
qed simp

lemma docker_name_rules:
  assumes "docker_name s"
  shows "container_rule s \<longleftrightarrow> length s \<noteq> 1" "image_rule s \<longleftrightarrow> length s \<le> 255" "compose_rule s"
proof -
  have ne: "s \<noteq> []" using assms by (simp add: docker_name_def)
  have ch: "is_low c \<or> is_separator c" if "c \<in> set s" for c
    using assms that by (auto simp: docker_name_def list_all_iff intro!: name_char_cases)
  have hd: "is_low (hd s)" using ch[of "hd s"] ne assms by (simp add: docker_name_def)
  have tl: "is_low c \<or> is_separator c" if "c \<in> set (tl s)" for c
    using ch that ne by (cases s) simp_all
  show "container_rule s \<longleftrightarrow> length s \<noteq> 1"
    using ne hd tl by (cases s; cases "tl s") (auto simp: container_rule_def list_all_iff is_separator_def)
  show "compose_rule s"
    using ne hd tl by (auto simp: compose_rule_def list_all_iff is_separator_def)
  have "image_from Begins s"
    using assms ch by (intro image_from_name) (auto simp: list_all_iff docker_name_def)
  then show "image_rule s \<longleftrightarrow> length s \<le> 255" by (simp add: image_rule_def)
qed

text \<open>C24: whatever the user called the service, the name given to Docker is a compose project name;
  it is an image name unless it is longer than 255 characters, and a container name unless it is a
  single character, which Docker refuses: a service called \<open>A\<close> becomes \<open>a\<close> and cannot be started from a
  Dockerfile. Naming a service by the result again changes nothing.\<close>

theorem docker_name_stable:
  assumes "hex_sha1 sha1"
  shows "let n = to_docker_name sha1 raw in
     compose_rule n \<and> (image_rule n \<longleftrightarrow> length n \<le> 255) \<and> (container_rule n \<longleftrightarrow> length n \<noteq> 1) \<and>
     to_docker_name sha1 n = n \<and> to_docker_name sha1 ''A'' = ''a''"
proof -
  have "docker_chars ''A'' = ''a''" by code_simp
  then have "to_docker_name sha1 ''A'' = ''a''" by (simp add: to_docker_name_def)
  then show ?thesis
    using docker_name_rules[OF to_docker_name_valid[OF assms]] to_docker_name_id[OF to_docker_name_valid[OF assms]]
    by (simp add: Let_def)
qed

theorem docker_name_stable_witness:
  "container_rule (to_docker_name (\<lambda>_. replicate 40 (CHR ''a'')) ''My  Shop!'') \<and>
   to_docker_name (\<lambda>_. replicate 40 (CHR ''a'')) ''My  Shop!'' = ''my-shop'' \<and>
   to_docker_name (\<lambda>_. replicate 40 (CHR ''a'')) ''---'' = ''service-aaaaaaaa''"
proof -
  have "hex_sha1 (\<lambda>_. replicate 40 (CHR ''a''))"
    by (simp add: hex_sha1_def list_all_iff is_hex_lower_def)
  moreover have n: "to_docker_name (\<lambda>_. replicate 40 (CHR ''a'')) ''My  Shop!'' = ''my-shop''"
    and "to_docker_name (\<lambda>_. replicate 40 (CHR ''a'')) ''---'' = ''service-aaaaaaaa''" by code_simp+
  ultimately show ?thesis using docker_name_stable[of "\<lambda>_. replicate 40 (CHR ''a'')" "''My  Shop!''"]
    by (simp add: Let_def)
qed

end
