(* ===== verification/Js_Path.thy ===== *)
theory Js_Path
  imports Docker_Names
begin

text \<open>
  The POSIX half of Node's \<open>path\<close> module, as far as the agent uses it: \<open>normalize\<close>, \<open>join\<close>,
  \<open>resolve\<close>, \<open>relative\<close>, \<open>dirname\<close> and \<open>isAbsolute\<close>. An absolute path is also the list of its
  segments; the working directory is such a list.
\<close>

abbreviation slash :: char where "slash \<equiv> CHR ''/''"

definition segments :: "string \<Rightarrow> string list" where
  "segments p = split_on slash p"

fun is_absolute :: "string \<Rightarrow> bool" where
  "is_absolute [] = False"
| "is_absolute (c # cs) = (c = slash)"

text \<open>Following segments from a directory, at whose root \<open>..\<close> stays\<close>

fun walk :: "string list \<Rightarrow> string list \<Rightarrow> string list" where
  "walk d [] = d"
| "walk d (w # ws) =
    (if w = [] \<or> w = ''.'' then walk d ws
     else if w = ''..'' then walk (butlast d) ws
     else walk (d @ [w]) ws)"

text \<open>The same for a relative path, which keeps the \<open>..\<close> it cannot undo\<close>

fun walk_dots :: "string list \<Rightarrow> string list \<Rightarrow> string list" where
  "walk_dots d [] = d"
| "walk_dots d (w # ws) =
    (if w = [] \<or> w = ''.'' then walk_dots d ws
     else if w = ''..'' \<and> d \<noteq> [] \<and> last d \<noteq> ''..'' then walk_dots (butlast d) ws
     else walk_dots (d @ [w]) ws)"

definition path_text :: "string list \<Rightarrow> string" where
  "path_text d = slash # js_join [slash] d"

definition trailing_slash :: "string \<Rightarrow> bool" where
  "trailing_slash p = (p \<noteq> [] \<and> last p = slash)"

definition path_normalize :: "string \<Rightarrow> string" where
  "path_normalize p =
    (if p = [] then ''.''
     else if is_absolute p then
       (let d = walk [] (segments p)
        in if d = [] then [slash]
           else path_text d @ (if trailing_slash p then [slash] else []))
     else
       (let d = walk_dots [] (segments p)
        in if d = [] then (if trailing_slash p then ''./'' else ''.'')
           else js_join [slash] d @ (if trailing_slash p then [slash] else [])))"

definition path_join :: "string \<Rightarrow> string \<Rightarrow> string" where
  "path_join a b =
    (let j = js_join [slash] (filter (\<lambda>p. p \<noteq> []) [a, b])
     in if j = [] then ''.'' else path_normalize j)"

definition path_resolve :: "string list \<Rightarrow> string \<Rightarrow> string list" where
  "path_resolve cwd p = (if is_absolute p then walk [] (segments p) else walk cwd (segments p))"

fun common_prefix :: "string list \<Rightarrow> string list \<Rightarrow> nat" where
  "common_prefix (a # as) (b # bs) = (if a = b then Suc (common_prefix as bs) else 0)"
| "common_prefix _ _ = 0"

definition path_relative :: "string list \<Rightarrow> string list \<Rightarrow> string" where
  "path_relative f t =
    (let k = common_prefix f t
     in js_join [slash] (replicate (length f - k) ''..'' @ drop k t))"

text \<open>Up to the last slash that a character other than a slash follows\<close>

definition path_dirname :: "string \<Rightarrow> string" where
  "path_dirname p =
    (let q = rev (dropWhile (\<lambda>c. c = slash) (rev p));
         u = rev (dropWhile (\<lambda>c. c \<noteq> slash) (rev q))
     in if q = [] then (if p = [] then ''.'' else [slash])
        else if u = [] then ''.''
        else if length u = 1 then [slash]
        else if u = [slash, slash] then u
        else butlast u)"

section \<open>Segments\<close>

definition is_segment :: "string \<Rightarrow> bool" where
  "is_segment w = (w \<noteq> [] \<and> slash \<notin> set w \<and> w \<noteq> ''.'' \<and> w \<noteq> ''..'')"

lemma walk_append: "walk d (us @ vs) = walk (walk d us) vs"
  by (induction d us rule: walk.induct) auto

lemma walk_segments_clean:
  "list_all is_segment d \<Longrightarrow> (\<And>w. w \<in> set ws \<Longrightarrow> slash \<notin> set w) \<Longrightarrow> list_all is_segment (walk d ws)"
proof (induction d ws rule: walk.induct)
  case (2 d w ws)
  have b: "list_all is_segment (butlast d)" using 2(4) by (auto simp: list_all_iff dest: in_set_butlastD)
  consider "w = [] \<or> w = ''.''" | "w = ''..''" | "is_segment w"
    using 2(5) by (auto simp: is_segment_def)
  then show ?case
  proof cases
    case 3
    then show ?thesis using 2(3)[OF _ _ _] 2(4,5) by (auto simp: is_segment_def)
  qed (use 2 b in auto)
qed simp

lemma path_resolve_clean: "list_all is_segment cwd \<Longrightarrow> list_all is_segment (path_resolve cwd p)"
  unfolding path_resolve_def segments_def by (auto intro!: walk_segments_clean dest: split_on_no_delim)

lemma walk_id: "list_all is_segment ws \<Longrightarrow> walk d ws = d @ ws"
  by (induction ws arbitrary: d) (auto simp: is_segment_def)

lemma walk_append_path:
  "walk d (segments (p @ slash # q)) = walk (walk d (segments p)) (segments q)"
proof -
  have "segments (p @ slash # q) = segments p @ segments q"
    unfolding segments_def
  proof (induction p)
    case (Cons c p)
    obtain w ws where "split_on slash p = w # ws" by (cases "split_on slash p") auto
    with Cons show ?case by auto
  qed simp
  then show ?thesis by (simp add: walk_append)
qed

lemma walk_single: "is_segment w \<Longrightarrow> walk d (segments w) = d @ [w]"
  using walk_id[of "[w]" d] by (simp add: segments_def split_on_single is_segment_def)

lemma segments_path_text: "list_all is_segment d \<Longrightarrow> walk [] (segments (path_text d)) = d"
proof (cases d)
  case Nil
  then show ?thesis by (simp add: path_text_def segments_def)
next
  case (Cons a b)
  assume d: "list_all is_segment d"
  have "split_on slash (js_join [slash] d) = d"
    using d Cons by (intro split_on_join) (auto simp: list_all_iff is_segment_def)
  then have "segments (path_text d) = [] # d" by (simp add: path_text_def segments_def)
  then show ?thesis using walk_id[OF d, of "[]"] by simp
qed

lemma path_resolve_text: "list_all is_segment d \<Longrightarrow> path_resolve cwd (path_text d) = d"
  using segments_path_text by (simp add: path_resolve_def path_text_def)

text \<open>Joining a directory with one segment is that segment below it.\<close>

lemma walk_walk_dots:
  "list_all (\<lambda>x. x \<noteq> [] \<and> x \<noteq> ''.'') r \<Longrightarrow> walk d (walk_dots r ws) = walk (walk d r) ws"
proof (induction r ws rule: walk_dots.induct)
  case (2 r w ws)
  consider "w = [] \<or> w = ''.''" | "w \<noteq> []" "w \<noteq> ''.''" "w = ''..'' \<and> r \<noteq> [] \<and> last r \<noteq> ''..''"
    | "w \<noteq> []" "w \<noteq> ''.''" "\<not> (w = ''..'' \<and> r \<noteq> [] \<and> last r \<noteq> ''..'')" by blast
  then show ?case
  proof cases
    case 3
    then have "walk_dots r (w # ws) = walk_dots (r @ [w]) ws" by auto
    then have "walk d (walk_dots r (w # ws)) = walk d (walk_dots (r @ [w]) ws)" by (rule arg_cong)
    also have "\<dots> = walk (walk d (r @ [w])) ws" using 2(3,4) 3 by simp
    also have "\<dots> = walk (walk d r) (w # ws)" using 3 by (simp add: walk_append)
    finally show ?thesis .
  next
    case c: 2
    then have r: "r = butlast r @ [last r]" by simp
    have l: "list_all (\<lambda>x. x \<noteq> [] \<and> x \<noteq> ''.'') (butlast r)" "last r \<noteq> []" "last r \<noteq> ''.''"
      using 2(4) c by (auto simp: list_all_iff dest: in_set_butlastD last_in_set)
    have "walk d r = walk d (butlast r) @ [last r]"
      by (subst r) (simp only: walk_append, simp add: l c)
    then have "walk (walk d r) (w # ws) = walk (walk d (butlast r)) ws" using c by simp
    moreover have "walk_dots r (w # ws) = walk_dots (butlast r) ws" using c by simp
    ultimately show ?thesis using 2(2)[OF _ _ l(1)] c by auto
  next
    case 1
    then show ?thesis using 2(1,4) by auto
  qed
qed simp

lemma walk_dots_clean:
  "list_all (\<lambda>x. x \<noteq> [] \<and> slash \<notin> set x) r \<Longrightarrow> list_all (\<lambda>x. slash \<notin> set x) ws \<Longrightarrow>
   list_all (\<lambda>x. x \<noteq> [] \<and> slash \<notin> set x) (walk_dots r ws)"
proof (induction r ws rule: walk_dots.induct)
  case (2 r w ws)
  have "list_all (\<lambda>x. x \<noteq> [] \<and> slash \<notin> set x) (butlast r)"
    using 2(4) by (auto simp: list_all_iff dest: in_set_butlastD)
  with 2 show ?case by auto
qed simp

lemma segments_join:
  "ws \<noteq> [] \<Longrightarrow> list_all (\<lambda>x. slash \<notin> set x) ws \<Longrightarrow> segments (js_join [slash] ws) = ws"
  unfolding segments_def by (rule split_on_join) (auto simp: list_all_iff)

lemma walk_trailing: "walk d (segments (p @ [slash])) = walk d (segments p)"
  using walk_append_path[of d p "[]"] by (simp add: segments_def)

lemma not_absolute_hd: "w \<noteq> [] \<Longrightarrow> slash \<notin> set w \<Longrightarrow> \<not> is_absolute (js_join [slash] (w # ws))"
  by (cases w; cases ws) auto

lemma path_resolve_normalize: "path_resolve cwd (path_normalize p) = path_resolve cwd p"
proof (cases "p = [] \<or> is_absolute p")
  case True
  show ?thesis
  proof (cases p)
    case Nil
    then show ?thesis by (simp add: path_normalize_def path_resolve_def segments_def)
  next
    case (Cons c cs)
    then have abs: "is_absolute p" using True by simp
    have clean: "list_all is_segment (walk [] (segments p))"
      unfolding segments_def by (auto intro!: walk_segments_clean dest: split_on_no_delim)
    note ptext = segments_path_text[OF clean]
    show ?thesis
    proof (cases "walk [] (segments p) = []")
      case True
      then show ?thesis using Cons abs by (simp add: path_normalize_def path_resolve_def segments_def)
    next
      case False
      have "is_absolute (path_text d @ x)" for d x by (simp add: path_text_def)
      then show ?thesis using False Cons abs ptext walk_trailing[of "[]" "path_text (walk [] (segments p))"]
        by (simp add: path_normalize_def path_resolve_def Let_def)
    qed
  qed
next
  case False
  let ?d = "walk_dots [] (segments p)"
  have w: "walk cwd ?d = walk cwd (segments p)" using walk_walk_dots[of "[]" cwd] by simp
  show ?thesis
  proof (cases "?d = []")
    case True
    have "path_resolve cwd ''.'' = cwd" "path_resolve cwd ''./'' = cwd"
      by (simp_all add: path_resolve_def segments_def)
    then show ?thesis using False True w by (simp add: path_normalize_def path_resolve_def)
  next
    case ne: False
    have "list_all (\<lambda>x. slash \<notin> set x) (segments p)"
      using split_on_no_delim by (auto simp: segments_def list_all_iff)
    then have c: "list_all (\<lambda>x. x \<noteq> [] \<and> slash \<notin> set x) ?d" using walk_dots_clean[of "[]"] by simp
    then have s: "segments (js_join [slash] ?d) = ?d" using ne by (intro segments_join) (auto simp: list_all_iff)
    obtain a b where ab: "?d = a # b" using ne by (cases ?d) auto
    have a: "a \<noteq> [] \<and> slash \<notin> set a" using c ab by simp
    have n: "\<not> is_absolute (js_join [slash] ?d)" unfolding ab using a not_absolute_hd by blast
    have "js_join [slash] ?d \<noteq> []" unfolding ab using a by (cases b) auto
    then have n2: "\<not> is_absolute (js_join [slash] ?d @ [slash])"
      using n by (cases "js_join [slash] ?d") auto
    show ?thesis using False ne w s n n2 walk_trailing[of cwd "js_join [slash] ?d"]
      by (simp add: path_normalize_def path_resolve_def Let_def)
  qed
qed

lemma path_join_segment:
  assumes "is_segment w"
  shows "path_resolve cwd (path_join root w) = path_resolve cwd root @ [w]"
proof (cases root)
  case Nil
  have "\<not> is_absolute w" using assms by (cases w) (auto simp: is_segment_def)
  then show ?thesis using Nil assms
    using walk_single[OF assms] path_resolve_normalize[of cwd w]
    by (simp add: path_join_def) (simp add: path_resolve_def is_segment_def segments_def)
next
  case (Cons c cs)
  have j: "path_join root w = path_normalize (root @ slash # w)"
    using Cons assms by (simp add: path_join_def is_segment_def)
  have "path_resolve cwd (root @ slash # w) = path_resolve cwd root @ [w]"
  proof -
    have "is_absolute (root @ slash # w) = is_absolute root" using Cons by simp
    then show ?thesis by (simp add: path_resolve_def walk_append_path walk_single assms)
  qed
  then show ?thesis using j path_resolve_normalize by simp
qed

section \<open>Staying inside\<close>

lemma common_prefix_le: "common_prefix a b \<le> length a \<and> take (common_prefix a b) a = take (common_prefix a b) b"
  by (induction a b rule: common_prefix.induct) auto

text \<open>
  The test both users of \<open>path.relative\<close> make. What passes it is a directory below the base, or the
  base itself; a directory below the base fails it when its first segment there starts with two
  dots.
\<close>

definition escapes :: "string list \<Rightarrow> string list \<Rightarrow> bool" where
  "escapes base t =
    (let r = path_relative base t in starts_with r ''..'' \<or> is_absolute r)"

lemma inside_base:
  assumes "\<not> escapes base t"
  shows "\<exists>r. t = base @ r"
proof -
  let ?k = "common_prefix base t"
  have "length base - ?k = 0"
  proof (rule ccontr)
    assume "length base - ?k \<noteq> 0"
    then obtain n where "length base - ?k = Suc n" by (cases "length base - ?k") auto
    then have "path_relative base t = js_join [slash] (''..'' # replicate n ''..'' @ drop ?k t)"
      by (simp add: path_relative_def)
    then have "starts_with (path_relative base t) ''..''"
      by (cases "replicate n ''..'' @ drop ?k t") (simp_all add: starts_with_def)
    with assms show False by (simp add: escapes_def Let_def)
  qed
  then have "take ?k base = base" using common_prefix_le[of base t] by simp
  then have "t = base @ drop ?k t" using common_prefix_le[of base t] by (metis append_take_drop_id)
  then show ?thesis by blast
qed

lemma common_prefix_self: "common_prefix base (base @ r) = length base"
  by (induction base) auto

lemma base_inside:
  assumes "list_all is_segment r" "r = [] \<or> \<not> starts_with (hd r) ''..''"
  shows "\<not> escapes base (base @ r)"
proof (cases r)
  case Nil
  then show ?thesis using common_prefix_self[of base "[]"]
    by (simp add: escapes_def path_relative_def starts_with_def)
next
  case (Cons w ws)
  have rel: "path_relative base (base @ r) = js_join [slash] (w # ws)"
    using Cons by (simp add: path_relative_def common_prefix_self)
  have w: "w \<noteq> [] \<and> slash \<notin> set w \<and> w \<noteq> ''..''" using assms(1) Cons by (simp add: is_segment_def)
  have "\<not> starts_with (js_join [slash] (w # ws)) ''..''"
  proof
    assume s: "starts_with (js_join [slash] (w # ws)) ''..''"
    obtain r' where j: "js_join [slash] (w # ws) = w @ r'" by (cases ws) auto
    have h: "ws = [] \<Longrightarrow> r' = []" "ws \<noteq> [] \<Longrightarrow> hd r' = slash \<and> r' \<noteq> []"
      using j by (cases ws; auto)+
    obtain c cs where c: "w = c # cs" using w by (cases w) auto
    have "\<not> starts_with w ''..''" using assms(2) Cons by simp
    with s j c h show False by (cases cs; cases r'; cases ws) (auto simp: starts_with_def)
  qed
  moreover have "\<not> is_absolute (js_join [slash] (w # ws))" using w not_absolute_hd by blast
  ultimately show ?thesis using rel by (simp add: escapes_def)
qed

lemma docker_name_segment: "docker_name s \<Longrightarrow> is_segment s"
proof -
  assume s: "docker_name s"
  have ch: "c \<in> set s \<Longrightarrow> is_name_char c \<or> c = CHR ''-''" for c
    using s by (auto simp: docker_name_def list_all_iff)
  have "\<not> is_name_char slash" "\<not> is_name_char (CHR ''.'')"
    by (simp_all add: is_name_char_def is_lower_alpha_def is_digit_def)
  then have "slash \<notin> set s" "CHR ''.'' \<notin> set s" using ch by auto
  then show ?thesis using s by (auto simp: is_segment_def docker_name_def)
qed

end
