(* ===== verification/Deploy_Command.thy ===== *)
theory Deploy_Command
  imports Js_Coerce
begin

text \<open>
  \<open>deploy-command.util.ts\<close>: what the deploy code reads off a command. The fields of a command are
  whatever the Hub sent, so a field of the wrong type is an error here as it is in the code.
\<close>

record deploy_command =
  dc_index :: jsval
  dc_preset :: jsval
  dc_name :: jsval
  dc_port :: jsval
  dc_host_port :: jsval
  dc_container_port :: jsval
  dc_mappings :: jsval
  dc_source :: jsval
  dc_root :: jsval
  dc_version :: jsval
  dc_env :: jsval

record port_mapping =
  pm_host :: jsval
  pm_container :: jsval

text \<open>\<open>Number.isInteger(p) && p >= 1 && p <= 65535\<close>\<close>

definition valid_port_number :: "jsnum \<Rightarrow> bool" where
  "valid_port_number n = (case num_int n of None \<Rightarrow> False | Some i \<Rightarrow> 1 \<le> i \<and> i \<le> 65535)"

definition read_mapping :: "jsval \<Rightarrow> string + jsnum \<times> jsnum" where
  "read_mapping m =
    bind_res (member m ''hostPort'') (\<lambda>h.
    bind_res (member m ''containerPort'') (\<lambda>c. Inr (js_number h, js_number c)))"

definition listed_mappings :: "jsval \<Rightarrow> string + port_mapping list" where
  "listed_mappings v =
    (case v of
       JArr a ms \<Rightarrow> bind_res (mapM_res read_mapping ms) (\<lambda>ps.
         Inr (map (\<lambda>(h, c). \<lparr>pm_host = JNum h, pm_container = JNum c\<rparr>)
                (filter (\<lambda>(h, c). valid_port_number h \<and> valid_port_number c) ps)))
     | _ \<Rightarrow> Inr [])"

definition resolve_port_mappings :: "deploy_command \<Rightarrow> string + port_mapping list" where
  "resolve_port_mappings d =
    bind_res (listed_mappings (dc_mappings d)) (\<lambda>mappings.
      if mappings \<noteq> [] then Inr mappings
      else Inr [\<lparr>pm_host = or_else (dc_host_port d) (dc_port d),
                 pm_container = or_else (dc_container_port d) (dc_port d)\<rparr>])"

record source_repository =
  sr_url :: string
  sr_root :: "string option"

text \<open>\<open>trim().replace(/^\/+/, '')\<close>, and \<open>null\<close> for the empty string\<close>

definition normalize_root_directory :: "jsval \<Rightarrow> string + string option" where
  "normalize_root_directory r =
    (if nullish r then Inr None
     else (case r of
             JStr s \<Rightarrow> (let t = dropWhile (\<lambda>c. c = CHR ''/'') (js_trim s)
                         in Inr (if t = [] then None else Some t))
           | _ \<Rightarrow> Inl ''TypeError: rootDirectory?.trim is not a function''))"

definition read_repository :: "jsval \<Rightarrow> string + source_repository" where
  "read_repository e =
    (case e of
       JStr s \<Rightarrow> Inr \<lparr>sr_url = s, sr_root = None\<rparr>
     | _ \<Rightarrow> bind_res (member e ''url'') (\<lambda>u.
            bind_res (member e ''rootDirectory'') (\<lambda>r.
            bind_res (normalize_root_directory r) (\<lambda>rt.
              Inr \<lparr>sr_url = js_string (or_else u (JStr [])), sr_root = rt\<rparr>))))"

definition normalize_source_repositories :: "jsval \<Rightarrow> string + source_repository list" where
  "normalize_source_repositories v =
    bind_res (mapM_res read_repository (case v of JArr a es \<Rightarrow> es | _ \<Rightarrow> [v]))
      (\<lambda>rs. Inr (filter (\<lambda>r. sr_url r \<noteq> []) rs))"

definition primary_root_directory :: "deploy_command \<Rightarrow> string + string option" where
  "primary_root_directory d =
    bind_res (normalize_source_repositories (dc_source d)) (\<lambda>rs.
      case rs of
        r # _ \<Rightarrow> (case sr_root r of Some rt \<Rightarrow> Inr (Some rt)
                  | None \<Rightarrow> normalize_root_directory (dc_root d))
      | [] \<Rightarrow> normalize_root_directory (dc_root d))"

text \<open>The last piece of the URL, without a final \<open>.git\<close>\<close>

definition repo_name :: "string \<Rightarrow> string" where
  "repo_name url =
    (let l = last (split_on (CHR ''/'') url)
     in if ends_with l ''.git'' then take (length l - 4) l else l)"

section \<open>Ports\<close>

text \<open>
  The mappings by what they mean: a port is one of the integers from 1 to 65535, an entry of the list
  counts when both its ports are, and without any such entry the service's own pair is used.
\<close>

definition tcp_ports :: "int set" where
  "tcp_ports = {1..65535}"

definition is_port :: "jsnum \<Rightarrow> bool" where
  "is_port n = (num_int n \<in> Some ` tcp_ports)"

definition entries_of :: "jsval \<Rightarrow> jsval list" where
  "entries_of v = (case v of JArr a es \<Rightarrow> es | _ \<Rightarrow> [])"

definition port_pair :: "jsval \<Rightarrow> jsnum \<times> jsnum" where
  "port_pair m = (js_number (get_field m ''hostPort''), js_number (get_field m ''containerPort''))"

definition fallback_mapping :: "deploy_command \<Rightarrow> port_mapping" where
  "fallback_mapping d = \<lparr>pm_host = or_else (dc_host_port d) (dc_port d),
     pm_container = or_else (dc_container_port d) (dc_port d)\<rparr>"

definition expected_mappings :: "deploy_command \<Rightarrow> port_mapping list" where
  "expected_mappings d =
    (case filter (\<lambda>(h, c). is_port h \<and> is_port c) (map port_pair (entries_of (dc_mappings d))) of
       [] \<Rightarrow> [fallback_mapping d]
     | good \<Rightarrow> map (\<lambda>(h, c). \<lparr>pm_host = JNum h, pm_container = JNum c\<rparr>) good)"

lemma is_port_valid: "is_port n = valid_port_number n"
  by (auto simp: is_port_def tcp_ports_def valid_port_number_def split: option.splits)

lemma read_mappings:
  "mapM_res read_mapping ms =
    (if list_ex nullish ms then Inl ''TypeError: Cannot read properties of null'' else Inr (map port_pair ms))"
  by (induction ms) (auto simp: read_mapping_def member_def port_pair_def)

lemma listed_by_entries:
  "listed_mappings v =
    (if list_ex nullish (entries_of v) then Inl ''TypeError: Cannot read properties of null''
     else Inr (map (\<lambda>(h, c). \<lparr>pm_host = JNum h, pm_container = JNum c\<rparr>)
       (filter (\<lambda>(h, c). is_port h \<and> is_port c) (map port_pair (entries_of v)))))"
  by (cases v) (simp_all add: listed_mappings_def entries_of_def read_mappings is_port_valid)

text \<open>C26: a deployment gets exactly the pairs of the list both numbers of which are integers from 1 to
  65535, in their order; when there is none, the one pair of the service itself, unchecked. Reading
  them fails exactly when an entry of the list is null. Ports 1 and 65535 count, 0 and 65536 do not.\<close>

theorem port_mappings_in_range:
  "resolve_port_mappings d =
     (if list_ex nullish (entries_of (dc_mappings d)) then Inl ''TypeError: Cannot read properties of null''
      else Inr (expected_mappings d)) \<and>
   map (\<lambda>i. is_port (num_of_int i)) [0, 1, 65535, 65536] = [False, True, True, False]"
proof
  show "resolve_port_mappings d =
     (if list_ex nullish (entries_of (dc_mappings d)) then Inl ''TypeError: Cannot read properties of null''
      else Inr (expected_mappings d))"
    by (auto simp: resolve_port_mappings_def listed_by_entries expected_mappings_def fallback_mapping_def
        split: list.split)
  show "map (\<lambda>i. is_port (num_of_int i)) [0, 1, 65535, 65536] = [False, True, True, False]"
    by (simp add: is_port_def tcp_ports_def image_iff)
qed

definition sample_command :: deploy_command where
  "sample_command =
    \<lparr>dc_index = JNum (num_of_int 3), dc_preset = JStr ''compose'', dc_name = JStr ''shop'',
     dc_port = JNum (num_of_int 80), dc_host_port = JUndef, dc_container_port = JUndef,
     dc_mappings = JArr 0 [JObj 1 [(''hostPort'', JStr ''8080''), (''containerPort'', JNum (num_of_int 80))],
       JObj 2 [(''hostPort'', JNum (num_of_int 70000)), (''containerPort'', JNum (num_of_int 80))]],
     dc_source = JStr ''https://git/shop.git'', dc_root = JUndef, dc_version = JStr ''latest'',
     dc_env = JUndef\<rparr>"

lemma sample_mappings:
  "resolve_port_mappings sample_command =
     Inr [\<lparr>pm_host = JNum (num_of_int 8080), pm_container = JNum (num_of_int 80)\<rparr>]"
  by code_simp

end
