(* ===== verification/Build_Workspace.thy ===== *)
theory Build_Workspace
  imports Agent_Ops Js_Path Deploy_Command
begin

text \<open>
  \<open>build-workspace.service.ts\<close> and \<open>runtime.util.ts\<close>: cloning sources into the build directory,
  cleaning it up, and the two path tests that keep both inside it.
\<close>

record config =
  cf_build_root :: string
  cf_cwd :: "string list"
  cf_runtime :: "string option"
  cf_dockerenv :: bool
  cf_volume :: "string option"
  cf_user :: "(nat \<times> nat) option"

definition is_container_runtime :: "config \<Rightarrow> bool" where
  "is_container_runtime cfg = (cf_runtime cfg = Some ''container'' \<or> cf_dockerenv cfg)"

definition clone_workspace_mount :: "config \<Rightarrow> ('s, string) op" where
  "clone_workspace_mount cfg =
    (if is_container_runtime cfg
     then ret (case cf_volume cfg of Some v \<Rightarrow> v | None \<Rightarrow> ''optics-build'')
     else then_op (fs_do (FsMkdir (cf_build_root cfg))) (ret (cf_build_root cfg)))"

definition to_container_path :: "config \<Rightarrow> string \<Rightarrow> string \<Rightarrow> ('s, string) op" where
  "to_container_path cfg target label =
    (let base = path_resolve (cf_cwd cfg) (cf_build_root cfg); t = path_resolve (cf_cwd cfg) target
     in if escapes base t then throw (js_err (label @ '' must stay inside the build workspace.''))
        else ret (''/workspace/'' @ path_relative base t))"

definition helper_error :: "sync_result \<Rightarrow> string" where
  "helper_error r =
    (if js_trim (sy_stderr r) \<noteq> [] then js_trim (sy_stderr r)
     else ''helper cleanup container exited with code '' @
       (case sy_status r of None \<Rightarrow> ''unknown'' | Some n \<Rightarrow> show_int n))"

definition remove_build_dir :: "config \<Rightarrow> string \<Rightarrow> (string \<Rightarrow> ('s, unit) op) \<Rightarrow> ('s, unit) op" where
  "remove_build_dir cfg target sendLog =
    try_op (fs_do (FsRemove target)) (\<lambda>err.
      then_op (sendLog (''[BuildWorkspaceService] Local build directory cleanup failed, retrying in helper container.'' @
          [lf] @ ''  '' @ err))
      (bind_op (to_container_path cfg target ''Build directory cleanup target'') (\<lambda>containerTarget.
      bind_op (clone_workspace_mount cfg) (\<lambda>mount.
      bind_op (run_sync [''run'', ''--rm'', ''-v'', mount @ '':/workspace'', ''alpine:3.20'', ''rm'', ''-rf'',
                 containerTarget] None) (\<lambda>result.
        if sy_status result \<noteq> Some 0 then throw (js_err (helper_error result)) else ret ())))))"

definition docker_run_user_args :: "config \<Rightarrow> string list" where
  "docker_run_user_args cfg =
    (if is_container_runtime cfg then []
     else (case cf_user cfg of
             None \<Rightarrow> []
           | Some (u, g) \<Rightarrow> [''-u'', show_nat u @ '':'' @ show_nat g]))"

definition clone_in_git_container ::
    "config \<Rightarrow> string \<Rightarrow> string \<Rightarrow> (string \<Rightarrow> ('s, unit) op) \<Rightarrow> ('s, unit) op" where
  "clone_in_git_container cfg repoUrl target sendLog =
    bind_op (to_container_path cfg target ''Clone target'') (\<lambda>containerTarget.
    then_op (fs_do (FsMkdir (path_dirname target)))
    (bind_op (clone_workspace_mount cfg) (\<lambda>m.
    then_op (sendLog (''[BuildWorkspaceService] Cloning source in git container...'' @ [lf] @
        ''From: '' @ repoUrl @ [lf] @ ''Into: '' @ containerTarget))
    (run_cli ([''run'', ''--rm''] @ docker_run_user_args cfg @
        [''-v'', m @ '':/workspace'', ''alpine/git'', ''clone'', repoUrl, containerTarget])
      ''git clone container'' None sendLog False))))"

definition op_of :: "string + 'a \<Rightarrow> ('s, 'a) op" where
  "op_of r = (case r of Inl e \<Rightarrow> throw e | Inr x \<Rightarrow> ret x)"

definition clone_all :: "config \<Rightarrow> jsval \<Rightarrow> string \<Rightarrow> (string \<Rightarrow> ('s, unit) op) \<Rightarrow> ('s, string) op" where
  "clone_all cfg source baseDir sendLog =
    bind_op (op_of (normalize_source_repositories source)) (\<lambda>rs.
      let urls = map sr_url rs
      in if length urls = 1 then
           then_op (clone_in_git_container cfg (hd urls) baseDir sendLog)
           (then_op (sendLog ''[BuildWorkspaceService] Clone done.'') (ret baseDir))
         else
           then_op (fs_do (FsMkdir baseDir))
           (then_op (for_each urls (\<lambda>url.
              clone_in_git_container cfg url (path_join baseDir (repo_name url)) sendLog))
           (then_op (sendLog ''[BuildWorkspaceService] All Repository Successfully Cloned.'')
           (case urls of
              [] \<Rightarrow> throw ''TypeError: Cannot read properties of undefined''
            | url # _ \<Rightarrow> ret (path_join baseDir (repo_name url))))))"

definition resolve_build_context :: "config \<Rightarrow> string \<Rightarrow> string option \<Rightarrow> ('s, string) op" where
  "resolve_build_context cfg baseDir rootDirectory =
    (let cleanRoot = js_trim (or_empty rootDirectory)
     in if cleanRoot = [] \<or> cleanRoot = ''.'' then ret baseDir
        else
          (let base = path_resolve (cf_cwd cfg) baseDir;
               resolved = path_resolve base cleanRoot
           in if escapes base resolved
              then throw (js_err ''Root directory must stay inside the cloned repository.'')
              else
                bind_op (fs_test (FsExists (path_text resolved))) (\<lambda>exists.
                bind_op (if exists then fs_test (FsIsDirectory (path_text resolved)) else ret False) (\<lambda>dir.
                  if \<not> dir then throw (js_err (''Root directory not found: '' @ cleanRoot))
                  else ret (path_text resolved)))))"

definition apply_build_permissions :: "string \<Rightarrow> ('s, unit) op" where
  "apply_build_permissions buildDir =
    then_op (fs_do (FsChmod buildDir))
    (then_op (fs_do (FsReadDir buildDir))
    (bind_op (ask en_files) (\<lambda>files.
      for_each files (\<lambda>file.
        try_op (fs_do (FsChmod (path_join buildDir file))) (\<lambda>_. ret ())))))"

section \<open>Staying inside the workspace\<close>

lemma contract_fs_do [contracts]: "P (Fs c) \<Longrightarrow> contract I P (\<lambda>_. True) (\<lambda>_. True) (fs_do c)"
  unfolding fs_do_def by (intro contracts) auto

lemma contract_fs_test [contracts]: "P (Fs c) \<Longrightarrow> contract I P E (\<lambda>_. True) (fs_test c)"
  unfolding fs_test_def by (intro contracts) auto

lemma contract_op_of [contracts]: "contract I P (\<lambda>_. True) (\<lambda>_. True) (op_of r)"
  by (cases r) (auto simp: op_of_def intro: contracts)

lemma to_container_path_inside:
  assumes "list_all is_segment (cf_cwd cfg)"
    and "to_container_path cfg target label env s tr = (Inr ct, s', tr')"
  shows "\<exists>r. path_resolve (cf_cwd cfg) target = path_resolve (cf_cwd cfg) (cf_build_root cfg) @ r \<and>
    path_resolve [] ct = ''workspace'' # r"
proof -
  let ?base = "path_resolve (cf_cwd cfg) (cf_build_root cfg)"
  let ?t = "path_resolve (cf_cwd cfg) target"
  have e: "\<not> escapes ?base ?t" and ct: "ct = ''/workspace/'' @ path_relative ?base ?t"
    using assms(2) by (auto simp: to_container_path_def Let_def split: if_splits)
  obtain r where r: "?t = ?base @ r" using inside_base[OF e] by blast
  have seg: "list_all is_segment r"
    using path_resolve_clean[OF assms(1), of target] r by simp
  have rel: "path_relative ?base ?t = js_join [slash] r"
    using r by (simp add: path_relative_def common_prefix_self)
  have "path_resolve [] ct = walk (walk [] (segments ''/workspace'')) (segments (js_join [slash] r))"
    unfolding ct rel using walk_append_path[of "[]" "''/workspace''" "js_join [slash] r"]
    by (simp add: path_resolve_def)
  also have "walk [] (segments ''/workspace'') = [''workspace'']" by (simp add: segments_def)
  also have "walk [''workspace''] (segments (js_join [slash] r)) = ''workspace'' # r"
  proof (cases r)
    case Nil
    then show ?thesis by (simp add: segments_def)
  next
    case (Cons a b)
    then have "segments (js_join [slash] r) = r"
      using seg by (intro segments_join) (auto simp: list_all_iff is_segment_def)
    then show ?thesis using walk_id[OF seg, of "[''workspace'']"] by simp
  qed
  finally show ?thesis using r by blast
qed

lemma build_context_inside:
  assumes "list_all is_segment (cf_cwd cfg)"
    and "resolve_build_context cfg baseDir rt env s tr = (Inr dir, s', tr')"
  shows "\<exists>r. path_resolve (cf_cwd cfg) dir = path_resolve (cf_cwd cfg) baseDir @ r"
proof (cases "js_trim (or_empty rt) = [] \<or> js_trim (or_empty rt) = ''.''")
  case True
  then have "dir = baseDir" using assms(2) by (simp add: resolve_build_context_def)
  then show ?thesis by simp
next
  case False
  let ?base = "path_resolve (cf_cwd cfg) baseDir"
  let ?res = "path_resolve ?base (js_trim (or_empty rt))"
  have "\<not> escapes ?base ?res \<and> dir = path_text ?res"
    using assms(2) False
    by (auto simp: resolve_build_context_def Let_def fs_test_def run_bind split: if_splits)
  then obtain r where r: "?res = ?base @ r" "dir = path_text ?res" using inside_base by blast
  have "list_all is_segment ?res" using path_resolve_clean assms(1) by blast
  then have "path_resolve (cf_cwd cfg) dir = ?res" using r(2) path_resolve_text by simp
  then show ?thesis using r(1) by auto
qed

end
