(* ===== verification/Container_Lifecycle.thy ===== *)
theory Container_Lifecycle
  imports Build_Workspace
begin

text \<open>
  \<open>container-lifecycle.service.ts\<close>: starting, stopping, restarting and deleting containers, with
  the status and the log lines each reports. SHA-1 is the parameter of \<open>to_docker_name\<close>. A failure
  inside the \<open>try\<close> block is reported and swallowed, so the callers cannot see it.
\<close>

definition sq :: "string \<Rightarrow> string" where
  "sq s = [CHR 0x27] @ s @ [CHR 0x27]"

type_synonym 's emitter = "service_event \<Rightarrow> ('s, unit) op"

definition lifecycle_log :: "'s emitter \<Rightarrow> index \<Rightarrow> string \<Rightarrow> string \<Rightarrow> ('s, unit) op" where
  "lifecycle_log emit idx name = send_log emit idx name ''lifecycle''"

definition stop_service ::
    "(string \<Rightarrow> string) \<Rightarrow> index \<Rightarrow> string \<Rightarrow> jsval \<Rightarrow> 's emitter \<Rightarrow> ('s, unit) op" where
  "stop_service sha1 idx serviceName deployPreset emit =
    (let si = to_docker_name sha1 serviceName; sendLog = lifecycle_log emit idx si;
         sendStatus = send_status emit idx
     in bind_op (is_compose_preset deployPreset) (\<lambda>isCompose.
        try_op
          (block
            [sendLog (''Stopping service '' @ sq si @ ''...''),
             (if isCompose
              then run_cli [''compose'', ''-p'', si, ''stop''] ''docker compose stop'' None sendLog False
              else engine (EStop si)),
             sendStatus ''stopped'',
             sendLog (''Service '' @ sq si @ '' stopped successfully.'')])
          (\<lambda>e. block [sendStatus ''failed'', sendLog (''ERROR: '' @ e)])))"

definition start_container :: "index \<Rightarrow> string \<Rightarrow> 's emitter \<Rightarrow> ('s, unit) op" where
  "start_container idx containerName emit =
    (let sendLog = lifecycle_log emit idx containerName
     in try_op
          (block
            [sendLog (''Starting container '' @ sq containerName @ ''...''),
             engine (EStart containerName),
             sendLog (''Container '' @ sq containerName @ '' started successfully.'')])
          (\<lambda>e. sendLog (''ERROR: '' @ e)))"

definition stop_container :: "index \<Rightarrow> string \<Rightarrow> 's emitter \<Rightarrow> ('s, unit) op" where
  "stop_container idx containerName emit =
    (let sendLog = lifecycle_log emit idx containerName
     in try_op
          (block
            [sendLog (''Stopping container '' @ sq containerName @ ''...''),
             engine (EStop containerName),
             sendLog (''Container '' @ sq containerName @ '' stopped successfully.'')])
          (\<lambda>e. sendLog (''ERROR: '' @ e)))"

definition restart_service ::
    "(string \<Rightarrow> string) \<Rightarrow> index \<Rightarrow> string \<Rightarrow> jsval \<Rightarrow> 's emitter \<Rightarrow> ('s, unit) op" where
  "restart_service sha1 idx serviceName deployPreset emit =
    (let si = to_docker_name sha1 serviceName; sendLog = lifecycle_log emit idx si;
         sendStatus = send_status emit idx
     in bind_op (is_compose_preset deployPreset) (\<lambda>isCompose.
        try_op
          (block
            [sendStatus ''restarting'',
             sendLog (''Restarting service '' @ sq si @ ''...''),
             (if isCompose
              then run_cli [''compose'', ''-p'', si, ''restart''] ''docker compose restart'' None sendLog False
              else engine (ERestart si)),
             sendStatus ''running'',
             sendLog (''Service '' @ sq si @ '' restarted successfully.'')])
          (\<lambda>e. block [sendStatus ''failed'', sendLog (''ERROR: '' @ e)])))"

definition restart_container :: "index \<Rightarrow> string \<Rightarrow> 's emitter \<Rightarrow> ('s, unit) op" where
  "restart_container idx containerName emit =
    (let sendLog = lifecycle_log emit idx containerName
     in try_op
          (block
            [sendLog (''Restarting container '' @ sq containerName @ ''...''),
             engine (ERestart containerName),
             sendLog (''Container '' @ sq containerName @ '' restarted successfully.'')])
          (\<lambda>e. sendLog (''ERROR: '' @ e)))"

text \<open>The Dockerfile branch of \<open>deleteService\<close>\<close>

definition delete_container :: "string \<Rightarrow> bool \<Rightarrow> (string \<Rightarrow> ('s, unit) op) \<Rightarrow> ('s, unit) op" where
  "delete_container si service sendLog =
    then_op (engine (EInspect si))
    (bind_op (ask en_running) (\<lambda>running.
      block
        [when_op running (block
           [sendLog (''Stopping container '' @ sq si @ ''...''),
            engine (EStop si)]),
         engine (ERemove si),
         sendLog (''Container '' @ sq si @ '' removed.''),
         when_op service (try_op
           (block [engine (ERemoveImage si), sendLog (''Image '' @ sq si @ '' removed.'')])
           (\<lambda>_. sendLog (''No image found for '' @ sq si @ '', skipping.'')))]))"

definition delete_service ::
    "(string \<Rightarrow> string) \<Rightarrow> config \<Rightarrow> index \<Rightarrow> string \<Rightarrow> jsval \<Rightarrow> bool \<Rightarrow> 's emitter \<Rightarrow> ('s, unit) op" where
  "delete_service sha1 cfg idx serviceName deployPreset service emit =
    (let si = to_docker_name sha1 serviceName; sendLog = lifecycle_log emit idx si;
         sendStatus = send_status emit idx
     in bind_op (is_compose_preset deployPreset) (\<lambda>isCompose.
        try_op
          (block
            [sendLog (''Deleting service '' @ sq si @ ''...''),
             (if isCompose
              then run_cli (if service then [''compose'', ''-p'', si, ''down'', ''--rmi'', ''all'', ''--volumes'']
                            else [''compose'', ''-p'', si, ''down''])
                     ''docker compose down'' None sendLog False
              else delete_container si service sendLog),
             when_op service (remove_build_dir cfg (path_join (cf_build_root cfg) si) sendLog),
             sendStatus ''removed'',
             sendLog (''Service '' @ sq si @ '' deleted successfully.'')])
          (\<lambda>e. block [sendStatus ''failed'', sendLog (''ERROR: '' @ e)])))"

end
