(* ===== verification/Deploy_Service.thy ===== *)
theory Deploy_Service
  imports Container_Lifecycle Hash_Util
begin

text \<open>
  \<open>compose-project.service.ts\<close>, \<open>image-build.service.ts\<close> and \<open>deploy.service.ts\<close>: one deployment, from
  the cleaning of the old container to the running one. A build reports its progress events before
  it ends; \<open>EFollow\<close> is the end of the progress stream.
\<close>

section \<open>Compose projects\<close>

definition override_failed :: string where
  "override_failed = ''Failed to generate compose restart override.''"

definition has_compose_file :: "string \<Rightarrow> ('s, bool) op" where
  "has_compose_file buildDir =
    bind_op (fs_test (FsExists (path_join buildDir ''docker-compose.yml''))) (\<lambda>yml.
      if yml then ret True else fs_test (FsExists (path_join buildDir ''docker-compose.yaml'')))"

text \<open>\<open>{ ...userEnv }\<close> with \<open>PORT\<close> put in when the user gave none\<close>

definition final_env :: "jsval \<Rightarrow> jsval \<Rightarrow> (string \<times> jsval) list" where
  "final_env userEnv containerPort =
    (let e = spread (or_else userEnv (JObj 0 []))
     in if containerPort \<noteq> JUndef \<and> obj_get e ''PORT'' = JUndef
        then obj_assign ''PORT'' (JStr (js_string containerPort)) e else e)"

definition env_lines :: "(string \<times> jsval) list \<Rightarrow> string list" where
  "env_lines e = map (\<lambda>(k, v). k @ ''='' @ js_string v) e"

definition env_port :: "deploy_command \<Rightarrow> string + jsval" where
  "env_port d =
    bind_res (resolve_port_mappings d) (\<lambda>ms.
      Inr (or_else (case ms of [] \<Rightarrow> JUndef | m # _ \<Rightarrow> pm_container m)
        (or_else (dc_container_port d) (dc_port d))))"

definition write_env_file :: "string \<Rightarrow> deploy_command \<Rightarrow> ('s, unit) op" where
  "write_env_file buildDir d =
    bind_op (op_of (env_port d)) (\<lambda>port.
      let e = final_env (dc_env d) port
      in if e = [] then ret ()
         else fs_do (FsWrite (path_join buildDir ''.env'') (js_join [lf] (env_lines e))))"

definition service_list_error :: "sync_result \<Rightarrow> string" where
  "service_list_error r =
    (if js_trim (sy_stderr r) \<noteq> [] then js_trim (sy_stderr r)
     else ''docker compose config --services failed.'')"

definition list_error_line :: "string \<Rightarrow> string" where
  "list_error_line m =
    ''[ComposeProjectService] Could not resolve compose service list for restart override.'' @ [lf] @ ''  '' @ m"

definition list_services :: "string \<Rightarrow> (string \<Rightarrow> ('s, unit) op) \<Rightarrow> ('s, string list) op" where
  "list_services buildDir sendLog =
    try_op
      (bind_op (run_sync [''compose'', ''config'', ''--services''] (Some buildDir)) (\<lambda>r.
         if sy_status r \<noteq> Some 0 then
           then_op (sendLog (list_error_line (service_list_error r))) (throw (js_err override_failed))
         else ret (filter (\<lambda>s. s \<noteq> []) (map js_trim (split_on lf (sy_stdout r))))))
      (\<lambda>e. if e = js_err override_failed then throw e
            else then_op (sendLog (list_error_line e)) (throw (js_err override_failed)))"

definition override_content :: "string list \<Rightarrow> string" where
  "override_content services =
    js_join [lf] (''services:'' # map (\<lambda>s. ''  '' @ s @ '':'' @ [lf] @ ''    restart: '' @
      [CHR 0x22] @ ''no'' @ [CHR 0x22]) services) @ [lf]"

definition write_no_restart_override ::
    "string \<Rightarrow> (string \<Rightarrow> ('s, unit) op) \<Rightarrow> ('s, string list) op" where
  "write_no_restart_override buildDir sendLog =
    bind_op (list_services buildDir sendLog) (\<lambda>services.
      if services = [] then
        then_op (sendLog ''[ComposeProjectService] Compose service list is empty; restart override cannot be generated.'')
          (throw (js_err override_failed))
      else
        then_op
          (try_op (fs_do (FsWrite (path_join buildDir ''docker-compose.override.yml'') (override_content services)))
            (\<lambda>e. then_op (sendLog (''[ComposeProjectService] Could not write compose restart override.'' @ [lf] @
                     ''  '' @ e)) (throw (js_err override_failed))))
        (then_op (sendLog (''[ComposeProjectService] Injected restart: '' @ [CHR 0x22] @ ''no'' @ [CHR 0x22] @
           '' override for services: '' @ js_join '', '' services))
          (ret services)))"

definition compose_up :: "string \<Rightarrow> string \<Rightarrow> (string \<Rightarrow> ('s, unit) op) \<Rightarrow> ('s, unit) op" where
  "compose_up projectName buildDir sendLog =
    run_cli [''compose'', ''-p'', projectName, ''up'', ''-d'', ''--build''] ''docker compose'' (Some buildDir)
      sendLog False"

definition compose_down :: "string \<Rightarrow> string \<Rightarrow> (string \<Rightarrow> ('s, unit) op) \<Rightarrow> ('s, unit) op" where
  "compose_down projectName cwd sendLog =
    bind_op (fs_test (FsExists cwd)) (\<lambda>exists.
      when_op exists
        (then_op (sendLog (''[ComposeProjectService] Cleaning up failed compose project '' @ sq projectName @ ''...''))
          (run_cli [''compose'', ''-p'', projectName, ''down'', ''--remove-orphans'']
            (''docker compose down for '' @ sq projectName) (Some cwd) sendLog True)))"

section \<open>Images\<close>

definition build_event ::
    "(string \<Rightarrow> ('s, unit) op) \<Rightarrow> string option \<times> string option \<Rightarrow> ('s, unit) op" where
  "build_event sendLog ev =
    then_op (if or_empty (fst ev) \<noteq> [] then sendLog (js_trim (or_empty (fst ev))) else ret ())
      (if or_empty (snd ev) \<noteq> [] then sendLog (''BUILD ERROR: '' @ or_empty (snd ev)) else ret ())"

definition build_image :: "string \<Rightarrow> string \<Rightarrow> (string \<Rightarrow> ('s, unit) op) \<Rightarrow> ('s, unit) op" where
  "build_image buildDir tag sendLog =
    then_op (fs_do (FsReadDir buildDir))
    (then_op (engine (EBuild buildDir tag))
    (bind_op (ask en_build) (\<lambda>events.
     then_op (for_each events (build_event sendLog))
     (then_op (engine (EFollow tag))
       (case filter (\<lambda>ev. or_empty (snd ev) \<noteq> []) events of
          [] \<Rightarrow> ret ()
        | ev # _ \<Rightarrow> throw (js_err (or_empty (snd ev))))))))"

text \<open>\<open>portBindings[key] = \<dots>\<close> for every mapping in turn\<close>

definition port_bindings :: "port_mapping list \<Rightarrow> (string \<times> string) list" where
  "port_bindings ms =
    fold (\<lambda>m b. obj_assign (js_string (pm_container m) @ ''/tcp'') (js_string (pm_host m)) b) ms []"

definition run_container ::
    "(string \<Rightarrow> string) \<Rightarrow> string \<Rightarrow> jsval \<Rightarrow> port_mapping list \<Rightarrow> jsval \<Rightarrow> ('s, unit) op" where
  "run_container sha1 serviceName version ms env =
    then_op (engine (ECreate (to_docker_name sha1 serviceName @ '':'' @ js_string version)
        (to_docker_name sha1 serviceName)
        (if truthy env then Some (env_lines (spread env)) else None)
        (port_bindings ms)))
      (engine (EStart (to_docker_name sha1 serviceName)))"

definition remove_existing_container ::
    "(string \<Rightarrow> string) \<Rightarrow> string \<Rightarrow> (string \<Rightarrow> ('s, unit) op) \<Rightarrow> ('s, unit) op" where
  "remove_existing_container sha1 serviceName sendLog =
    (let n = to_docker_name sha1 serviceName
     in try_op
          (then_op (engine (EInspect n))
            (bind_op (ask en_running) (\<lambda>running.
              block
                [when_op running (block
                   [sendLog (''Stopping existing container '' @ sq serviceName @ ''...''), engine (EStop n)]),
                 sendLog (''Removing existing container '' @ sq serviceName @ ''...''),
                 engine (ERemove n)])))
          (\<lambda>_. sendLog ''No running container found. Proceeding deploy.''))"

section \<open>Deployments\<close>

definition attempt :: "('s, 'a) op \<Rightarrow> ('s, string + 'a) op" where
  "attempt m = try_op (bind_op m (\<lambda>x. ret (Inr x))) (\<lambda>e. ret (Inl e))"

definition docker_name_of :: "(string \<Rightarrow> string) \<Rightarrow> jsval \<Rightarrow> ('s, string) op" where
  "docker_name_of sha1 v =
    (if nullish v then ret (to_docker_name sha1 [])
     else (case v of JStr s \<Rightarrow> ret (to_docker_name sha1 s)
           | _ \<Rightarrow> throw ''TypeError: toLowerCase is not a function''))"

definition should_use_compose :: "jsval \<Rightarrow> string \<Rightarrow> ('s, bool) op" where
  "should_use_compose deployPreset buildDir =
    bind_op (preset_upper deployPreset) (\<lambda>preset.
    bind_op (has_compose_file buildDir) (\<lambda>composeFileExists.
      if preset = ''COMPOSE'' \<and> \<not> composeFileExists then throw (js_err ''docker-compose.yml not found.'')
      else ret (preset = ''COMPOSE'' \<or> (preset \<noteq> ''DOCKERFILE'' \<and> composeFileExists))))"

definition deploy_with_compose ::
    "string \<Rightarrow> string \<Rightarrow> deploy_command \<Rightarrow> (string \<Rightarrow> ('s, unit) op) \<Rightarrow> (string list \<Rightarrow> ('s, unit) op) \<Rightarrow>
     ('s, unit) op" where
  "deploy_with_compose serviceName buildDir d sendLog onExpectedServices =
    then_op (sendLog ''Detected docker-compose, starting build...'')
    (then_op (write_env_file buildDir d)
    (bind_op (write_no_restart_override buildDir sendLog) (\<lambda>services.
     then_op (onExpectedServices services)
       (compose_up serviceName buildDir sendLog))))"

definition deploy_with_dockerfile ::
    "(string \<Rightarrow> string) \<Rightarrow> string \<Rightarrow> string \<Rightarrow> deploy_command \<Rightarrow> (string \<Rightarrow> ('s, unit) op) \<Rightarrow>
     (string \<Rightarrow> ('s, unit) op) \<Rightarrow> ('s, unit) op" where
  "deploy_with_dockerfile sha1 serviceName buildDir d sendLog sendStatus =
    then_op (sendLog ''Detected Dockerfile, starting build...'')
    (then_op (build_image buildDir (serviceName @ '':'' @ js_string (dc_version d)) sendLog)
    (then_op (sendLog ''Build done. Starting container...'')
    (then_op (sendStatus ''starting'')
    (bind_op (op_of (resolve_port_mappings d)) (\<lambda>ms.
      run_container sha1 serviceName (dc_version d) ms (dc_env d))))))"

definition preserve_failed_deploy_artifacts :: bool where
  "preserve_failed_deploy_artifacts = True"

definition cleanup_failed_deployment ::
    "config \<Rightarrow> string \<Rightarrow> string option \<Rightarrow> (string \<Rightarrow> ('s, unit) op) \<Rightarrow> ('s, unit) op" where
  "cleanup_failed_deployment cfg projectName composeBuildDir sendLog =
    (if preserve_failed_deploy_artifacts then
       sendLog ''[DeployService] Failed deploy cleanup is temporarily disabled; leaving containers and build directory in place.''
     else
       then_op (case composeBuildDir of Some dir \<Rightarrow> compose_down projectName dir sendLog | None \<Rightarrow> ret ())
         (remove_build_dir cfg (path_join (cf_build_root cfg) projectName) sendLog))"

text \<open>The \<open>try\<close> block up to the choice of the branch; it gives the build directory and the choice.\<close>

definition deploy_prepare ::
    "(string \<Rightarrow> string) \<Rightarrow> config \<Rightarrow> string \<Rightarrow> deploy_command \<Rightarrow> (string \<Rightarrow> ('s, unit) op) \<Rightarrow>
     (string \<Rightarrow> ('s, unit) op) \<Rightarrow> ('s, string \<times> bool) op" where
  "deploy_prepare sha1 cfg serviceName d sendLog sendStatus =
    (let serviceDir = path_join (cf_build_root cfg) serviceName
     in then_op (sendStatus ''building'')
        (then_op (sendLog (''Redeploying service '' @ serviceName @ ''@'' @ js_string (dc_version d)))
        (then_op (remove_existing_container sha1 serviceName sendLog)
        (then_op (remove_build_dir cfg serviceDir sendLog)
        (bind_op (clone_all cfg (dc_source d) serviceDir sendLog) (\<lambda>clonedDir.
         bind_op (op_of (primary_root_directory d)) (\<lambda>rootDirectory.
         bind_op (resolve_build_context cfg clonedDir rootDirectory) (\<lambda>buildDir.
         then_op (when_op (buildDir \<noteq> clonedDir)
           (sendLog (''[DeployService] Using root directory: '' @ or_empty rootDirectory)))
         (then_op (apply_build_permissions buildDir)
         (bind_op (should_use_compose (dc_preset d) buildDir) (\<lambda>compose.
           ret (buildDir, compose))))))))))))"

definition deploy_run ::
    "(string \<Rightarrow> string) \<Rightarrow> string \<Rightarrow> deploy_command \<Rightarrow> (string \<Rightarrow> ('s, unit) op) \<Rightarrow> (string \<Rightarrow> ('s, unit) op) \<Rightarrow>
     (string list \<Rightarrow> ('s, unit) op) \<Rightarrow> string \<times> bool \<Rightarrow> ('s, unit) op" where
  "deploy_run sha1 serviceName d sendLog sendStatus onExpectedServices p =
    then_op
      (if snd p then deploy_with_compose serviceName (fst p) d sendLog onExpectedServices
       else deploy_with_dockerfile sha1 serviceName (fst p) d sendLog sendStatus)
    (then_op (sendLog ''Service redeployed successfully.'')
      (sendStatus ''running''))"

text \<open>The \<open>catch\<close> block\<close>

definition deploy_failed ::
    "config \<Rightarrow> string \<Rightarrow> (string \<Rightarrow> ('s, unit) op) \<Rightarrow> (string \<Rightarrow> ('s, unit) op) \<Rightarrow> string option \<Rightarrow> string \<Rightarrow>
     ('s, bool) op" where
  "deploy_failed cfg serviceName sendLog sendStatus composeBuildDir err =
    then_op (cleanup_failed_deployment cfg serviceName composeBuildDir sendLog)
    (then_op (sendStatus ''failed'')
    (then_op (sendLog (''ERROR: '' @ err))
      (ret False)))"

definition deploy ::
    "(string \<Rightarrow> string) \<Rightarrow> config \<Rightarrow> deploy_command \<Rightarrow> 's emitter \<Rightarrow> (string list \<Rightarrow> ('s, unit) op) \<Rightarrow>
     ('s, bool) op" where
  "deploy sha1 cfg d emit onExpectedServices =
    bind_op (docker_name_of sha1 (dc_name d)) (\<lambda>serviceName.
    let sendLog = send_log emit (dc_index d) serviceName ''deploy''; sendStatus = send_status emit (dc_index d)
    in bind_op (attempt (deploy_prepare sha1 cfg serviceName d sendLog sendStatus)) (\<lambda>r.
       case r of
         Inl e \<Rightarrow> deploy_failed cfg serviceName sendLog sendStatus None e
       | Inr p \<Rightarrow>
           bind_op (attempt (deploy_run sha1 serviceName d sendLog sendStatus onExpectedServices p)) (\<lambda>r'.
             case r' of
               Inl e \<Rightarrow> deploy_failed cfg serviceName sendLog sendStatus
                          (if snd p then Some (fst p) else None) e
             | Inr _ \<Rightarrow> ret True)))"

end
