(* ===== verification/Json_Parse.thy ===== *)
theory Json_Parse
  imports Js_Coerce
begin

text \<open>
  \<open>JSON.parse\<close> on the texts the agent reads back: Docker's \<open>--format json\<close> output, the stored
  connection request and \<open>package.json\<close>. The parser recurses on a fuel of twice the length of the
  text, and every second step consumes a character. Escapes above \<open>\u00ff\<close> are outside the range of
  the string model and read as question marks. Object identities are not observed by these readers
  and are all zero.
\<close>

definition is_json_space :: "char \<Rightarrow> bool" where
  "is_json_space c = (code c \<in> {9, 10, 13, 32})"

definition skip_ws :: "string \<Rightarrow> string" where
  "skip_ws s = dropWhile is_json_space s"

text \<open>One hexadecimal digit, and the character of a simple escape\<close>

definition hex_digit_of :: "char \<Rightarrow> nat option" where
  "hex_digit_of c =
    (let n = code (lower_char c)
     in if \<not> is_hex c then None else Some (if n \<le> 57 then n - 48 else n - 87))"

definition simple_escape :: "char \<Rightarrow> char option" where
  "simple_escape c =
    (if c \<in> {CHR 0x22, CHR 0x5C, CHR ''/''} then Some c
     else if c = CHR ''b'' then Some (CHR 0x08)
     else if c = CHR ''f'' then Some (CHR 0x0C)
     else if c = CHR ''n'' then Some (CHR 0x0A)
     else if c = CHR ''r'' then Some (CHR 0x0D)
     else if c = CHR ''t'' then Some (CHR 0x09)
     else None)"

definition unicode_escape :: "char \<Rightarrow> char \<Rightarrow> char \<Rightarrow> char \<Rightarrow> char option" where
  "unicode_escape a b c d =
    (case (hex_digit_of a, hex_digit_of b, hex_digit_of c, hex_digit_of d) of
       (Some w, Some x, Some y, Some z) \<Rightarrow>
         (let n = ((w * 16 + x) * 16 + y) * 16 + z
          in Some (if n < 256 then char_of n else CHR ''?''))
     | _ \<Rightarrow> None)"

text \<open>The characters of a string literal up to its closing quote, and what follows it\<close>

fun json_chars :: "string \<Rightarrow> (string \<times> string) option" where
  "json_chars [] = None"
| "json_chars [c] = (if c = CHR 0x22 then Some ([], []) else None)"
| "json_chars (c # e # r) =
    (if c = CHR 0x22 then Some ([], e # r)
     else if code c < 32 then None
     else if c = CHR 0x5C then
       (if e = CHR ''u''
        then (case r of
                x # y # z # w # r' \<Rightarrow>
                  (case (unicode_escape x y z w, json_chars r') of
                     (Some d, Some (s, t)) \<Rightarrow> Some (d # s, t)
                   | _ \<Rightarrow> None)
              | _ \<Rightarrow> None)
        else (case (simple_escape e, json_chars r) of
                (Some d, Some (s, t)) \<Rightarrow> Some (d # s, t)
              | _ \<Rightarrow> None))
     else (case json_chars (e # r) of Some (s, t) \<Rightarrow> Some (c # s, t) | None \<Rightarrow> None))"

text \<open>\<open>-?(0|[1-9]\d*)(\.\d+)?([eE][+-]?\d+)?\<close>\<close>

definition is_json_num_char :: "char \<Rightarrow> bool" where
  "is_json_num_char c = (is_digit c \<or> c \<in> {CHR ''-'', CHR ''+'', CHR ''.'', CHR ''e'', CHR ''E''})"

definition digits_first :: "string \<Rightarrow> string \<times> string" where
  "digits_first s = (takeWhile is_digit s, dropWhile is_digit s)"

definition valid_exponent :: "string \<Rightarrow> bool" where
  "valid_exponent s =
    (case s of
       [] \<Rightarrow> True
     | c # r \<Rightarrow> (c = CHR ''e'' \<or> c = CHR ''E'') \<and>
         (let d = (if r \<noteq> [] \<and> hd r \<in> {CHR ''+'', CHR ''-''} then tl r else r)
          in d \<noteq> [] \<and> list_all is_digit d))"

definition valid_fraction :: "string \<Rightarrow> bool" where
  "valid_fraction s =
    (if s \<noteq> [] \<and> hd s = CHR ''.''
     then (let (d, r) = digits_first (tl s) in d \<noteq> [] \<and> valid_exponent r)
     else valid_exponent s)"

definition valid_json_num :: "string \<Rightarrow> bool" where
  "valid_json_num s =
    (let t = (if s \<noteq> [] \<and> hd s = CHR ''-'' then tl s else s); (d, r) = digits_first t
     in d \<noteq> [] \<and> (d = ''0'' \<or> hd d \<noteq> CHR ''0'') \<and> valid_fraction r)"

definition json_number :: "string \<Rightarrow> (jsval \<times> string) option" where
  "json_number s =
    (let t = takeWhile is_json_num_char s
     in if valid_json_num t then Some (JNum (string_to_num t), dropWhile is_json_num_char s) else None)"

definition literal :: "string \<Rightarrow> jsval \<Rightarrow> string \<Rightarrow> (jsval \<times> string) option" where
  "literal w v s = (if starts_with s w then Some (v, drop (length w) s) else None)"

fun json_value :: "nat \<Rightarrow> string \<Rightarrow> (jsval \<times> string) option"
  and json_items :: "nat \<Rightarrow> string \<Rightarrow> (jsval list \<times> string) option"
  and json_members :: "nat \<Rightarrow> (string \<times> jsval) list \<Rightarrow> string \<Rightarrow> ((string \<times> jsval) list \<times> string) option" where
  "json_value 0 s = None"
| "json_value (Suc n) s =
    (case skip_ws s of
       [] \<Rightarrow> None
     | c # r \<Rightarrow>
         if c = CHR 0x22 then
           (case json_chars r of Some (t, u) \<Rightarrow> Some (JStr t, u) | None \<Rightarrow> None)
         else if c = CHR ''['' then
           (case skip_ws r of
              [] \<Rightarrow> None
            | d # u \<Rightarrow>
                if d = CHR '']'' then Some (JArr 0 [], u)
                else (case json_items n (d # u) of Some (vs, w) \<Rightarrow> Some (JArr 0 vs, w) | None \<Rightarrow> None))
         else if c = CHR ''{'' then
           (case skip_ws r of
              [] \<Rightarrow> None
            | d # u \<Rightarrow>
                if d = CHR ''}'' then Some (JObj 0 [], u)
                else (case json_members n [] (d # u) of Some (ms, w) \<Rightarrow> Some (JObj 0 ms, w) | None \<Rightarrow> None))
         else if c = CHR ''t'' then literal ''true'' (JBool True) (c # r)
         else if c = CHR ''f'' then literal ''false'' (JBool False) (c # r)
         else if c = CHR ''n'' then literal ''null'' JNull (c # r)
         else json_number (c # r))"
| "json_items 0 s = None"
| "json_items (Suc n) s =
    (case json_value n s of
       None \<Rightarrow> None
     | Some (v, r) \<Rightarrow>
         (case skip_ws r of
            [] \<Rightarrow> None
          | c # u \<Rightarrow>
              if c = CHR '']'' then Some ([v], u)
              else if c = CHR '','' then
                (case json_items n u of Some (vs, w) \<Rightarrow> Some (v # vs, w) | None \<Rightarrow> None)
              else None))"
| "json_members 0 ms s = None"
| "json_members (Suc n) ms s =
    (case skip_ws s of
       [] \<Rightarrow> None
     | q # r \<Rightarrow>
         if q \<noteq> CHR 0x22 then None
         else (case json_chars r of
                 None \<Rightarrow> None
               | Some (k, r2) \<Rightarrow>
                   (case skip_ws r2 of
                      [] \<Rightarrow> None
                    | c # r3 \<Rightarrow>
                        if c \<noteq> CHR '':'' then None
                        else (case json_value n r3 of
                                None \<Rightarrow> None
                              | Some (v, r4) \<Rightarrow>
                                  (case skip_ws r4 of
                                     [] \<Rightarrow> None
                                   | d # u \<Rightarrow>
                                       if d = CHR ''}'' then Some (obj_define k v ms, u)
                                       else if d = CHR '','' then json_members n (obj_define k v ms) u
                                       else None)))))"

definition json_parse :: "string \<Rightarrow> jsval option" where
  "json_parse s =
    (case json_value (Suc (2 * length s)) s of
       Some (v, r) \<Rightarrow> if skip_ws r = [] then Some v else None
     | None \<Rightarrow> None)"

text \<open>\<open>parseJsonOutput\<close>: one JSON text, or one per line, lines that are not JSON left out\<close>

definition parse_json_output :: "string \<Rightarrow> jsval list" where
  "parse_json_output out =
    (let t = js_trim out
     in if t = [] then []
        else (case json_parse t of
                Some (JArr a vs) \<Rightarrow> vs
              | Some v \<Rightarrow> [v]
              | None \<Rightarrow> concat (map (\<lambda>line. case json_parse line of Some v \<Rightarrow> [v] | None \<Rightarrow> [])
                          (filter (\<lambda>l. l \<noteq> []) (map js_trim (split_on (CHR 0x0A) t))))))"

end
