(* ===== verification/Container_Inspect.thy ===== *)
theory Container_Inspect
  imports Build_Workspace Json_Parse
begin

text \<open>
  \<open>container-inspect.service.ts\<close>: the containers of a service with their states, read off the JSON
  that \<open>docker inspect\<close>, \<open>docker compose ps\<close> and \<open>docker ps\<close> print. A row that is \<open>null\<close>, or whose
  state is not a string, makes the lookup throw.
\<close>

text \<open>An optional string argument: a method call on another type throws.\<close>

definition string_arg :: "jsval \<Rightarrow> string + string option" where
  "string_arg v =
    (if nullish v then Inr None
     else (case v of JStr s \<Rightarrow> Inr (Some s) | _ \<Rightarrow> Inl ''TypeError: toLowerCase is not a function''))"

text \<open>\<open>healthFromStatus\<close> returns \<open>null\<close> on any falsy value before it calls a method.\<close>

definition status_arg :: "jsval \<Rightarrow> string + string option" where
  "status_arg v = (if truthy v then string_arg v else Inr None)"

definition inspected_container :: "string \<Rightarrow> jsval \<Rightarrow> string + container_state" where
  "inspected_container serviceName c =
    bind_res (member c ''State'') (\<lambda>st0.
      let st = or_else st0 (JObj 0 []);
          exitCode = (case get_field st ''ExitCode'' of JNum n \<Rightarrow> Some n | _ \<Rightarrow> None);
          health = str_value (get_field (get_field st ''Health'') ''Status'');
          nm = get_field c ''Name''
      in bind_res (string_arg (get_field st ''Status'')) (\<lambda>status.
           Inr \<lparr>cs_name = (if truthy nm
                  then (let s = js_string nm in if starts_with s ''/'' then tl s else s)
                  else serviceName),
                cs_status = normalize_container_status status exitCode health,
                cs_service = None, cs_exit = exitCode, cs_health = health\<rparr>))"

definition inspect_dockerfile_container :: "string \<Rightarrow> ('s, container_state list) op" where
  "inspect_dockerfile_container serviceName =
    bind_op (run_sync [''inspect'', serviceName] None) (\<lambda>result.
      if sy_status result \<noteq> Some 0 then ret []
      else op_of (mapM_res (inspected_container serviceName) (parse_json_output (sy_stdout result))))"

definition row_exit_code :: "jsval \<Rightarrow> jsnum option" where
  "row_exit_code v =
    (case v of JNum n \<Rightarrow> Some n
     | _ \<Rightarrow> if num_finite (js_number v) then Some (js_number v) else None)"

definition compose_row :: "jsval \<Rightarrow> string + container_state" where
  "compose_row row =
    bind_res (member row ''ExitCode'') (\<lambda>ec.
    let exitCode = row_exit_code ec
    in bind_res (case get_field row ''Health'' of
                   JStr h \<Rightarrow> Inr (Some h)
                 | _ \<Rightarrow> bind_res (status_arg (get_field row ''Status'')) (\<lambda>s. Inr (health_from_status s)))
         (\<lambda>health.
       bind_res (string_arg (get_field row ''State'')) (\<lambda>st.
         Inr \<lparr>cs_name = js_string (or_else (get_field row ''Name'') (or_else (get_field row ''Names'')
                (or_else (get_field row ''ID'') (JStr [])))),
              cs_status = normalize_container_status st exitCode health,
              cs_service = (let s = get_field row ''Service'' in if truthy s then Some (js_string s) else None),
              cs_exit = exitCode, cs_health = health\<rparr>)))"

definition optional_string :: "jsval \<Rightarrow> string option" where
  "optional_string v = (if truthy v then Some (js_string v) else None)"

definition ps_row :: "jsval \<Rightarrow> string + container_state" where
  "ps_row row =
    bind_res (member row ''Labels'') (\<lambda>l.
      let labels = labels_to_record (optional_string l);
          health = health_from_status (optional_string (get_field row ''Status''))
      in Inr \<lparr>cs_name = js_string (or_else (get_field row ''Names'') (JStr [])),
              cs_status = normalize_container_status (optional_string (get_field row ''State'')) None health,
              cs_service = map_of labels ''com.docker.compose.service'',
              cs_exit = None, cs_health = health\<rparr>)"

definition named :: "container_state list \<Rightarrow> container_state list" where
  "named cs = filter (\<lambda>c. cs_name c \<noteq> []) cs"

definition ps_containers :: "string \<Rightarrow> ('s, container_state list) op" where
  "ps_containers projectName =
    bind_op (run_sync [''ps'', ''-a'', ''--filter'', ''label=com.docker.compose.project='' @ projectName,
               ''--format'', ''{{json .}}''] None) (\<lambda>r.
      if sy_status r \<noteq> Some 0 then ret []
      else bind_op (op_of (mapM_res ps_row (parse_json_output (sy_stdout r)))) (\<lambda>cs. ret (named cs)))"

text \<open>\<open>listComposeContainers\<close>: \<open>compose ps\<close> while the build directory exists, else the project label\<close>

definition list_compose_containers :: "config \<Rightarrow> string \<Rightarrow> ('s, container_state list) op" where
  "list_compose_containers cfg projectName =
    (let buildDir = path_join (cf_build_root cfg) projectName
     in bind_op (fs_test (FsExists buildDir)) (\<lambda>exists.
          if exists then
            bind_op (run_sync [''compose'', ''-p'', projectName, ''ps'', ''-a'', ''--format'', ''json'']
                       (Some buildDir)) (\<lambda>r.
              if sy_status r = Some 0 \<and> parse_json_output (sy_stdout r) \<noteq> []
              then bind_op (op_of (mapM_res compose_row (parse_json_output (sy_stdout r))))
                     (\<lambda>cs. ret (named cs))
              else ps_containers projectName)
          else ps_containers projectName))"

definition get_container_states :: "config \<Rightarrow> string \<Rightarrow> jsval \<Rightarrow> ('s, container_state list) op" where
  "get_container_states cfg serviceName deployPreset =
    bind_op (is_compose_preset deployPreset) (\<lambda>isCompose.
      if isCompose then list_compose_containers cfg serviceName
      else inspect_dockerfile_container serviceName)"

section \<open>Only looking\<close>

text \<open>What the lookup does to the world: it tests a path and runs Docker's read-only commands.\<close>

definition looks :: "effect \<Rightarrow> bool" where
  "looks e =
    (case e of
       Fs (FsExists p) \<Rightarrow> True
     | CliSync args cwd \<Rightarrow> args \<noteq> [] \<and> (hd args = ''inspect'' \<or> hd args = ''ps'' \<or>
         (hd args = ''compose'' \<and> drop 3 args = [''ps'', ''-a'', ''--format'', ''json'']))
     | _ \<Rightarrow> False)"

lemma contract_is_compose [contracts]: "contract I P (\<lambda>_. True) (\<lambda>_. True) (is_compose_preset p)"
  unfolding is_compose_preset_def preset_upper_def by (cases p) (auto intro!: contracts)

lemma get_container_states_looks: "contract I looks (\<lambda>_. True) (\<lambda>_. True) (get_container_states cfg name p)"
  unfolding get_container_states_def list_compose_containers_def ps_containers_def
    inspect_dockerfile_container_def Let_def
  by (auto intro!: contracts simp: looks_def)

end
