(* ===== verification/Agent_State.thy ===== *)
theory Agent_State
  imports Container_Lifecycle Container_Inspect
begin

text \<open>
  The mutable state of \<open>ServiceLifecycleService\<close> and \<open>DockerLogService\<close>: whether the Hub's emitter is
  registered, the services whose containers are followed, the last snapshot of each, and the open
  log streams with the number of processes started so far, which names them.
\<close>

record tracked_service =
  ts_name :: string
  ts_preset :: jsval

record agent =
  ag_hub :: bool
  ag_tracked :: "(index, tracked_service) jsmap"
  ag_snapshots :: "(index, snapshot) jsmap"
  ag_streams :: "(string, nat) jsmap"
  ag_spawned :: nat

definition agent_start :: agent where
  "agent_start = \<lparr>ag_hub = False, ag_tracked = [], ag_snapshots = [], ag_streams = [], ag_spawned = 0\<rparr>"

text \<open>\<open>this.hubEmit?.(event, payload)\<close>\<close>

definition hub_emit :: "string \<Rightarrow> hub_payload \<Rightarrow> (agent, unit) op" where
  "hub_emit event payload = bind_op (gets ag_hub) (\<lambda>h. when_op h (perform (Hub event payload)))"

definition register_hub_emit :: "(agent, unit) op" where
  "register_hub_emit = modify (\<lambda>s. s\<lparr>ag_hub := True\<rparr>)"

lemma contract_hub_emit [contracts]: "P (Hub e p) \<Longrightarrow> contract I P E (\<lambda>_. True) (hub_emit e p)"
  unfolding hub_emit_def by (intro contracts) auto

end
