(* ===== verification/Js_Date.thy ===== *)
theory Js_Date
  imports Js_Text
begin

text \<open>
  JavaScript dates as milliseconds since 1970: the proleptic Gregorian calendar, \<open>toISOString\<close>, and
  the reading of an ISO 8601 date and time with a zone. Years are counted from March, so that the
  leap day is the last day of a year.
\<close>

definition days_from_civil :: "int \<Rightarrow> int \<Rightarrow> int \<Rightarrow> int" where
  "days_from_civil y0 m d =
    (let y = (if m \<le> 2 then y0 - 1 else y0); era = y div 400; yoe = y mod 400;
         mp = (if m > 2 then m - 3 else m + 9); doy = (153 * mp + 2) div 5 + d - 1;
         doe = yoe * 365 + yoe div 4 - yoe div 100 + doy
     in era * 146097 + doe - 719468)"

definition civil_from_days :: "int \<Rightarrow> int \<times> int \<times> int" where
  "civil_from_days days =
    (let z = days + 719468; era = z div 146097; doe = z mod 146097;
         yoe = (doe - doe div 1460 + doe div 36524 - doe div 146096) div 365;
         doy = doe - (365 * yoe + yoe div 4 - yoe div 100);
         mp = (5 * doy + 2) div 153; d = doy - (153 * mp + 2) div 5 + 1;
         m = (if mp < 10 then mp + 3 else mp - 9); y = yoe + era * 400
     in (if m \<le> 2 then y + 1 else y, m, d))"

definition pad_left :: "nat \<Rightarrow> int \<Rightarrow> string" where
  "pad_left n i = (let s = show_nat (nat i) in replicate (n - length s) (CHR ''0'') @ s)"

definition year_text :: "int \<Rightarrow> string" where
  "year_text y =
    (if 0 \<le> y \<and> y \<le> 9999 then pad_left 4 y
     else if y < 0 then CHR ''-'' # pad_left 6 (- y) else CHR ''+'' # pad_left 6 y)"

definition iso_string :: "int \<Rightarrow> string" where
  "iso_string t =
    (let (y, m, d) = civil_from_days (t div 86400000); r = t mod 86400000
     in year_text y @ ''-'' @ pad_left 2 m @ ''-'' @ pad_left 2 d @ ''T'' @
        pad_left 2 (r div 3600000) @ '':'' @ pad_left 2 (r div 60000 mod 60) @ '':'' @
        pad_left 2 (r div 1000 mod 60) @ ''.'' @ pad_left 3 (r mod 1000) @ ''Z'')"

text \<open>A day up to 31 is taken in every month; \<open>make_time\<close> carries one beyond the month into the next.\<close>

definition date_valid :: "int \<Rightarrow> int \<Rightarrow> bool" where
  "date_valid m d = (1 \<le> m \<and> m \<le> 12 \<and> 1 \<le> d \<and> d \<le> 31)"

text \<open>Midnight may be written as hour 24 of the day before.\<close>

definition clock_valid :: "int \<Rightarrow> int \<Rightarrow> int \<Rightarrow> int \<Rightarrow> bool" where
  "clock_valid h mi s ms =
    (mi \<le> 59 \<and> s \<le> 59 \<and> (h \<le> 23 \<or> (h = 24 \<and> mi = 0 \<and> s = 0 \<and> ms = 0)))"

definition make_time :: "int \<Rightarrow> int \<Rightarrow> int \<Rightarrow> int \<Rightarrow> int \<Rightarrow> int \<Rightarrow> int \<Rightarrow> int" where
  "make_time y mo d h mi s ms =
    days_from_civil y mo d * 86400000 + h * 3600000 + mi * 60000 + s * 1000 + ms"

definition num_at :: "nat \<Rightarrow> nat \<Rightarrow> string \<Rightarrow> int" where
  "num_at i n s = int (read_digits (take n (drop i s)))"

text \<open>
  The instant of \<open>YYYY-MM-DDTHH:MM:SS\<close>, a fraction of three digits and a zone \<open>Z\<close> or \<open>+HH:MM\<close>;
  the caller has matched their shapes. \<open>None\<close> is an invalid date.
\<close>

definition zone_offset :: "string \<Rightarrow> int option" where
  "zone_offset z =
    (if z = ''Z'' then Some 0
     else (let h = num_at 1 2 z; m = num_at 4 2 z
           in if h \<le> 23 \<and> m \<le> 59
              then Some ((if hd z = CHR ''-'' then - 1 else 1) * (h * 60 + m) * 60000) else None))"

definition read_instant :: "string \<Rightarrow> int \<Rightarrow> string \<Rightarrow> int option" where
  "read_instant base ms zone =
    (let y = num_at 0 4 base; mo = num_at 5 2 base; d = num_at 8 2 base;
         h = num_at 11 2 base; mi = num_at 14 2 base; s = num_at 17 2 base
     in case zone_offset zone of
          None \<Rightarrow> None
        | Some off \<Rightarrow>
            if date_valid mo d \<and> clock_valid h mi s ms then Some (make_time y mo d h mi s ms - off)
            else None)"

end
