(* ===== verification/Docker_Logs.thy ===== *)
theory Docker_Logs
  imports Agent_State Js_Date Js_Double
begin

text \<open>
  \<open>docker-log.parser.ts\<close> and \<open>docker-log.service.ts\<close>: reading Docker's time-stamped log lines, loading
  the history in batches with its progress, and the table of open streams.
\<close>

section \<open>Log lines\<close>

text \<open>\<open>name.replace(/-\d+$/, '')\<close>\<close>

definition drop_trailing :: "(char \<Rightarrow> bool) \<Rightarrow> string \<Rightarrow> string" where
  "drop_trailing p s = rev (dropWhile p (rev s))"

definition has_replica_suffix :: "string \<Rightarrow> bool" where
  "has_replica_suffix s =
    (let b = drop_trailing is_digit s in b \<noteq> s \<and> b \<noteq> [] \<and> last b = CHR ''-'')"

definition compose_service_name :: "string \<Rightarrow> string" where
  "compose_service_name s =
    (if has_replica_suffix s then butlast (drop_trailing is_digit s) else s)"

definition no_breaks :: "string \<Rightarrow> bool" where
  "no_breaks s = (lf \<notin> set s \<and> cr \<notin> set s)"

text \<open>A character class per position: \<open>\d{4}-\d{2}-\d{2}T\d{2}:\d{2}:\d{2}\<close>\<close>

fun matches_shape :: "string \<Rightarrow> string \<Rightarrow> bool" where
  "matches_shape [] s = True"
| "matches_shape (p # ps) [] = False"
| "matches_shape (p # ps) (c # cs) =
    ((if p = CHR ''9'' then is_digit c else c = p) \<and> matches_shape ps cs)"

text \<open>\<open>(\.\d+)?\<close> and \<open>(Z|[+-]\d{2}:\d{2})\<close>\<close>

definition split_fraction :: "string \<Rightarrow> string \<times> string" where
  "split_fraction s =
    (if s \<noteq> [] \<and> hd s = CHR ''.'' \<and> takeWhile is_digit (tl s) \<noteq> []
     then (CHR ''.'' # takeWhile is_digit (tl s), dropWhile is_digit (tl s)) else ([], s))"

definition split_zone :: "string \<Rightarrow> (string \<times> string) option" where
  "split_zone s =
    (if s \<noteq> [] \<and> hd s = CHR ''Z'' then Some (''Z'', tl s)
     else if matches_shape ''+99:99'' s \<or> matches_shape ''-99:99'' s then Some (take 6 s, drop 6 s)
     else None)"

text \<open>\<open>(?:\s+(.*))?$\<close>\<close>

definition message_tail :: "string \<Rightarrow> string option" where
  "message_tail r =
    (if r = [] then Some []
     else if is_space (hd r) \<and> no_breaks (dropWhile is_space r) then Some (dropWhile is_space r)
     else None)"

record stamp =
  st_base :: string
  st_fraction :: string
  st_zone :: string
  st_message :: string

definition match_stamp :: "string \<Rightarrow> stamp option" where
  "match_stamp s =
    (if \<not> matches_shape ''9999-99-99T99:99:99'' s then None
     else let (fr, r) = split_fraction (drop 19 s)
          in case split_zone r of
               None \<Rightarrow> None
             | Some (z, t) \<Rightarrow>
                 (case message_tail t of
                    None \<Rightarrow> None
                  | Some m \<Rightarrow>
                      Some \<lparr>st_base = take 19 s, st_fraction = fr, st_zone = z, st_message = m\<rparr>))"

text \<open>
  \<open>(?:(.*?)\s+\|\s*)?\<close> before the time stamp: the shortest prefix free of line breaks that white
  space, a bar and a time stamp follow. \<open>after_bar\<close> is what stands behind the bar.
\<close>

definition after_bar :: "string \<Rightarrow> string option" where
  "after_bar s =
    (if s \<noteq> [] \<and> is_space (hd s)
     then (case dropWhile is_space s of
             [] \<Rightarrow> None
           | c # r \<Rightarrow> if c = CHR ''|'' then Some (dropWhile is_space r) else None)
     else None)"

fun prefixed_stamp :: "string \<Rightarrow> (string \<times> stamp) option" where
  "prefixed_stamp [] = None"
| "prefixed_stamp (c # cs) =
    (case (case after_bar (c # cs) of None \<Rightarrow> None | Some r \<Rightarrow> match_stamp r) of
       Some st \<Rightarrow> Some ([], st)
     | None \<Rightarrow>
         if c = lf \<or> c = cr then None
         else (case prefixed_stamp cs of None \<Rightarrow> None | Some (p, st) \<Rightarrow> Some (c # p, st)))"

definition stamped_line :: "string \<Rightarrow> (string option \<times> stamp) option" where
  "stamped_line s =
    (case prefixed_stamp s of
       Some (p, st) \<Rightarrow> Some (Some p, st)
     | None \<Rightarrow> (case match_stamp s of Some st \<Rightarrow> Some (None, st) | None \<Rightarrow> None))"

text \<open>\<open>/^([^|\s]+)\s+\|\s*(.*)$/\<close>\<close>

definition compose_line :: "string \<Rightarrow> (string \<times> string) option" where
  "compose_line s =
    (let w = takeWhile (\<lambda>c. c \<noteq> CHR ''|'' \<and> \<not> is_space c) s
     in if w = [] then None
        else (case after_bar (dropWhile (\<lambda>c. c \<noteq> CHR ''|'' \<and> \<not> is_space c) s) of
                Some m \<Rightarrow> if no_breaks m then Some (w, m) else None
              | None \<Rightarrow> None))"

text \<open>\<open>/^([A-Za-z0-9_.-]+-\d+)\s+(exited with code .*|Killed|Aborted|Terminated)$/\<close>\<close>

definition is_container_char :: "char \<Rightarrow> bool" where
  "is_container_char c =
    (is_lower_alpha c \<or> is_upper_alpha c \<or> is_digit c \<or> c \<in> {CHR ''_'', CHR ''.'', CHR ''-''})"

definition is_event_message :: "string \<Rightarrow> bool" where
  "is_event_message m =
    ((starts_with m ''exited with code '' \<and> no_breaks m) \<or>
     m \<in> {''Killed'', ''Aborted'', ''Terminated''})"

definition compose_event :: "string \<Rightarrow> (string \<times> string) option" where
  "compose_event s =
    (let w = takeWhile is_container_char s; r = dropWhile is_container_char s
     in if has_replica_suffix w \<and> length (drop_trailing is_digit w) \<ge> 2 \<and>
           r \<noteq> [] \<and> is_space (hd r) \<and> is_event_message (dropWhile is_space r)
        then Some (w, dropWhile is_space r) else None)"

text \<open>\<open>DockerLogEntry\<close> before a source is put on it\<close>

definition plain_entry :: "string \<Rightarrow> int option \<Rightarrow> string option \<Rightarrow> string option \<Rightarrow> log_entry" where
  "plain_entry line t container service =
    \<lparr>le_line = line, le_time = t, le_source = None, le_stream = None, le_container = container,
     le_service = service, le_stderr = False\<rparr>"

definition or_option :: "string option \<Rightarrow> string option \<Rightarrow> string option" where
  "or_option a b = (case a of None \<Rightarrow> b | Some x \<Rightarrow> a)"

text \<open>\<open>fraction.slice(0, 4).padEnd(4, '0')\<close> as milliseconds\<close>

definition fraction_ms :: "string \<Rightarrow> int" where
  "fraction_ms fr =
    (if fr = [] then 0
     else let d = take 3 (tl fr) in int (read_digits (d @ replicate (3 - length d) (CHR ''0''))))"

definition truthy_name :: "string option \<Rightarrow> string option \<Rightarrow> string option" where
  "truthy_name p dflt =
    (case p of None \<Rightarrow> dflt | Some s \<Rightarrow> if js_trim s = [] then dflt else Some (js_trim s))"

definition service_of :: "string option \<Rightarrow> string option" where
  "service_of c =
    (case c of None \<Rightarrow> None | Some s \<Rightarrow> if s = [] then None else Some (compose_service_name s))"

definition stamped_entry :: "string option \<Rightarrow> string option \<Rightarrow> stamp \<Rightarrow> string + log_entry" where
  "stamped_entry p dflt st =
    (case read_instant (st_base st) (fraction_ms (st_fraction st)) (st_zone st) of
       None \<Rightarrow> Inl ''RangeError: Invalid time value''
     | Some t \<Rightarrow>
         let container = truthy_name p dflt
         in Inr (plain_entry (st_message st) (Some t) container (service_of container)))"

text \<open>The recursion is on the message of a compose line, which is shorter; the fuel is its length.\<close>

fun parse_clean :: "nat \<Rightarrow> string \<Rightarrow> string option \<Rightarrow> string + log_entry" where
  "parse_clean n line dflt =
    (let cleanLine = js_trim (strip_ansi line)
     in case stamped_line cleanLine of
          Some (p, st) \<Rightarrow> stamped_entry p dflt st
        | None \<Rightarrow>
            (case (compose_line cleanLine, n) of
               (Some (container, message), Suc k) \<Rightarrow>
                 bind_res (parse_clean k message (Some container)) (\<lambda>nested.
                   Inr (nested\<lparr>le_container := or_option (le_container nested) (Some container),
                               le_service := or_option (le_service nested)
                                 (Some (compose_service_name container))\<rparr>))
             | _ \<Rightarrow>
                 (case compose_event cleanLine of
                    Some (container, message) \<Rightarrow>
                      Inr (plain_entry message None (Some container) (Some (compose_service_name container)))
                  | None \<Rightarrow> Inr (plain_entry cleanLine None dflt None))))"

declare parse_clean.simps [simp del]

definition parse_docker_log_line :: "string \<Rightarrow> string option \<Rightarrow> string + log_entry" where
  "parse_docker_log_line line dflt = parse_clean (length line) line dflt"

definition runtime_log_entry :: "string \<Rightarrow> string option \<Rightarrow> bool \<Rightarrow> string + log_entry option" where
  "runtime_log_entry line dflt stderr =
    bind_res (parse_docker_log_line line dflt) (\<lambda>e.
      Inr (if js_trim (le_line e) = [] then None
           else Some (e\<lparr>le_source := Some ''runtime'', le_stream := Some ''runtime'',
                        le_line := (if stderr then ''ERROR: '' @ le_line e else le_line e),
                        le_stderr := stderr\<rparr>)))"

definition max_safe_integer :: int where
  "max_safe_integer = 9007199254740991"

definition log_entry_time :: "log_entry \<Rightarrow> int" where
  "log_entry_time e = (case le_time e of None \<Rightarrow> max_safe_integer | Some t \<Rightarrow> t)"

definition sort_log_entries :: "log_entry list \<Rightarrow> log_entry list" where
  "sort_log_entries es = sort_key log_entry_time es"

section \<open>Reading logs\<close>

definition log_args :: "string \<Rightarrow> bool \<Rightarrow> string \<Rightarrow> string option \<Rightarrow> string list" where
  "log_args container isCompose tail until =
    (let u = (case until of None \<Rightarrow> [] | Some t \<Rightarrow> if t = [] then [] else [''--until'', t])
     in if isCompose
        then [''compose'', ''-p'', container, ''logs'', ''--tail'', tail, ''--timestamps''] @ u
        else [''logs'', ''--timestamps'', ''--tail'', tail] @ u @ [container])"

definition present :: "'a option \<Rightarrow> 'a list" where
  "present x = (case x of None \<Rightarrow> [] | Some y \<Rightarrow> [y])"

definition to_entries :: "string \<Rightarrow> string \<Rightarrow> bool \<Rightarrow> string + log_entry list" where
  "to_entries container raw stderr =
    bind_res (mapM_res (\<lambda>line. runtime_log_entry line (Some container) stderr)
        (filter (\<lambda>line. js_trim line \<noteq> []) (split_on lf raw)))
      (\<lambda>es. Inr (concat (map present es)))"

definition fetch_log_entries :: "string \<Rightarrow> string list \<Rightarrow> ('s, log_entry list) op" where
  "fetch_log_entries container args =
    bind_op (run_sync args None) (\<lambda>result.
    bind_op (op_of (to_entries container (sy_stdout result) False)) (\<lambda>out.
    bind_op (op_of (to_entries container (sy_stderr result) True)) (\<lambda>err.
      if sy_status result \<noteq> Some 0 \<and> out = [] \<and> err = []
      then ret [plain_entry (''ERROR: docker logs exited with code '' @
             (case sy_status result of None \<Rightarrow> ''unknown'' | Some n \<Rightarrow> show_int n)) None None None]
      else ret (sort_log_entries (out @ err)))))"

section \<open>History in batches\<close>

definition history_batch_size :: nat where
  "history_batch_size = 2000"

text \<open>The slices of the loop over the offsets: one iteration per batch\<close>

function batches :: "nat \<Rightarrow> 'a list \<Rightarrow> 'a list list" where
  "batches n xs = (if xs = [] then [] else take (max 1 n) xs # batches n (drop (max 1 n) xs))"
  by pat_completeness auto

termination
  by (relation "measure (\<lambda>(n, xs). length xs)") auto

declare batches.simps [simp del]

text \<open>\<open>Math.round((loaded / tot) * 100)\<close>: quotient and product are rounded to doubles.\<close>

definition percent_of :: "nat \<Rightarrow> nat \<Rightarrow> nat" where
  "percent_of loaded tot = 
    (if tot > 0 then nat (js_round (to_double (to_double (of_nat loaded / of_nat tot) * 100))) else 100)"

text \<open>\<open>emitProgress\<close>: the last percentage reported (at first -1) and what is reported\<close>

definition emit_progress ::
    "int \<Rightarrow> nat \<Rightarrow> nat \<Rightarrow> string \<Rightarrow> int \<times> progress option" where
  "emit_progress lastPercent loaded tot phase =
    (let percent = percent_of loaded tot
     in if phase = ''loading'' \<and> percent \<noteq> 100 \<and> int percent < lastPercent + 5 then (lastPercent, None)
        else (int percent,
              Some \<lparr>pr_loaded = loaded, pr_total = tot, pr_percent = percent, pr_phase = phase\<rparr>))"

definition report_progress ::
    "(progress \<Rightarrow> ('s, unit) op) \<Rightarrow> progress option \<Rightarrow> ('s, unit) op" where
  "report_progress onProgress p = (case p of None \<Rightarrow> ret () | Some q \<Rightarrow> onProgress q)"

fun history_loop ::
    "(progress \<Rightarrow> ('s, unit) op) \<Rightarrow> (log_entry list \<Rightarrow> ('s, unit) op) \<Rightarrow> nat \<Rightarrow> nat \<Rightarrow> int \<Rightarrow>
     log_entry list list \<Rightarrow> ('s, unit) op" where
  "history_loop onProgress onHistory tot offset lastPercent [] =
    then_op (report_progress onProgress (snd (emit_progress lastPercent tot tot ''complete'')))
      (onProgress \<lparr>pr_loaded = tot, pr_total = tot, pr_percent = 100, pr_phase = ''streaming''\<rparr>)"
| "history_loop onProgress onHistory tot offset lastPercent (batch # rest) =
    (let loaded = min (offset + history_batch_size) tot;
         (last', p) = emit_progress lastPercent loaded tot ''loading''
     in then_op (onHistory batch)
        (then_op (report_progress onProgress p)
          (history_loop onProgress onHistory tot (offset + history_batch_size) last' rest)))"

definition send_history ::
    "(progress \<Rightarrow> ('s, unit) op) \<Rightarrow> (log_entry list \<Rightarrow> ('s, unit) op) \<Rightarrow> log_entry list \<Rightarrow> ('s, unit) op" where
  "send_history onProgress onHistory logs =
    (let tot = length logs; (last', p) = emit_progress (- 1) 0 tot ''loading''
     in then_op (report_progress onProgress p)
        (history_loop onProgress onHistory tot 0 last' (batches history_batch_size logs)))"

section \<open>Streams\<close>

definition stop_container_log :: "string \<Rightarrow> (agent, unit) op" where
  "stop_container_log container =
    bind_op (gets ag_streams) (\<lambda>m.
      case jm_get m container of
        None \<Rightarrow> ret ()
      | Some proc \<Rightarrow>
          then_op (perform (CliKill proc))
            (modify (\<lambda>s. s\<lparr>ag_streams := jm_delete container (ag_streams s)\<rparr>)))"

definition follow_args :: "string \<Rightarrow> bool \<Rightarrow> string list" where
  "follow_args container isCompose =
    (if isCompose
     then [''compose'', ''-p'', container, ''logs'', ''--follow'', ''--tail'', ''0'', ''--timestamps'']
     else [''logs'', ''--follow'', ''--tail'', ''0'', ''--timestamps'', container])"

definition start_stream :: "string \<Rightarrow> bool \<Rightarrow> (agent, unit) op" where
  "start_stream container isCompose =
    bind_op (gets ag_spawned) (\<lambda>proc.
      then_op (perform (CliStream (follow_args container isCompose) proc))
        (modify (\<lambda>s. s\<lparr>ag_spawned := Suc proc,
                        ag_streams := jm_set container proc (ag_streams s)\<rparr>)))"

definition stream_container_log ::
    "string \<Rightarrow> jsval \<Rightarrow> (progress \<Rightarrow> (agent, unit) op) \<Rightarrow> (log_entry list \<Rightarrow> (agent, unit) op) \<Rightarrow>
     (agent, unit) op" where
  "stream_container_log container deployPreset onProgress onHistory =
    bind_op (gets ag_streams) (\<lambda>m.
    then_op (when_op (jm_has m container) (stop_container_log container))
    (bind_op (is_compose_preset deployPreset) (\<lambda>isCompose.
     bind_op (fetch_log_entries container (log_args container isCompose ''10000'' None)) (\<lambda>logs.
     then_op (send_history onProgress onHistory logs)
       (start_stream container isCompose)))))"

text \<open>The \<open>close\<close> and \<open>data\<close> callbacks of the process started for a container\<close>

definition on_stream_close :: "string \<Rightarrow> nat \<Rightarrow> (agent, unit) op" where
  "on_stream_close container proc =
    bind_op (gets ag_streams) (\<lambda>m.
      when_op (jm_get m container = Some proc)
        (modify (\<lambda>s. s\<lparr>ag_streams := jm_delete container (ag_streams s)\<rparr>)))"

definition push_lines :: "string \<Rightarrow> string \<Rightarrow> (log_entry \<Rightarrow> ('s, unit) op) \<Rightarrow> bool \<Rightarrow> ('s, unit) op" where
  "push_lines chunk container onLog stderr =
    for_each (output_lines chunk) (\<lambda>line.
      bind_op (op_of (runtime_log_entry line (Some container) stderr)) (\<lambda>e.
        case e of None \<Rightarrow> ret () | Some x \<Rightarrow> onLog x))"

text \<open>\<open>Math.max(1, Math.min(limit, 5000))\<close>, printed for \<open>--tail\<close>\<close>

definition num_min :: "jsnum \<Rightarrow> int \<Rightarrow> jsnum" where
  "num_min n k = (case n of NNaN \<Rightarrow> NNaN | NInf neg \<Rightarrow> (if neg then n else num_of_int k)
     | NDec m e \<Rightarrow> if num_val n \<le> of_int k then n else num_of_int k)"

definition num_max :: "int \<Rightarrow> jsnum \<Rightarrow> jsnum" where
  "num_max k n = (case n of NNaN \<Rightarrow> NNaN | NInf neg \<Rightarrow> (if neg then num_of_int k else n)
     | NDec m e \<Rightarrow> if of_int k \<le> num_val n then n else num_of_int k)"

definition safe_limit :: "jsnum \<Rightarrow> jsnum" where
  "safe_limit limit = num_max 1 (num_min limit 5000)"

text \<open>\<open>bound\<close> is the instant of \<open>new Date(before)\<close>, none when that date is invalid.\<close>

definition load_older_container_logs ::
    "string \<Rightarrow> jsval \<Rightarrow> int option \<Rightarrow> jsnum \<Rightarrow> ('s, log_entry list) op" where
  "load_older_container_logs container deployPreset bound limit =
    (case (case bound of None \<Rightarrow> None | Some t \<Rightarrow> time_clip (of_int (t - 1))) of
       None \<Rightarrow> throw ''RangeError: Invalid time value''
     | Some t \<Rightarrow>
         bind_op (is_compose_preset deployPreset) (\<lambda>isCompose.
           fetch_log_entries container
             (log_args container isCompose (num_to_string (safe_limit limit)) (Some (iso_string t)))))"

end
