(* ===== verification/Service_Lifecycle.thy ===== *)
theory Service_Lifecycle
  imports Deploy_Service Docker_Logs
begin

text \<open>
  \<open>service-lifecycle.service.ts\<close>: which service a container event belongs to, the snapshots sent to
  the Hub, session markers, and the operations the command handler calls. SHA-1 and the configuration
  are parameters.
\<close>

section \<open>Container events\<close>

definition lifecycle_line :: "status_event \<Rightarrow> string option" where
  "lifecycle_line ev =
    (let c = ''Container '' @ sq (se_container ev); st = se_status ev
     in if st = ''failed'' then
          Some (c @ '' stopped unexpectedly'' @
            (if or_empty (se_exit ev) \<noteq> [] then '' with exit code '' @ or_empty (se_exit ev) else []) @ ''.'')
        else if st = ''stopped'' then Some (c @ '' stopped.'')
        else if st = ''removed'' then Some (c @ '' removed.'')
        else if st = ''running'' then Some (c @ '' started.'')
        else if st = ''starting'' then Some (c @ '' created.'')
        else if st = ''restarting'' then Some (c @ '' restarting.'')
        else None)"

definition emit_container_lifecycle_log :: "index \<Rightarrow> status_event \<Rightarrow> (agent, unit) op" where
  "emit_container_lifecycle_log idx ev =
    (case lifecycle_line ev of
       None \<Rightarrow> ret ()
     | Some line \<Rightarrow> hub_emit ''service-log'' (PLog idx
         \<lparr>le_line = line, le_time = Some (se_timestamp ev), le_source = Some ''agent'',
          le_stream = Some ''lifecycle'', le_container = Some (se_container ev), le_service = None,
          le_stderr = (se_status ev = ''failed'')\<rparr>))"

text \<open>The first tracked service, in the order of tracking, that the container's name fits\<close>

definition owner_of ::
    "(string \<Rightarrow> string) \<Rightarrow> (index, tracked_service) jsmap \<Rightarrow> string \<Rightarrow> (index \<times> tracked_service) option" where
  "owner_of sha1 m container = List.find (\<lambda>(i, t). container_belongs sha1 container (ts_name t)) m"

section \<open>Snapshots\<close>

definition aggregate_status :: "container_state list \<Rightarrow> container_status \<Rightarrow> container_status" where
  "aggregate_status cs fallback =
    (let sts = map cs_status cs
     in if cs = [] then fallback
        else if Failed \<in> set sts then Failed
        else if Building \<in> set sts then Building
        else if Starting \<in> set sts then Starting
        else if list_all (\<lambda>s. s = Running) sts then Running
        else if list_all (\<lambda>s. s = Stopped \<or> s = Removed) sts then Stopped
        else Starting)"

definition snapshot_from_containers :: "index \<Rightarrow> container_state list \<Rightarrow> snapshot" where
  "snapshot_from_containers idx cs =
    \<lparr>sn_index = idx, sn_containers = cs,
     sn_running = length (filter (\<lambda>c. cs_status c = Running) cs), sn_total = length cs\<rparr>"

definition emit_snapshot :: "snapshot \<Rightarrow> (agent, unit) op" where
  "emit_snapshot sn =
    then_op (modify (\<lambda>s. s\<lparr>ag_snapshots := jm_set (sn_index sn) sn (ag_snapshots s)\<rparr>))
      (hub_emit ''container-status'' (PSnapshot sn))"

definition track :: "(string \<Rightarrow> string) \<Rightarrow> index \<Rightarrow> string \<Rightarrow> jsval \<Rightarrow> (agent, unit) op" where
  "track sha1 idx serviceName deployPreset =
    modify (\<lambda>s. s\<lparr>ag_tracked := jm_set idx
      \<lparr>ts_name = to_docker_name sha1 serviceName, ts_preset = deployPreset\<rparr> (ag_tracked s)\<rparr>)"

definition building_container :: "string \<Rightarrow> string option \<Rightarrow> container_state" where
  "building_container name service =
    \<lparr>cs_name = name, cs_status = Building, cs_service = service, cs_exit = None, cs_health = None\<rparr>"

definition emit_expected_containers ::
    "(string \<Rightarrow> string) \<Rightarrow> index \<Rightarrow> string \<Rightarrow> jsval \<Rightarrow> string list \<Rightarrow> (agent, unit) op" where
  "emit_expected_containers sha1 idx serviceName deployPreset services =
    then_op (track sha1 idx serviceName deployPreset)
      (emit_snapshot (snapshot_from_containers idx
        (if services \<noteq> [] then map (\<lambda>s. building_container s (Some s)) services
         else [building_container (to_docker_name sha1 serviceName) None])))"

definition sync_container_status ::
    "(string \<Rightarrow> string) \<Rightarrow> config \<Rightarrow> index \<Rightarrow> string \<Rightarrow> jsval \<Rightarrow> container_status \<Rightarrow> (agent, snapshot) op" where
  "sync_container_status sha1 cfg idx serviceName deployPreset fallback =
    then_op (track sha1 idx serviceName deployPreset)
    (bind_op (get_container_states cfg (to_docker_name sha1 serviceName) deployPreset) (\<lambda>containers.
     let sn = snapshot_from_containers idx containers
     in then_op (emit_snapshot sn)
        (then_op (when_op (containers \<noteq> [] \<or> fallback = Removed)
           (hub_emit ''service-status'' (PStatus idx (status_text (aggregate_status containers fallback)))))
         (ret sn))))"

definition get_container_snapshot :: "index \<Rightarrow> (agent, snapshot option) op" where
  "get_container_snapshot idx = gets (\<lambda>s. jm_get (ag_snapshots s) idx)"

definition init_container_states ::
    "(string \<Rightarrow> string) \<Rightarrow> index \<Rightarrow> string \<Rightarrow> jsval \<Rightarrow> (agent, unit) op" where
  "init_container_states sha1 idx serviceName deployPreset =
    then_op (track sha1 idx serviceName deployPreset)
      (emit_snapshot (snapshot_from_containers idx
        [building_container (to_docker_name sha1 serviceName) None]))"

definition clear_container_states :: "index \<Rightarrow> (agent, unit) op" where
  "clear_container_states idx =
    then_op (modify (\<lambda>s. s\<lparr>ag_snapshots := jm_set idx (snapshot_from_containers idx []) (ag_snapshots s)\<rparr>))
    (then_op (hub_emit ''container-status'' (PSnapshot (snapshot_from_containers idx [])))
      (hub_emit ''service-status'' (PStatus idx ''removed'')))"

text \<open>
  The callback given to the Docker event service. \<open>syncContainerStatus\<close> is not awaited: its
  rejection is an unhandled one, which the process guards log.
\<close>

definition on_status_event :: "(string \<Rightarrow> string) \<Rightarrow> config \<Rightarrow> status_event \<Rightarrow> (agent, unit) op" where
  "on_status_event sha1 cfg ev =
    bind_op (gets ag_tracked) (\<lambda>m.
      case owner_of sha1 m (se_container ev) of
        None \<Rightarrow> ret ()
      | Some (idx, t) \<Rightarrow>
          then_op (emit_container_lifecycle_log idx ev)
            (try_op
              (bind_op (sync_container_status sha1 cfg idx (ts_name t) (ts_preset t) Stopped) (\<lambda>_. ret ()))
              (\<lambda>_. ret ())))"

section \<open>Session markers\<close>

definition create_service_session_marker :: "index \<Rightarrow> string \<Rightarrow> string \<Rightarrow> (agent, unit) op" where
  "create_service_session_marker idx serviceName event =
    bind_op (ask en_now) (\<lambda>timestamp.
    then_op (db_call (DbFindMarker idx serviceName event (timestamp - 2000) (timestamp + 2000)))
    (bind_op (ask en_marker) (\<lambda>duplicate.
       case duplicate of
         Some _ \<Rightarrow> ret ()
       | None \<Rightarrow>
           (let mk = \<lparr>mk_index = idx, mk_service = serviceName, mk_container = serviceName,
                      mk_event = event, mk_time = timestamp\<rparr>
            in then_op (db_call (DbCreateMarker mk))
                 (hub_emit ''service-log-markers'' (PMarkers idx [mk]))))))"

definition load_recent_session_markers :: "index \<Rightarrow> ('s, marker list) op" where
  "load_recent_session_markers idx =
    then_op (db_call (DbFindMarkers idx None (num_of_int 1000)))
      (bind_op (ask en_markers) (\<lambda>ms. ret (rev ms)))"

text \<open>An invalid date is an argument the database client rejects.\<close>

definition load_older_session_markers ::
    "index \<Rightarrow> int option \<Rightarrow> jsnum \<Rightarrow> ('s, marker list) op" where
  "load_older_session_markers idx bound limit =
    (case bound of
       None \<Rightarrow> throw ''Error: Invalid value for argument lt''
     | Some t \<Rightarrow>
         then_op (db_call (DbFindMarkers idx (Some t) limit))
           (bind_op (ask en_markers) (\<lambda>ms. ret (rev ms))))"

section \<open>Service operations\<close>

definition stored_status :: "string \<Rightarrow> string" where
  "stored_status st =
    (if st = ''running'' then ''Running'' else if st = ''stopped'' then ''Stopped''
     else if st = ''failed'' then ''Stopped'' else if st = ''building'' then ''Running''
     else if st = ''starting'' then ''Restart'' else if st = ''removed'' then ''Removed''
     else ''Stopped'')"

definition update_service_status :: "index \<Rightarrow> string \<Rightarrow> ('s, unit) op" where
  "update_service_status idx st =
    bind_op (ask en_now) (\<lambda>now. db_call (DbSetStatus idx (stored_status st) now))"

definition stream_service_log ::
    "(string \<Rightarrow> string) \<Rightarrow> string \<Rightarrow> jsval \<Rightarrow> (progress \<Rightarrow> (agent, unit) op) \<Rightarrow>
     (log_entry list \<Rightarrow> (agent, unit) op) \<Rightarrow> (agent, unit) op" where
  "stream_service_log sha1 serviceName deployPreset onProgress onHistory =
    stream_container_log (to_docker_name sha1 serviceName) deployPreset onProgress onHistory"

definition load_older_service_logs ::
    "(string \<Rightarrow> string) \<Rightarrow> string \<Rightarrow> jsval \<Rightarrow> int option \<Rightarrow> jsnum \<Rightarrow> ('s, log_entry list) op" where
  "load_older_service_logs sha1 serviceName deployPreset bound limit =
    load_older_container_logs (to_docker_name sha1 serviceName) deployPreset bound limit"

definition stop_service_log :: "(string \<Rightarrow> string) \<Rightarrow> string \<Rightarrow> (agent, unit) op" where
  "stop_service_log sha1 serviceName = stop_container_log (to_docker_name sha1 serviceName)"

definition v1_delete_service ::
    "(string \<Rightarrow> string) \<Rightarrow> config \<Rightarrow> string \<Rightarrow> index \<Rightarrow> jsval \<Rightarrow> bool \<Rightarrow> 's emitter \<Rightarrow> ('s, unit) op" where
  "v1_delete_service sha1 cfg serviceName idx deployPreset service emit =
    then_op (delete_service sha1 cfg idx serviceName deployPreset service emit)
    (then_op (db_call (DbDeleteMarkers idx))
      (if service then db_call (DbDeleteService idx)
       else bind_op (ask en_now) (\<lambda>now. db_call (DbSetStatus idx ''Removed'' now))))"

definition expected_services ::
    "(string \<Rightarrow> string) \<Rightarrow> deploy_command \<Rightarrow> string list \<Rightarrow> (agent, unit) op" where
  "expected_services sha1 d services =
    emit_expected_containers sha1 (dc_index d) (case dc_name d of JStr s \<Rightarrow> s | _ \<Rightarrow> [])
      (dc_preset d) services"

definition sync_after_deploy ::
    "(string \<Rightarrow> string) \<Rightarrow> config \<Rightarrow> deploy_command \<Rightarrow> (agent, unit) op" where
  "sync_after_deploy sha1 cfg d =
    bind_op (sync_container_status sha1 cfg (dc_index d) (case dc_name d of JStr s \<Rightarrow> s | _ \<Rightarrow> [])
      (dc_preset d) Stopped) (\<lambda>_. ret ())"

definition v1_redeploy_service ::
    "(string \<Rightarrow> string) \<Rightarrow> config \<Rightarrow> deploy_command \<Rightarrow> agent emitter \<Rightarrow> (agent, deploy_command) op" where
  "v1_redeploy_service sha1 cfg d emit =
    bind_op (deploy sha1 cfg d emit (expected_services sha1 d)) (\<lambda>success.
      then_op (when_op success (sync_after_deploy sha1 cfg d)) (ret d))"

definition v1_deploy_service ::
    "(string \<Rightarrow> string) \<Rightarrow> config \<Rightarrow> deploy_command \<Rightarrow> agent emitter \<Rightarrow> (agent, deploy_command) op" where
  "v1_deploy_service sha1 cfg d emit =
    bind_op (deploy sha1 cfg d emit (expected_services sha1 d)) (\<lambda>success.
      then_op (when_op success (sync_after_deploy sha1 cfg d)) (ret d))"

definition v1_start_service ::
    "(string \<Rightarrow> string) \<Rightarrow> index \<Rightarrow> string \<Rightarrow> jsval \<Rightarrow> 's emitter \<Rightarrow> ('s, unit) op" where
  "v1_start_service sha1 idx serviceName deployPreset emit =
    restart_service sha1 idx serviceName deployPreset emit"

definition v1_stop_service ::
    "(string \<Rightarrow> string) \<Rightarrow> index \<Rightarrow> string \<Rightarrow> jsval \<Rightarrow> 's emitter \<Rightarrow> ('s, unit) op" where
  "v1_stop_service sha1 idx serviceName deployPreset emit =
    stop_service sha1 idx serviceName deployPreset emit"

end
