(* ===== verification/Command_Dispatch.thy ===== *)
theory Command_Dispatch
  imports Service_Lifecycle
begin

text \<open>
  \<open>tunnel.service.ts\<close>: the handler of the Hub's \<open>command\<close> event. The payload is the JSON object the
  verified listener delivers; \<open>parse_date\<close> is \<open>Date.parse\<close>, which ECMAScript leaves open for formats
  other than its own. The database client is taken to reject a session marker whose service name is
  not a string.
\<close>

definition get_service_command_payload :: "jsval \<Rightarrow> (index \<times> string \<times> jsval) option" where
  "get_service_command_payload p =
    (let n = js_number (get_field p ''serviceIndex'');
         name = (case get_field p ''serviceName'' of JStr s \<Rightarrow> s | _ \<Rightarrow> []);
         preset = get_field p ''deployPreset''
     in case num_int n of
          None \<Rightarrow> None
        | Some i \<Rightarrow>
            if i < 1 \<or> name = [] \<or> \<not> truthy preset then None else Some (JNum n, name, preset))"

definition emit_service_log :: "index \<Rightarrow> log_entry \<Rightarrow> bool \<Rightarrow> ('s, unit) op" where
  "emit_service_log idx e forwardToHub =
    bind_op (ask en_now) (\<lambda>now.
      let e' = e\<lparr>le_time := Some (case le_time e of None \<Rightarrow> now | Some t \<Rightarrow> t)\<rparr>
      in then_op (when_op forwardToHub (perform (Hub ''service-log'' (PLog idx e'))))
           (perform (GatewayLog idx e')))"

text \<open>\<open>void updateServiceStatus(\<dots>)\<close>: nobody waits for it, and its rejection reaches nobody.\<close>

definition store_status :: "index \<Rightarrow> string \<Rightarrow> ('s, unit) op" where
  "store_status idx st = try_op (update_service_status idx st) (\<lambda>_. ret ())"

text \<open>The callbacks handed to a deployment, and to the other operations on a service\<close>

definition deploy_emit :: "'s emitter" where
  "deploy_emit ev =
    (case ev of
       EvStatus idx st \<Rightarrow>
         then_op (perform (Hub ''service-status'' (PStatus idx st)))
         (then_op (perform (GatewayStatus idx st))
           (store_status idx st))
     | EvLog idx e \<Rightarrow>
         then_op (perform (Hub ''service-log'' (PLog idx e)))
           (emit_service_log idx e False))"

definition command_emit :: "index \<Rightarrow> bool \<Rightarrow> 's emitter" where
  "command_emit idx store ev =
    (case ev of
       EvStatus i st \<Rightarrow>
         then_op (perform (Hub ''service-status'' (PStatus idx st)))
         (then_op (perform (GatewayStatus idx st))
           (when_op store (store_status idx st)))
     | EvLog i e \<Rightarrow> emit_service_log idx e True)"

definition deploy_request :: "jsval \<Rightarrow> deploy_command" where
  "deploy_request p =
    \<lparr>dc_index = get_field p ''serviceIndex'', dc_preset = get_field p ''deployPreset'',
     dc_name = get_field p ''serviceName'', dc_port = get_field p ''servicePort'',
     dc_host_port = get_field p ''serviceHostPort'',
     dc_container_port = get_field p ''serviceContainerPort'',
     dc_mappings = get_field p ''servicePortMappings'', dc_source = get_field p ''sourceUrl'',
     dc_root = get_field p ''rootDirectory'', dc_version = get_field p ''serviceVersion'',
     dc_env = get_field p ''env''\<rparr>"

definition deploy_response :: "deploy_command \<Rightarrow> jsval" where
  "deploy_response d =
    JObj 0 [(''apiKey'', JStr []), (''serviceIndex'', dc_index d), (''deployPreset'', dc_preset d),
      (''serviceName'', dc_name d), (''servicePort'', dc_port d), (''serviceHostPort'', dc_host_port d),
      (''serviceContainerPort'', dc_container_port d), (''servicePortMappings'', dc_mappings d),
      (''sourceUrl'', dc_source d), (''rootDirectory'', dc_root d), (''serviceVersion'', dc_version d),
      (''env'', dc_env d)]"

definition empty_response :: jsval where
  "empty_response = JObj 0 []"

section \<open>The commands\<close>

definition marker_name :: "jsval \<Rightarrow> ('s, string) op" where
  "marker_name p =
    (case get_field p ''serviceName'' of JStr s \<Rightarrow> ret s
     | _ \<Rightarrow> throw ''PrismaClientValidationError: serviceName'')"

definition do_deploy :: "(string \<Rightarrow> string) \<Rightarrow> config \<Rightarrow> jsval \<Rightarrow> (agent, jsval) op" where
  "do_deploy sha1 cfg p =
    bind_op (marker_name p) (\<lambda>name.
    then_op (create_service_session_marker (get_field p ''serviceIndex'') name ''service-deploy'')
    (then_op (init_container_states sha1 (get_field p ''serviceIndex'') (to_docker_name sha1 name)
        (get_field p ''deployPreset''))
    (bind_op (v1_deploy_service sha1 cfg (deploy_request p) deploy_emit) (\<lambda>d. ret (deploy_response d)))))"

definition do_redeploy :: "(string \<Rightarrow> string) \<Rightarrow> config \<Rightarrow> jsval \<Rightarrow> (agent, jsval) op" where
  "do_redeploy sha1 cfg p =
    bind_op (marker_name p) (\<lambda>name.
    then_op (create_service_session_marker (get_field p ''serviceIndex'') name ''service-redeploy'')
    (then_op (init_container_states sha1 (get_field p ''serviceIndex'') (to_docker_name sha1 name)
        (get_field p ''deployPreset''))
    (bind_op (v1_redeploy_service sha1 cfg (deploy_request p) deploy_emit) (\<lambda>d. ret (deploy_response d)))))"

definition sync_only ::
    "(string \<Rightarrow> string) \<Rightarrow> config \<Rightarrow> index \<Rightarrow> string \<Rightarrow> jsval \<Rightarrow> container_status \<Rightarrow> (agent, unit) op" where
  "sync_only sha1 cfg idx name preset fallback =
    bind_op (sync_container_status sha1 cfg idx name preset fallback) (\<lambda>_. ret ())"

definition do_start ::
    "(string \<Rightarrow> string) \<Rightarrow> config \<Rightarrow> index \<Rightarrow> string \<Rightarrow> jsval \<Rightarrow> (agent, unit) op" where
  "do_start sha1 cfg idx name preset =
    block
      [create_service_session_marker idx name ''service-start'',
       sync_only sha1 cfg idx name preset Stopped,
       v1_start_service sha1 idx name preset (command_emit idx True),
       sync_only sha1 cfg idx name preset Starting]"

definition do_stop ::
    "(string \<Rightarrow> string) \<Rightarrow> config \<Rightarrow> index \<Rightarrow> string \<Rightarrow> jsval \<Rightarrow> (agent, unit) op" where
  "do_stop sha1 cfg idx name preset =
    block
      [sync_only sha1 cfg idx name preset Stopped,
       v1_stop_service sha1 idx name preset (command_emit idx True),
       sync_only sha1 cfg idx name preset Stopped]"

text \<open>\<open>String(payload.containerName ?? '')\<close>, and nothing when it is empty\<close>

definition container_name :: "jsval \<Rightarrow> string" where
  "container_name p = js_string (or_else (get_field p ''containerName'') (JStr []))"

definition do_container_start ::
    "(string \<Rightarrow> string) \<Rightarrow> config \<Rightarrow> jsval \<Rightarrow> index \<Rightarrow> string \<Rightarrow> jsval \<Rightarrow> (agent, unit) op" where
  "do_container_start sha1 cfg p idx name preset =
    when_op (container_name p \<noteq> [])
      (block
        [sync_only sha1 cfg idx name preset Stopped,
         start_container idx (container_name p) (command_emit idx True),
         sync_only sha1 cfg idx name preset Starting])"

definition do_container_stop ::
    "(string \<Rightarrow> string) \<Rightarrow> config \<Rightarrow> jsval \<Rightarrow> index \<Rightarrow> string \<Rightarrow> jsval \<Rightarrow> (agent, unit) op" where
  "do_container_stop sha1 cfg p idx name preset =
    when_op (container_name p \<noteq> [])
      (block
        [sync_only sha1 cfg idx name preset Stopped,
         stop_container idx (container_name p) (command_emit idx True),
         sync_only sha1 cfg idx name preset Stopped])"

definition do_container_restart ::
    "(string \<Rightarrow> string) \<Rightarrow> config \<Rightarrow> jsval \<Rightarrow> index \<Rightarrow> string \<Rightarrow> jsval \<Rightarrow> (agent, unit) op" where
  "do_container_restart sha1 cfg p idx name preset =
    when_op (container_name p \<noteq> [])
      (block
        [sync_only sha1 cfg idx name preset Stopped,
         restart_container idx (container_name p) (command_emit idx True),
         sync_only sha1 cfg idx name preset Starting])"

definition do_delete ::
    "(string \<Rightarrow> string) \<Rightarrow> config \<Rightarrow> jsval \<Rightarrow> index \<Rightarrow> string \<Rightarrow> jsval \<Rightarrow> (agent, unit) op" where
  "do_delete sha1 cfg p idx name preset =
    block
      [sync_only sha1 cfg idx name preset Stopped,
       v1_delete_service sha1 cfg name idx preset (get_field p ''deleteScope'' = JStr ''service'')
         (command_emit idx False),
       clear_container_states idx]"

definition do_stream_log ::
    "(string \<Rightarrow> string) \<Rightarrow> index \<Rightarrow> string \<Rightarrow> jsval \<Rightarrow> (agent, unit) op" where
  "do_stream_log sha1 idx name preset =
    bind_op (get_container_snapshot idx) (\<lambda>sn.
    then_op (case sn of Some s \<Rightarrow> perform (Hub ''container-status'' (PSnapshot s)) | None \<Rightarrow> ret ())
    (bind_op (load_recent_session_markers idx) (\<lambda>markers.
     then_op (perform (Hub ''service-log-markers'' (PMarkers idx markers)))
       (stream_service_log sha1 name preset
         (\<lambda>p. perform (Hub ''log-load-progress'' (PProgress idx p)))
         (\<lambda>es. perform (Hub ''service-log-history'' (PHistory idx None es None True)))))))"

text \<open>\<open>new Date(payload.before).getTime()\<close>\<close>

definition date_arg :: "(string \<Rightarrow> int option) \<Rightarrow> jsval \<Rightarrow> int option" where
  "date_arg parse_date v =
    (case v of
       JNum n \<Rightarrow> if num_finite n then time_clip (num_val n) else None
     | JBool b \<Rightarrow> Some (if b then 1 else 0)
     | _ \<Rightarrow> parse_date (js_string v))"

text \<open>\<open>logs.length >= limit\<close>\<close>

definition at_least :: "nat \<Rightarrow> jsnum \<Rightarrow> bool" where
  "at_least n limit =
    (case limit of NNaN \<Rightarrow> False | NInf neg \<Rightarrow> neg | NDec m e \<Rightarrow> num_val limit \<le> of_nat n)"

definition history_limit :: "jsval \<Rightarrow> jsnum" where
  "history_limit p = js_number (or_else (get_field p ''limit'') (JNum (num_of_int 1000)))"

definition do_load_older_log ::
    "(string \<Rightarrow> string) \<Rightarrow> (string \<Rightarrow> int option) \<Rightarrow> jsval \<Rightarrow> index \<Rightarrow> string \<Rightarrow> jsval \<Rightarrow> (agent, unit) op" where
  "do_load_older_log sha1 parse_date p idx name preset =
    (let bound = date_arg parse_date (get_field p ''before''); limit = history_limit p
     in bind_op (load_older_service_logs sha1 name preset bound limit) (\<lambda>logs.
        bind_op (load_older_session_markers idx bound limit) (\<lambda>markers.
          perform (Hub ''service-log-history''
            (PHistory idx (Some (get_field p ''before'')) logs (Some markers)
              (at_least (length logs) limit))))))"

definition do_sync ::
    "(string \<Rightarrow> string) \<Rightarrow> config \<Rightarrow> index \<Rightarrow> string \<Rightarrow> jsval \<Rightarrow> (agent, unit) op" where
  "do_sync sha1 cfg idx name preset =
    bind_op (sync_container_status sha1 cfg idx name preset Stopped) (\<lambda>sn.
      perform (Hub ''container-status'' (PSnapshot sn)))"

text \<open>Commands that need a valid service first; others are inert when it is missing.\<close>

definition with_service ::
    "jsval \<Rightarrow> (index \<Rightarrow> string \<Rightarrow> jsval \<Rightarrow> (agent, unit) op) \<Rightarrow> (agent, jsval) op" where
  "with_service p f =
    then_op (case get_service_command_payload p of
               None \<Rightarrow> ret ()
             | Some (idx, name, preset) \<Rightarrow> f idx name preset)
      (ret empty_response)"

definition run_command ::
    "(string \<Rightarrow> string) \<Rightarrow> config \<Rightarrow> (string \<Rightarrow> int option) \<Rightarrow> string \<Rightarrow> jsval \<Rightarrow> (agent, jsval) op" where
  "run_command sha1 cfg parse_date command p =
    (if command = ''DEPLOY'' then do_deploy sha1 cfg p
     else if command = ''REDEPLOY'' then do_redeploy sha1 cfg p
     else if command = ''START'' then with_service p (do_start sha1 cfg)
     else if command = ''STOP'' then with_service p (do_stop sha1 cfg)
     else if command = ''CONTAINER_START'' then with_service p (do_container_start sha1 cfg p)
     else if command = ''CONTAINER_STOP'' then with_service p (do_container_stop sha1 cfg p)
     else if command = ''CONTAINER_RESTART'' then with_service p (do_container_restart sha1 cfg p)
     else if command = ''ABORT'' then ret empty_response
     else if command = ''DELETE'' then with_service p (do_delete sha1 cfg p)
     else if command = ''DISCONNECT'' then then_op (perform Disconnect) (ret empty_response)
     else if command = ''STREAM_LOG'' then with_service p (do_stream_log sha1)
     else if command = ''LOAD_OLDER_LOG'' then
       with_service p (\<lambda>idx name preset.
         when_op (truthy (get_field p ''before'')) (do_load_older_log sha1 parse_date p idx name preset))
     else if command = ''SYNC_CONTAINER_STATUS'' then with_service p (do_sync sha1 cfg)
     else if command = ''STOP_LOG'' then
       then_op (stop_service_log sha1 (js_string (get_field p ''serviceName''))) (ret empty_response)
     else ret empty_response)"

definition on_command ::
    "(string \<Rightarrow> string) \<Rightarrow> config \<Rightarrow> (string \<Rightarrow> int option) \<Rightarrow> jsval \<Rightarrow> (agent, unit) op" where
  "on_command sha1 cfg parse_date p =
    bind_op (run_command sha1 cfg parse_date
        (case get_field p ''command'' of JStr s \<Rightarrow> s | _ \<Rightarrow> []) p)
      (\<lambda>response. perform (Hub ''response'' (PResponse response)))"

end
