(* ===== verification/Status_Protocol.thy ===== *)
theory Status_Protocol
  imports Command_Dispatch
begin

text \<open>
  The statuses an operation sends to the Hub, as a language: for every result the set of sequences
  it may have sent by then, and the set for the runs that throw. The rules follow the combinators,
  and the protocols of the service operations and of a deployment are computed with them.
\<close>

section \<open>Languages of statuses\<close>

fun hub_status :: "effect \<Rightarrow> (index \<times> string) list" where
  "hub_status (Hub e (PStatus i st)) = [(i, st)]"
| "hub_status _ = []"

definition statuses :: "trace \<Rightarrow> (index \<times> string) list" where
  "statuses tr = concat (map hub_status tr)"

lemma statuses_Nil [simp]: "statuses [] = []"
  by (simp add: statuses_def)

lemma statuses_append [simp]: "statuses (a @ b) = statuses a @ statuses b"
  by (simp add: statuses_def)

lemma statuses_Cons: "statuses (e # tr) = hub_status e @ statuses tr"
  by (simp add: statuses_def)

lemma statuses_quiet: "list_all (\<lambda>e. hub_status e = []) new \<Longrightarrow> statuses new = []"
  by (induction new) (simp_all add: statuses_Cons)

definition conc :: "'a list set \<Rightarrow> 'a list set \<Rightarrow> 'a list set" where
  "conc A B = {a @ b |a b. a \<in> A \<and> b \<in> B}"

lemma conc_simps [simp]:
  "conc {[]} B = B" "conc A {[]} = A" "conc {} B = {}" "conc A {} = {}"
  by (simp_all add: conc_def)

lemma conc_Un [simp]: "conc (A \<union> B) C = conc A C \<union> conc B C" "conc A (B \<union> C) = conc A B \<union> conc A C"
  unfolding conc_def by blast+

lemma conc_insert [simp]: "conc (insert a A) {b} = insert (a @ b) (conc A {b})"
  "conc {a} (insert b B) = insert (a @ b) (conc {a} B)"
  unfolding conc_def by blast+

type_synonym statlang = "(index \<times> string) list set"

definition sends :: "('s, 'a) op \<Rightarrow> ('a \<Rightarrow> statlang) \<Rightarrow> statlang \<Rightarrow> bool" where
  "sends m S E = (\<forall>env s tr r s' tr'. m env s tr = (r, s', tr') \<longrightarrow>
     (\<exists>new. tr' = tr @ new \<and> (case r of Inl e \<Rightarrow> statuses new \<in> E | Inr x \<Rightarrow> statuses new \<in> S x)))"

lemma sendsD:
  "sends m S E \<Longrightarrow> m env s tr = (r, s', tr') \<Longrightarrow>
   \<exists>new. tr' = tr @ new \<and> (case r of Inl e \<Rightarrow> statuses new \<in> E | Inr x \<Rightarrow> statuses new \<in> S x)"
  unfolding sends_def by blast

lemma sends_weaken: "sends m S E \<Longrightarrow> (\<And>x. S x \<subseteq> S' x) \<Longrightarrow> E \<subseteq> E' \<Longrightarrow> sends m S' E'"
proof -
  assume m: "sends m S E" and sub: "\<And>x. S x \<subseteq> S' x" "E \<subseteq> E'"
  show "sends m S' E'"
    unfolding sends_def
  proof (intro allI impI)
    fix env s tr r s' tr'
    assume "m env s tr = (r, s', tr')"
    from sendsD[OF m this] obtain new where
      "tr' = tr @ new" "case r of Inl e \<Rightarrow> statuses new \<in> E | Inr x \<Rightarrow> statuses new \<in> S x" by blast
    then show "\<exists>new. tr' = tr @ new \<and> (case r of Inl e \<Rightarrow> statuses new \<in> E' | Inr x \<Rightarrow> statuses new \<in> S' x)"
      using sub by (intro exI[of _ new]) (auto split: sum.splits)
  qed
qed

abbreviation quiet :: "effect \<Rightarrow> bool" where
  "quiet e \<equiv> hub_status e = []"

lemma sends_contract:
  assumes "contract (\<lambda>_. True) quiet E (\<lambda>_. True) m"
  shows "sends m (\<lambda>_. {[]}) (if \<forall>e. \<not> E e then {} else {[]})"
  unfolding sends_def
proof (intro allI impI)
  fix env s tr r s' tr'
  assume "m env s tr = (r, s', tr')"
  from contractD[OF assms _ this] obtain new where
    n: "tr' = tr @ new" "list_all quiet new" "case r of Inl e \<Rightarrow> E e | Inr x \<Rightarrow> True" by auto
  with statuses_quiet show "\<exists>new. tr' = tr @ new \<and> (case r of Inl e \<Rightarrow> statuses new \<in>
      (if \<forall>e. \<not> E e then {} else {[]}) | Inr x \<Rightarrow> statuses new \<in> {[]})"
    by (intro exI[of _ new]) (auto split: sum.splits)
qed

lemma sends_silent: "contract (\<lambda>_. True) quiet (\<lambda>_. False) (\<lambda>_. True) m \<Longrightarrow> sends m (\<lambda>_. {[]}) {}"
  using sends_contract[of "\<lambda>_. False" m] by simp

lemma sends_quiet: "contract (\<lambda>_. True) quiet (\<lambda>_. True) (\<lambda>_. True) m \<Longrightarrow> sends m (\<lambda>_. {[]}) {[]}"
  using sends_contract[of "\<lambda>_. True" m] by simp

lemma sends_ret: "sends (ret x) (\<lambda>y. if y = x then {[]} else {}) {}"
  unfolding sends_def by auto

lemma sends_bind:
  assumes "sends m S E" "\<And>x. sends (f x) (T x) (F x)"
  shows "sends (bind_op m f) (\<lambda>y. \<Union>x. conc (S x) (T x y)) (E \<union> (\<Union>x. conc (S x) (F x)))"
  unfolding sends_def
proof (intro allI impI)
  fix env s tr r s' tr'
  assume run: "bind_op m f env s tr = (r, s', tr')"
  obtain r1 s1 tr1 where m: "m env s tr = (r1, s1, tr1)" by (cases "m env s tr") auto
  from sendsD[OF assms(1) m] obtain a where
    a: "tr1 = tr @ a" "case r1 of Inl e \<Rightarrow> statuses a \<in> E | Inr x \<Rightarrow> statuses a \<in> S x" by blast
  show "\<exists>new. tr' = tr @ new \<and> (case r of
        Inl e \<Rightarrow> statuses new \<in> E \<union> (\<Union>x. conc (S x) (F x))
      | Inr y \<Rightarrow> statuses new \<in> (\<Union>x. conc (S x) (T x y)))"
  proof (cases r1)
    case (Inl e)
    then show ?thesis using run m a by (intro exI[of _ a]) auto
  next
    case (Inr x)
    then have "f x env s1 tr1 = (r, s', tr')" using run m by simp
    from sendsD[OF assms(2) this] obtain b where
      b: "tr' = tr1 @ b" "case r of Inl e \<Rightarrow> statuses b \<in> F x | Inr y \<Rightarrow> statuses b \<in> T x y" by blast
    have "statuses a \<in> S x" using a(2) Inr by simp
    then have "case r of Inl e \<Rightarrow> statuses (a @ b) \<in> E \<union> (\<Union>x. conc (S x) (F x))
      | Inr y \<Rightarrow> statuses (a @ b) \<in> (\<Union>x. conc (S x) (T x y))"
      using b(2) by (auto simp: conc_def split: sum.splits)
    then show ?thesis using a(1) b(1) by (intro exI[of _ "a @ b"]) simp
  qed
qed

lemma sends_then:
  assumes "sends m (\<lambda>_. A) E" "sends n S F"
  shows "sends (then_op m n) (\<lambda>y. conc A (S y)) (E \<union> conc A F)"
  using sends_bind[OF assms(1), of "\<lambda>_. n" "\<lambda>_. S" "\<lambda>_. F"] assms(2) unfolding then_op_def by simp

lemma sends_try:
  assumes "sends m S E" "\<And>e. sends (h e) T F"
  shows "sends (try_op m h) (\<lambda>x. S x \<union> conc E (T x)) (conc E F)"
  unfolding sends_def
proof (intro allI impI)
  fix env s tr r s' tr'
  assume run: "try_op m h env s tr = (r, s', tr')"
  obtain r1 s1 tr1 where m: "m env s tr = (r1, s1, tr1)" by (cases "m env s tr") auto
  from sendsD[OF assms(1) m] obtain a where
    a: "tr1 = tr @ a" "case r1 of Inl e \<Rightarrow> statuses a \<in> E | Inr x \<Rightarrow> statuses a \<in> S x" by blast
  show "\<exists>new. tr' = tr @ new \<and> (case r of Inl e \<Rightarrow> statuses new \<in> conc E F
      | Inr x \<Rightarrow> statuses new \<in> S x \<union> conc E (T x))"
  proof (cases r1)
    case (Inr x)
    then show ?thesis using run m a by (intro exI[of _ a]) auto
  next
    case (Inl e)
    then have "h e env s1 tr1 = (r, s', tr')" using run m by simp
    from sendsD[OF assms(2) this] obtain b where
      b: "tr' = tr1 @ b" "case r of Inl e \<Rightarrow> statuses b \<in> F | Inr y \<Rightarrow> statuses b \<in> T y" by blast
    have "statuses a \<in> E" using a(2) Inl by simp
    then have "case r of Inl e \<Rightarrow> statuses (a @ b) \<in> conc E F
      | Inr y \<Rightarrow> statuses (a @ b) \<in> S y \<union> conc E (T y)"
      using b(2) by (auto simp: conc_def split: sum.splits)
    then show ?thesis using a(1) b(1) by (intro exI[of _ "a @ b"]) simp
  qed
qed

lemma sends_attempt:
  assumes "sends m S E"
  shows "sends (attempt m) (\<lambda>r. case r of Inl e \<Rightarrow> E | Inr x \<Rightarrow> S x) {}"
  unfolding sends_def
proof (intro allI impI)
  fix env s tr r s' tr'
  assume run: "attempt m env s tr = (r, s', tr')"
  obtain r1 s1 tr1 where m: "m env s tr = (r1, s1, tr1)" by (cases "m env s tr") auto
  from sendsD[OF assms m] obtain a where
    a: "tr1 = tr @ a" "case r1 of Inl e \<Rightarrow> statuses a \<in> E | Inr x \<Rightarrow> statuses a \<in> S x" by blast
  have "r = Inr r1 \<and> tr' = tr1"
    using run m by (cases r1) (simp_all add: attempt_def)
  with a show "\<exists>new. tr' = tr @ new \<and> (case r of Inl e \<Rightarrow> statuses new \<in> {}
      | Inr x \<Rightarrow> statuses new \<in> (case x of Inl e \<Rightarrow> E | Inr x \<Rightarrow> S x))"
    by (intro exI[of _ a]) (auto split: sum.splits)
qed

section \<open>The callbacks of the command handler\<close>

lemma contract_store_status [contracts]:
  "(\<And>n. P (Db (DbSetStatus idx (stored_status st) n))) \<Longrightarrow> contract I P E (\<lambda>_. True) (store_status idx st)"
  unfolding store_status_def update_service_status_def db_call_def by (intro contracts) auto

lemma contract_emit_service_log [contracts]:
  "(\<And>x. P (GatewayLog idx x)) \<Longrightarrow> (\<And>x. b \<Longrightarrow> P (Hub ''service-log'' (PLog idx x))) \<Longrightarrow>
   contract I P E (\<lambda>_. True) (emit_service_log idx e b)"
  unfolding emit_service_log_def Let_def by (intro contracts) auto

definition quiet_emit :: "'s emitter \<Rightarrow> bool" where
  "quiet_emit emit = (\<forall>i e. contract (\<lambda>_. True) quiet (\<lambda>_. False) (\<lambda>_. True) (emit (EvLog i e)))"

definition relays :: "'s emitter \<Rightarrow> index \<Rightarrow> bool" where
  "relays emit idx = (quiet_emit emit \<and> (\<forall>st. sends (emit (EvStatus idx st)) (\<lambda>_. {[(idx, st)]}) {}))"

lemma sends_perform: "sends (perform e) (\<lambda>_. {hub_status e}) {}"
  unfolding sends_def by (auto simp: statuses_def)

lemma sends_relayed:
  assumes "contract (\<lambda>_. True) quiet (\<lambda>_. False) (\<lambda>_. True) m"
  shows "sends (then_op (perform (Hub e (PStatus idx st))) m) (\<lambda>_. {[(idx, st)]}) {}"
  using sends_then[OF sends_perform sends_silent[OF assms], of "Hub e (PStatus idx st)"] by simp

lemma command_emit_log:
  "contract (\<lambda>_. True) quiet (\<lambda>_. False) (\<lambda>_. True) (command_emit idx b (EvLog i e))"
  unfolding command_emit_def by (auto intro!: contracts)

lemma command_emit_status: "sends (command_emit idx b (EvStatus i st)) (\<lambda>_. {[(idx, st)]}) {}"
  unfolding command_emit_def service_event.case by (rule sends_relayed) (intro contracts, auto)

lemma command_emit_relays: "relays (command_emit idx b) idx"
  by (simp add: relays_def quiet_emit_def command_emit_log command_emit_status)

lemma deploy_emit_log: "contract (\<lambda>_. True) quiet (\<lambda>_. False) (\<lambda>_. True) (deploy_emit (EvLog i e))"
  unfolding deploy_emit_def by (auto intro!: contracts)

lemma deploy_emit_status: "sends (deploy_emit (EvStatus idx st)) (\<lambda>_. {[(idx, st)]}) {}"
  unfolding deploy_emit_def service_event.case by (rule sends_relayed) (intro contracts, auto)

lemma deploy_emit_relays: "relays deploy_emit idx"
  by (simp add: relays_def quiet_emit_def deploy_emit_log deploy_emit_status)

lemma relays_log [contracts]:
  "relays emit idx \<Longrightarrow> contract (\<lambda>_. True) quiet E (\<lambda>_. True) (send_log emit i c st l)"
proof -
  assume "relays emit idx"
  then have "contract (\<lambda>_. True) quiet (\<lambda>_. False) (\<lambda>_. True) (send_log emit i c st l)"
    by (intro contracts) (simp add: relays_def quiet_emit_def)
  then show ?thesis by (rule contract_mono) auto
qed

lemma relays_status: "relays emit idx \<Longrightarrow> sends (send_status emit idx st) (\<lambda>_. {[(idx, st)]}) {}"
  by (simp add: relays_def send_status_def)

end
