(* ===== verification/Service_Laws.thy ===== *)
theory Service_Laws
  imports Status_Protocol
begin

text \<open>
  What the operations on services and a deployment promise: the protocol of statuses each follows,
  that nothing they remove lies outside the build directory, and what a delete command may remove.
\<close>

section \<open>Status protocols\<close>

lemma then_op_assoc: "then_op (then_op a b) c = then_op a (then_op b c)"
  by (intro ext) (simp add: then_op_def bind_op_def split: prod.splits sum.splits)

lemma then_ret: "then_op (ret ()) m = m"
  by (intro ext) (simp add: then_op_def bind_op_def)

lemma block_append: "block (xs @ ys) = then_op (block xs) (block ys)"
  by (induction xs) (simp_all add: then_ret then_op_assoc)

lemma is_compose_string [simp]: "is_compose_preset (JStr p) env s tr = (Inr (js_upper p \<noteq> ''DOCKERFILE''), s, tr)"
  by (simp add: is_compose_preset_def preset_upper_def)

section \<open>Contracts of the parts\<close>

text \<open>An effect class that admits every call to Docker and the file system.\<close>

definition admits_calls :: "(effect \<Rightarrow> bool) \<Rightarrow> bool" where
  "admits_calls P = ((\<forall>c. P (Fs c)) \<and> (\<forall>c. P (Engine c)) \<and> (\<forall>a w. P (CliRun a w)) \<and> (\<forall>a w. P (CliSync a w)))"

lemma admits_callsD:
  "admits_calls P \<Longrightarrow> P (Fs c)" "admits_calls P \<Longrightarrow> P (Engine d)"
  "admits_calls P \<Longrightarrow> P (CliRun a w)" "admits_calls P \<Longrightarrow> P (CliSync a w)"
  by (auto simp: admits_calls_def)

lemma quiet_admits: "admits_calls quiet"
  by (simp add: admits_calls_def)

lemma contract_to_container_path [contracts]:
  "contract I P (\<lambda>_. True) (\<lambda>_. True) (to_container_path cfg t l)"
  unfolding to_container_path_def Let_def by (auto intro!: contracts)

lemma contract_mount [contracts]:
  "P (Fs (FsMkdir (cf_build_root cfg))) \<Longrightarrow> contract I P (\<lambda>_. True) (\<lambda>_. True) (clone_workspace_mount cfg)"
  unfolding clone_workspace_mount_def by (auto intro!: contracts)

lemma contract_remove_build_dir:
  assumes "admits_calls P" "\<And>l. contract I P (\<lambda>_. True) (\<lambda>_. True) (sendLog l)"
  shows "contract I P (\<lambda>_. True) (\<lambda>_. True) (remove_build_dir cfg t sendLog)"
  unfolding remove_build_dir_def using assms(2) admits_callsD[OF assms(1)] by (auto intro!: contracts)

lemma contract_clone_in_git:
  assumes "admits_calls P" "\<And>l. contract I P (\<lambda>_. True) (\<lambda>_. True) (sendLog l)"
  shows "contract I P (\<lambda>_. True) (\<lambda>_. True) (clone_in_git_container cfg u t sendLog)"
  unfolding clone_in_git_container_def using assms(2) admits_callsD[OF assms(1)] by (auto intro!: contracts)

lemma contract_clone_all:
  assumes "admits_calls P" "\<And>l. contract I P (\<lambda>_. True) (\<lambda>_. True) (sendLog l)"
  shows "contract I P (\<lambda>_. True) (\<lambda>_. True) (clone_all cfg src dir sendLog)"
  unfolding clone_all_def Let_def using assms(2) admits_callsD[OF assms(1)]
  by (auto intro!: contracts contract_clone_in_git[OF assms] split: list.split)

lemma contract_build_context:
  assumes "admits_calls P"
  shows "contract I P (\<lambda>_. True) (\<lambda>_. True) (resolve_build_context cfg dir rt)"
  unfolding resolve_build_context_def Let_def using admits_callsD[OF assms] by (auto intro!: contracts)

lemma contract_permissions:
  assumes "admits_calls P"
  shows "contract I P (\<lambda>_. True) (\<lambda>_. True) (apply_build_permissions dir)"
  unfolding apply_build_permissions_def using admits_callsD[OF assms] by (auto intro!: contracts)

lemma contract_has_compose_file:
  "admits_calls P \<Longrightarrow> contract I P E (\<lambda>_. True) (has_compose_file dir)"
  unfolding has_compose_file_def using admits_callsD by (auto intro!: contracts)

lemma contract_preset_upper [contracts]: "contract I P (\<lambda>_. True) (\<lambda>_. True) (preset_upper p)"
  unfolding preset_upper_def by (cases p) (auto intro!: contracts)

lemma contract_should_use_compose:
  "admits_calls P \<Longrightarrow> contract I P (\<lambda>_. True) (\<lambda>_. True) (should_use_compose p dir)"
  unfolding should_use_compose_def by (auto intro!: contracts contract_has_compose_file)

lemma contract_remove_existing:
  assumes "admits_calls P" "\<And>l. contract I P (\<lambda>_. True) (\<lambda>_. True) (sendLog l)"
  shows "contract I P (\<lambda>_. True) (\<lambda>_. True) (remove_existing_container sha1 n sendLog)"
  unfolding remove_existing_container_def Let_def using assms(2) admits_callsD[OF assms(1)]
  by (auto intro!: contracts)

lemma contract_write_env_file:
  "admits_calls P \<Longrightarrow> contract I P (\<lambda>_. True) (\<lambda>_. True) (write_env_file dir d)"
  unfolding write_env_file_def Let_def using admits_callsD by (auto intro!: contracts)

lemma contract_list_services:
  assumes "admits_calls P" "\<And>l. contract I P (\<lambda>_. True) (\<lambda>_. True) (sendLog l)"
  shows "contract I P (\<lambda>_. True) (\<lambda>_. True) (list_services dir sendLog)"
  unfolding list_services_def using assms(2) admits_callsD[OF assms(1)] by (auto intro!: contracts)

lemma contract_override:
  assumes "admits_calls P" "\<And>l. contract I P (\<lambda>_. True) (\<lambda>_. True) (sendLog l)"
  shows "contract I P (\<lambda>_. True) (\<lambda>_. True) (write_no_restart_override dir sendLog)"
  unfolding write_no_restart_override_def using assms(2) admits_callsD[OF assms(1)]
  by (auto intro!: contracts contract_list_services[OF assms])

lemma contract_deploy_with_compose:
  assumes "admits_calls P" "\<And>l. contract I P (\<lambda>_. True) (\<lambda>_. True) (sendLog l)"
    and "\<And>l. contract I P (\<lambda>_. True) (\<lambda>_. True) (onExpected l)"
  shows "contract I P (\<lambda>_. True) (\<lambda>_. True) (deploy_with_compose n dir d sendLog onExpected)"
  unfolding deploy_with_compose_def compose_up_def using assms(2,3) admits_callsD[OF assms(1)]
  by (auto intro!: contracts contract_override[OF assms(1,2)] contract_write_env_file[OF assms(1)])

lemma contract_build_image:
  assumes "admits_calls P" "\<And>l. contract I P (\<lambda>_. True) (\<lambda>_. True) (sendLog l)"
  shows "contract I P (\<lambda>_. True) (\<lambda>_. True) (build_image dir tag sendLog)"
  unfolding build_image_def build_event_def using assms(2) admits_callsD[OF assms(1)]
  by (auto intro!: contracts split: list.split)

lemma contract_run_container:
  "admits_calls P \<Longrightarrow> contract I P (\<lambda>_. True) (\<lambda>_. True) (run_container sha1 n v ms env)"
  unfolding run_container_def using admits_callsD by (auto intro!: contracts)

section \<open>Deployments\<close>

lemma deploy_prepare_sends:
  assumes "relays emit idx"
  shows "sends (deploy_prepare sha1 cfg n d (send_log emit i n st) (send_status emit idx))
    (\<lambda>_. {[(idx, ''building'')]}) {[(idx, ''building'')]}"
proof -
  note log = relays_log[OF assms]
  note parts = contract_remove_existing[OF quiet_admits log] contract_remove_build_dir[OF quiet_admits log]
    contract_clone_all[OF quiet_admits log] contract_build_context[OF quiet_admits]
    contract_permissions[OF quiet_admits] contract_should_use_compose[OF quiet_admits]
  show ?thesis
    unfolding deploy_prepare_def Let_def
    by (rule sends_weaken[OF sends_then[OF relays_status[OF assms] sends_quiet]])
       (auto intro!: contracts log parts)
qed

lemma sends_log_then:
  assumes "relays emit idx" "sends m S E"
  shows "sends (then_op (send_log emit i c st l) m) S E"
  using sends_then[OF sends_silent[OF relays_log[OF assms(1)]] assms(2)] by simp

lemma sends_quiet_then:
  assumes "contract (\<lambda>_. True) quiet (\<lambda>_. True) (\<lambda>_. True) (q :: ('s, unit) op)" "sends m S E"
  shows "sends (then_op q m) S (insert [] E)"
  using sends_then[OF sends_quiet[OF assms(1)] assms(2)] by simp

lemma deploy_run_sends:
  assumes "relays emit idx" "\<And>l. contract (\<lambda>_. True) quiet (\<lambda>_. True) (\<lambda>_. True) (onExpected l)"
  shows "sends (deploy_run sha1 n d (send_log emit i n st) (send_status emit idx) onExpected p)
    (\<lambda>_. {[(idx, ''running'')], [(idx, ''starting''), (idx, ''running'')]}) {[], [(idx, ''starting'')]}"
proof -
  note log = relays_log[OF assms(1)]
  let ?log = "send_log emit i n st" and ?st = "send_status emit idx"
  have last: "sends (then_op (?log ''Service redeployed successfully.'') (?st ''running''))
      (\<lambda>_. {[(idx, ''running'')]}) {}"
    by (rule sends_log_then[OF assms(1) relays_status[OF assms(1)]])
  show ?thesis
  proof (cases "snd p")
    case True
    have "sends (deploy_with_compose n (fst p) d ?log onExpected) (\<lambda>_. {[]}) {[]}"
      by (rule sends_quiet[OF contract_deploy_with_compose[OF quiet_admits log assms(2)]])
    from sends_then[OF this last] show ?thesis
      unfolding deploy_run_def using True by (auto elim!: sends_weaken)
  next
    case False
    have run: "sends (bind_op (op_of (resolve_port_mappings d)) (\<lambda>ms. run_container sha1 n (dc_version d) ms (dc_env d)))
        (\<lambda>_. {[]}) {[]}"
      by (rule sends_quiet) (intro contracts contract_run_container[OF quiet_admits])
    have body: "sends (deploy_with_dockerfile sha1 n (fst p) d ?log ?st) (\<lambda>_. {[(idx, ''starting'')]})
        {[], [(idx, ''starting'')]}"
      unfolding deploy_with_dockerfile_def
      by (intro sends_log_then[OF assms(1)] sends_quiet_then contract_build_image[OF quiet_admits log])
         (rule sends_weaken[OF sends_then[OF relays_status[OF assms(1)] run]], auto)
    from sends_then[OF body last] show ?thesis
      unfolding deploy_run_def using False by (auto elim!: sends_weaken)
  qed
qed

lemma deploy_failed_sends:
  assumes "relays emit idx"
  shows "sends (deploy_failed cfg n (send_log emit i n st) (send_status emit idx) dir e)
    (\<lambda>r. if r then {} else {[(idx, ''failed'')]}) {}"
proof -
  note log = relays_log[OF assms]
  have ret: "sends (then_op (send_log emit i n st (''ERROR: '' @ e)) (ret False))
      (\<lambda>r. if r = False then {[]} else {}) {}"
    by (rule sends_log_then[OF assms sends_ret])
  have st: "sends (then_op (send_status emit idx ''failed'') (then_op (send_log emit i n st (''ERROR: '' @ e)) (ret False)))
      (\<lambda>r. if r then {} else {[(idx, ''failed'')]}) {}"
    by (rule sends_weaken[OF sends_then[OF relays_status[OF assms] ret]]) auto
  show ?thesis
    unfolding deploy_failed_def cleanup_failed_deployment_def preserve_failed_deploy_artifacts_def if_True
    by (rule sends_log_then[OF assms st])
qed

definition deploy_words :: "index \<Rightarrow> string \<Rightarrow> statlang" where
  "deploy_words idx final =
    {[(idx, ''building''), (idx, final)], [(idx, ''building''), (idx, ''starting''), (idx, final)]}"

lemma deploy_sends:
  assumes "relays emit (dc_index d)" "dc_name d = JStr nm"
    and "\<And>l. contract (\<lambda>_. True) quiet (\<lambda>_. True) (\<lambda>_. True) (onExpected l)"
  shows "sends (deploy sha1 cfg d emit onExpected)
    (\<lambda>ok. deploy_words (dc_index d) (if ok then ''running'' else ''failed'')) {}"
proof -
  let ?i = "dc_index d" and ?n = "to_docker_name sha1 nm"
  let ?log = "send_log emit ?i ?n ''deploy''" and ?st = "send_status emit ?i"
  have name: "sends (docker_name_of sha1 (dc_name d)) (\<lambda>x. if x = ?n then {[]} else {}) {}"
    unfolding docker_name_of_def assms(2) by (simp add: nullish_def sends_ret)
  have late: "sends (bind_op (attempt (deploy_run sha1 ?n d ?log ?st onExpected p)) (\<lambda>r.
        case r of Inl e \<Rightarrow> deploy_failed cfg ?n ?log ?st (if snd p then Some (fst p) else None) e
          | Inr _ \<Rightarrow> ret True))
      (\<lambda>ok. if ok then {[(?i, ''running'')], [(?i, ''starting''), (?i, ''running'')]}
             else {[(?i, ''failed'')], [(?i, ''starting''), (?i, ''failed'')]}) {}" for p
  proof (rule sends_weaken[OF sends_bind[OF sends_attempt[OF deploy_run_sends[OF assms(1,3)]]]])
    show "sends (case r of Inl e \<Rightarrow> deploy_failed cfg ?n ?log ?st (if snd p then Some (fst p) else None) e
        | Inr _ \<Rightarrow> ret True)
      (case r of Inl e \<Rightarrow> (\<lambda>b. if b then {} else {[(?i, ''failed'')]}) | Inr _ \<Rightarrow> (\<lambda>b. if b then {[]} else {})) {}" for r
      using deploy_failed_sends[OF assms(1)] sends_ret[of True] by (cases r) simp_all
  qed (auto split: sum.splits)
  have main: "sends (bind_op (attempt (deploy_prepare sha1 cfg ?n d ?log ?st)) (\<lambda>r. case r of
        Inl e \<Rightarrow> deploy_failed cfg ?n ?log ?st None e
      | Inr p \<Rightarrow> bind_op (attempt (deploy_run sha1 ?n d ?log ?st onExpected p)) (\<lambda>r.
          case r of Inl e \<Rightarrow> deploy_failed cfg ?n ?log ?st (if snd p then Some (fst p) else None) e
          | Inr _ \<Rightarrow> ret True)))
    (\<lambda>ok. deploy_words ?i (if ok then ''running'' else ''failed'')) {}"
  proof (rule sends_weaken[OF sends_bind[OF sends_attempt[OF deploy_prepare_sends[OF assms(1)]]]])
    show "sends (case r of Inl e \<Rightarrow> deploy_failed cfg ?n ?log ?st None e
        | Inr p \<Rightarrow> bind_op (attempt (deploy_run sha1 ?n d ?log ?st onExpected p)) (\<lambda>r.
          case r of Inl e \<Rightarrow> deploy_failed cfg ?n ?log ?st (if snd p then Some (fst p) else None) e
          | Inr _ \<Rightarrow> ret True))
      (case r of Inl e \<Rightarrow> (\<lambda>b. if b then {} else {[(?i, ''failed'')]})
        | Inr p \<Rightarrow> (\<lambda>ok. if ok then {[(?i, ''running'')], [(?i, ''starting''), (?i, ''running'')]}
             else {[(?i, ''failed'')], [(?i, ''starting''), (?i, ''failed'')]})) {}" for r
      using deploy_failed_sends[OF assms(1)] late by (cases r) auto
  qed (auto simp: deploy_words_def split: sum.splits if_splits)
  have eq: "bind_op (docker_name_of sha1 (dc_name d)) f = f ?n" for f :: "string \<Rightarrow> ('a, bool) op"
    by (intro ext) (simp add: docker_name_of_def assms(2) nullish_def)
  show ?thesis unfolding deploy_def Let_def eq by (rule main)
qed

section \<open>Deletion\<close>

lemma contract_delete_container:
  assumes "P (Engine (EInspect si))" "P (Engine (EStop si))" "P (Engine (ERemove si))"
    "service \<Longrightarrow> P (Engine (ERemoveImage si))" "\<And>l. contract I P (\<lambda>_. True) (\<lambda>_. True) (sendLog l)"
  shows "contract I P (\<lambda>_. True) (\<lambda>_. True) (delete_container si service sendLog)"
  unfolding delete_container_def using assms by (auto intro!: contracts)

text \<open>
  What a delete may do outside the agent: only with scope \<open>service\<close> are images, volumes and the build
  directory removed, and that directory is the one of the service, one level below the build root.
\<close>

definition delete_allowed :: "config \<Rightarrow> string \<Rightarrow> bool \<Rightarrow> effect \<Rightarrow> bool" where
  "delete_allowed cfg si service e =
    (case e of
       Fs (FsRemove t) \<Rightarrow>
         service \<and> path_resolve (cf_cwd cfg) t = path_resolve (cf_cwd cfg) (cf_build_root cfg) @ [si]
     | Fs (FsMkdir t) \<Rightarrow> service \<and> t = cf_build_root cfg
     | CliSync args cwd \<Rightarrow> service \<and> last args = ''/workspace/'' @ si
     | CliRun args cwd \<Rightarrow>
         take 4 args = [''compose'', ''-p'', si, ''down''] \<and> (service \<or> length args = 4)
     | Engine (EInspect n) \<Rightarrow> n = si
     | Engine (EStop n) \<Rightarrow> n = si
     | Engine (ERemove n) \<Rightarrow> n = si
     | Engine (ERemoveImage n) \<Rightarrow> service \<and> n = si
     | Hub ev p \<Rightarrow> True
     | GatewayStatus i st \<Rightarrow> True
     | GatewayLog i l \<Rightarrow> True
     | Db (DbSetStatus i st t) \<Rightarrow> True
     | _ \<Rightarrow> False)"

lemma command_emit_contract:
  assumes "\<And>e i l. P (Hub e (PLog i l))" "\<And>e i st. P (Hub e (PStatus i st))" "\<And>i st. P (GatewayStatus i st)" "\<And>i l. P (GatewayLog i l)"
    "\<And>i st t. P (Db (DbSetStatus i st t))"
  shows "contract I P E (\<lambda>_. True) (command_emit idx b ev)"
  unfolding command_emit_def using assms by (cases ev) (auto intro!: contracts)

lemma contract_remove_service_dir:
  assumes seg: "list_all is_segment (cf_cwd cfg)" "is_segment si"
    and log: "\<And>l. contract I (delete_allowed cfg si True) (\<lambda>_. True) (\<lambda>_. True) (sendLog l)"
  shows "contract I (delete_allowed cfg si True) (\<lambda>_. True) (\<lambda>_. True)
    (remove_build_dir cfg (path_join (cf_build_root cfg) si) sendLog)"
proof -
  let ?t = "path_join (cf_build_root cfg) si" and ?base = "path_resolve (cf_cwd cfg) (cf_build_root cfg)"
  have t: "path_resolve (cf_cwd cfg) ?t = ?base @ [si]" by (rule path_join_segment[OF seg(2)])
  have rel: "path_relative ?base (?base @ [si]) = si" by (simp add: path_relative_def common_prefix_self)
  have path: "contract I (delete_allowed cfg si True) (\<lambda>_. True) (\<lambda>ct. ct = ''/workspace/'' @ si)
      (to_container_path cfg ?t l)" for l
    unfolding to_container_path_def Let_def t rel by (auto intro!: contracts)
  have rm: "delete_allowed cfg si True (Fs (FsRemove ?t))" using t by (simp add: delete_allowed_def)
  have mk: "delete_allowed cfg si True (Fs (FsMkdir (cf_build_root cfg)))" by (simp add: delete_allowed_def)
  have run: "delete_allowed cfg si True (CliSync [''run'', ''--rm'', ''-v'', m, ''alpine:3.20'', ''rm'', ''-rf'', ct] None)"
    if "ct = ''/workspace/'' @ si" for m ct using that by (simp add: delete_allowed_def)
  let ?P = "delete_allowed cfg si True"
  have rm': "contract I ?P (\<lambda>_. True) (\<lambda>_. True) (fs_do (FsRemove ?t))"
    by (rule contract_fs_do) (rule rm)
  have mk': "contract I ?P (\<lambda>_. True) (\<lambda>_. True) (clone_workspace_mount cfg)"
    by (rule contract_mount) (rule mk)
  have run': "contract I ?P (\<lambda>_. True) (\<lambda>_. True)
      (bind_op (run_sync [''run'', ''--rm'', ''-v'', m @ '':/workspace'', ''alpine:3.20'', ''rm'', ''-rf'', ct] None)
        (\<lambda>result. if sy_status result \<noteq> Some 0 then throw (js_err (helper_error result)) else ret ()))"
    if "ct = ''/workspace/'' @ si" for m ct
    by (rule contract_bind_any, rule contract_run_sync, rule run[OF that]) (auto intro!: contracts)
  show ?thesis
    unfolding remove_build_dir_def
    by (rule contract_try[OF rm'], rule contract_then[OF log], rule contract_bind[OF path],
        rule contract_bind_any[OF mk'], rule run')
qed

lemma contract_delete_service:
  fixes emit :: "'s emitter"
  assumes "P (Engine (EInspect (to_docker_name sha1 name)))" "P (Engine (EStop (to_docker_name sha1 name)))"
    "P (Engine (ERemove (to_docker_name sha1 name)))"
    "service \<Longrightarrow> P (Engine (ERemoveImage (to_docker_name sha1 name)))"
    "P (CliRun (if service
          then [''compose'', ''-p'', to_docker_name sha1 name, ''down'', ''--rmi'', ''all'', ''--volumes'']
          else [''compose'', ''-p'', to_docker_name sha1 name, ''down'']) None)"
    "\<And>ev. contract I P (\<lambda>_. True) (\<lambda>_. True) (emit ev)"
    "\<And>sendLog. (\<And>l. contract I P (\<lambda>_. True) (\<lambda>_. True) (sendLog l)) \<Longrightarrow> service \<Longrightarrow>
      contract I P (\<lambda>_. True) (\<lambda>_. True)
        (remove_build_dir cfg (path_join (cf_build_root cfg) (to_docker_name sha1 name)) (sendLog :: string \<Rightarrow> ('s, unit) op))"
  shows "contract I P (\<lambda>_. True) (\<lambda>_. True) (delete_service sha1 cfg idx name p service emit)"
proof -
  let ?si = "to_docker_name sha1 name"
  have log: "contract I P (\<lambda>_. True) (\<lambda>_. True) (send_log emit idx ?si ''lifecycle'' l)" for l
    by (intro contract_send_log assms)
  show ?thesis
    unfolding delete_service_def Let_def lifecycle_log_def
    using assms(1-5) by (auto intro!: assms(6,7) log contracts contract_delete_container simp del: if_split)
qed

lemma delete_service_allowed:
  assumes "hex_sha1 sha1" "list_all is_segment (cf_cwd cfg)"
  shows "contract (\<lambda>_. True) (delete_allowed cfg (to_docker_name sha1 name) service) (\<lambda>_. True) (\<lambda>_. True)
    (delete_service sha1 cfg idx name p service (command_emit idx b))"
proof -
  let ?si = "to_docker_name sha1 name" and ?P = "delete_allowed cfg (to_docker_name sha1 name) service"
  have seg: "is_segment ?si" using docker_name_segment to_docker_name_valid assms(1) by blast
  have talk: "?P (Hub e (PLog i l))" "?P (Hub e (PStatus i st))" "?P (GatewayStatus i st)" "?P (GatewayLog i l)" "?P (Db (DbSetStatus i st t))"
    for e i st l t by (simp_all add: delete_allowed_def)
  note emit = command_emit_contract[of ?P, OF talk]
  have calls: "?P (Engine (EInspect ?si))" "?P (Engine (EStop ?si))" "?P (Engine (ERemove ?si))"
    "service \<Longrightarrow> ?P (Engine (ERemoveImage ?si))"
    "?P (CliRun (if service then [''compose'', ''-p'', ?si, ''down'', ''--rmi'', ''all'', ''--volumes'']
            else [''compose'', ''-p'', ?si, ''down'']) None)"
    by (simp_all add: delete_allowed_def)
  have clean: "contract (\<lambda>_. True) ?P (\<lambda>_. True) (\<lambda>_. True)
      (remove_build_dir cfg (path_join (cf_build_root cfg) ?si) sendLog)"
    if "\<And>l. contract (\<lambda>_. True) ?P (\<lambda>_. True) (\<lambda>_. True) (sendLog l)" "service"
    for sendLog :: "string \<Rightarrow> ('a, unit) op"
  proof -
    have e: "service = True" using that by simp
    show ?thesis unfolding e
      by (rule contract_remove_service_dir[OF assms(2) seg]) (rule that(1)[unfolded e])
  qed
  show ?thesis by (rule contract_delete_service[OF calls emit clean])
qed

section \<open>The laws\<close>

text \<open>What a run adds to the trace, and the statuses among it.\<close>

definition added :: "('s, 'a) op \<Rightarrow> env \<Rightarrow> 's \<Rightarrow> trace \<Rightarrow> trace" where
  "added m env s tr = drop (length tr) (snd (snd (m env s tr)))"

definition sent :: "('s, 'a) op \<Rightarrow> env \<Rightarrow> 's \<Rightarrow> trace \<Rightarrow> string list" where
  "sent m env s tr = map snd (statuses (added m env s tr))"

definition result :: "('s, 'a) op \<Rightarrow> env \<Rightarrow> 's \<Rightarrow> trace \<Rightarrow> string + 'a" where
  "result m env s tr = fst (m env s tr)"

lemma sends_sent:
  assumes "sends m S {}"
  shows "\<exists>x. result m env s tr = Inr x \<and> sent m env s tr \<in> map snd ` S x"
proof -
  obtain r s' tr' where m: "m env s tr = (r, s', tr')" by (cases "m env s tr") auto
  from sendsD[OF assms m] obtain new where
    "tr' = tr @ new" "case r of Inl e \<Rightarrow> statuses new \<in> {} | Inr x \<Rightarrow> statuses new \<in> S x" by blast
  with m show ?thesis by (cases r) (auto simp: result_def sent_def added_def)
qed

lemma contract_added:
  assumes "contract (\<lambda>_. True) P E Q m"
  shows "list_all P (added m env s tr)"
proof -
  obtain r s' tr' where m: "m env s tr = (r, s', tr')" by (cases "m env s tr") auto
  from contractD[OF assms _ m] obtain new where "tr' = tr @ new" "list_all P new" by auto
  with m show ?thesis by (simp add: added_def)
qed

definition sample_config :: config where
  "sample_config =
    \<lparr>cf_build_root = ''/srv/build'', cf_cwd = [''app''], cf_runtime = None, cf_dockerenv = False,
     cf_volume = None, cf_user = Some (1000, 1000)\<rparr>"

text \<open>An environment in which every call succeeds, and one in which Docker refuses every call.\<close>

definition sample_env :: env where
  "sample_env =
    \<lparr>en_now = (\<lambda>_. 1700000000000), en_cli = (\<lambda>_. ([], Closed (Some 0))),
     en_sync = (\<lambda>_. \<lparr>sy_status = Some 0, sy_stdout = [], sy_stderr = []\<rparr>), en_engine = (\<lambda>_. None),
     en_running = (\<lambda>_. True), en_build = (\<lambda>_. []), en_fs = (\<lambda>_. None), en_test = (\<lambda>_. False),
     en_files = (\<lambda>_. []), en_db = (\<lambda>_. None), en_marker = (\<lambda>_. None), en_markers = (\<lambda>_. [])\<rparr>"

definition broken_env :: env where
  "broken_env = sample_env\<lparr>en_cli := (\<lambda>_. ([], Closed (Some 1))), en_engine := (\<lambda>_. Some ''Error: gone''),
     en_fs := (\<lambda>_. Some ''Error: EACCES'')\<rparr>"

definition sample_sha1 :: "string \<Rightarrow> string" where
  "sample_sha1 s = replicate 40 (CHR ''a'')"

lemma sample_sha1: "hex_sha1 sample_sha1"
  by (simp add: hex_sha1_def sample_sha1_def list_all_iff is_hex_lower_def)

lemma sample_cwd: "list_all is_segment (cf_cwd sample_config)"
  by (simp add: sample_config_def is_segment_def)

text \<open>C27: whatever a service is called, its build directory is a directory directly below the build
  root; a path handed to a helper container lies below its \<open>/workspace\<close> as the target lies below
  the build root; and a build context lies in the cloned repository. The test for that also rejects
  a directory of the repository whose name starts with two dots.\<close>

theorem build_dirs_inside:
  assumes "hex_sha1 sha1" "list_all is_segment (cf_cwd cfg)"
  shows "path_resolve (cf_cwd cfg) (path_join (cf_build_root cfg) (to_docker_name sha1 raw)) =
      path_resolve (cf_cwd cfg) (cf_build_root cfg) @ [to_docker_name sha1 raw] \<and>
    (case result (to_container_path cfg target label) env s tr of
       Inl e \<Rightarrow> True
     | Inr ct \<Rightarrow> \<exists>r. path_resolve (cf_cwd cfg) target = path_resolve (cf_cwd cfg) (cf_build_root cfg) @ r \<and>
         path_resolve [] ct = ''workspace'' # r) \<and>
    (case result (resolve_build_context cfg dir rt) env s tr of
       Inl e \<Rightarrow> True
     | Inr ctx \<Rightarrow> \<exists>r. path_resolve (cf_cwd cfg) ctx = path_resolve (cf_cwd cfg) dir @ r) \<and>
    result (resolve_build_context sample_config ''/srv/build/shop'' (Some ''..config'')) sample_env () [] =
      Inl ''Error: Root directory must stay inside the cloned repository.''"
proof (intro conjI)
  show "result (resolve_build_context sample_config ''/srv/build/shop'' (Some ''..config'')) sample_env () [] =
      Inl ''Error: Root directory must stay inside the cloned repository.''" by code_simp
  show "path_resolve (cf_cwd cfg) (path_join (cf_build_root cfg) (to_docker_name sha1 raw)) =
      path_resolve (cf_cwd cfg) (cf_build_root cfg) @ [to_docker_name sha1 raw]"
    using path_join_segment docker_name_segment to_docker_name_valid[OF assms(1)] by blast
  obtain r1 s1 t1 where 1: "to_container_path cfg target label env s tr = (r1, s1, t1)"
    by (cases "to_container_path cfg target label env s tr") auto
  then show "case result (to_container_path cfg target label) env s tr of
       Inl e \<Rightarrow> True
     | Inr ct \<Rightarrow> \<exists>r. path_resolve (cf_cwd cfg) target = path_resolve (cf_cwd cfg) (cf_build_root cfg) @ r \<and>
         path_resolve [] ct = ''workspace'' # r"
    using to_container_path_inside[OF assms(2)] by (auto simp: result_def split: sum.split)
  obtain r2 s2 t2 where 2: "resolve_build_context cfg dir rt env s tr = (r2, s2, t2)"
    by (cases "resolve_build_context cfg dir rt env s tr") auto
  then show "case result (resolve_build_context cfg dir rt) env s tr of
       Inl e \<Rightarrow> True
     | Inr ctx \<Rightarrow> \<exists>r. path_resolve (cf_cwd cfg) ctx = path_resolve (cf_cwd cfg) dir @ r"
    using build_context_inside[OF assms(2)] by (auto simp: result_def split: sum.split)
qed

theorem build_dirs_inside_witness:
  "path_resolve [''app''] (path_join ''/srv/build'' (to_docker_name sample_sha1 ''../../etc'')) =
    [''srv'', ''build'', ''etc'']"
proof -
  have "path_resolve (cf_cwd sample_config) (path_join (cf_build_root sample_config) (to_docker_name sample_sha1 ''../../etc'')) =
    path_resolve (cf_cwd sample_config) (cf_build_root sample_config) @ [to_docker_name sample_sha1 ''../../etc'']"
    by (rule conjunct1[OF build_dirs_inside[OF sample_sha1 sample_cwd]])
  moreover have "cf_cwd sample_config = [''app'']" "cf_build_root sample_config = ''/srv/build''"
    "path_resolve [''app''] ''/srv/build'' = [''srv'', ''build'']"
    "to_docker_name sample_sha1 ''../../etc'' = ''etc''" by code_simp+
  ultimately show ?thesis by simp
qed

text \<open>C29: a delete command with scope \<open>containers\<close> removes no image, no volume and no directory; with
  scope \<open>service\<close> the one directory it removes is the service's own, directly below the build root,
  also when a helper container does it.\<close>

theorem delete_scope_respected:
  assumes "hex_sha1 sha1" "list_all is_segment (cf_cwd cfg)"
  shows "list_all (delete_allowed cfg (to_docker_name sha1 name) all)
    (added (delete_service sha1 cfg idx name preset all (command_emit idx b)) env s tr)"
  by (rule contract_added[OF delete_service_allowed[OF assms]])

theorem delete_scope_respected_witness:
  "list_all (delete_allowed sample_config ''shop'' True)
    (added (delete_service sample_sha1 sample_config (JNum (num_of_int 3)) ''Shop'' (JStr ''compose'') True
       (command_emit (JNum (num_of_int 3)) False)) broken_env agent_start [])"
proof -
  have n: "to_docker_name sample_sha1 ''Shop'' = ''shop''" by code_simp
  show ?thesis using delete_scope_respected[OF sample_sha1 sample_cwd, where name = "''Shop''"] unfolding n .
qed

text \<open>C30: a deployment returns normally. It sends \<open>building\<close>, possibly \<open>starting\<close>, and one final
  status: \<open>running\<close> when it reports success and \<open>failed\<close> when it reports failure.\<close>

theorem deploy_status_protocol:
  assumes "dc_name d = JStr nm"
  shows "\<exists>ok. result (deploy sha1 cfg d deploy_emit (expected_services sha1 d)) env s tr = Inr ok \<and>
    sent (deploy sha1 cfg d deploy_emit (expected_services sha1 d)) env s tr \<in>
      (if ok then {[''building'', ''running''], [''building'', ''starting'', ''running'']}
       else {[''building'', ''failed''], [''building'', ''starting'', ''failed'']})"
proof -
  have q: "contract (\<lambda>_. True) quiet (\<lambda>_. True) (\<lambda>_. True) (expected_services sha1 d l)" for l
    unfolding expected_services_def emit_expected_containers_def track_def emit_snapshot_def
    by (auto intro!: contracts)
  have d: "sends (deploy sha1 cfg d deploy_emit (expected_services sha1 d))
      (\<lambda>ok. deploy_words (dc_index d) (if ok then ''running'' else ''failed'')) {}"
    by (rule deploy_sends[OF deploy_emit_relays assms q])
  from sends_sent[OF d, where env = env and s = s and tr = tr]
  obtain ok where ok: "result (deploy sha1 cfg d deploy_emit (expected_services sha1 d)) env s tr = Inr ok"
    "sent (deploy sha1 cfg d deploy_emit (expected_services sha1 d)) env s tr \<in>
      map snd ` deploy_words (dc_index d) (if ok then ''running'' else ''failed'')" by blast
  have "map snd ` deploy_words (dc_index d) f = {[''building'', f], [''building'', ''starting'', f]}" for f
    by (simp add: deploy_words_def)
  with ok show ?thesis by (intro exI[of _ ok]) (simp split: if_splits)
qed

theorem deploy_status_protocol_witness:
  "\<exists>ok. result (deploy sample_sha1 sample_config sample_command deploy_emit
      (expected_services sample_sha1 sample_command)) broken_env agent_start [] = Inr ok \<and>
    sent (deploy sample_sha1 sample_config sample_command deploy_emit
      (expected_services sample_sha1 sample_command)) broken_env agent_start [] \<in>
      (if ok then {[''building'', ''running''], [''building'', ''starting'', ''running'']}
       else {[''building'', ''failed''], [''building'', ''starting'', ''failed'']})"
proof -
  have "dc_name sample_command = JStr ''shop''" by (simp add: sample_command_def)
  from deploy_status_protocol[OF this] show ?thesis .
qed

end
