(* ===== verification/Command_Laws.thy ===== *)
theory Command_Laws
  imports Service_Laws
begin

text \<open>
  What holds across the commands: the invariant of the tables the agent keeps, which every command
  and every Docker event preserves, the one response to each command, and the commands that only
  look. Also to whom a container event is attributed, and how container states are summed up.
\<close>

section \<open>The tables of the agent\<close>

definition snapshot_ok :: "snapshot \<Rightarrow> bool" where
  "snapshot_ok sn =
    (sn_total sn = length (sn_containers sn) \<and>
     sn_running sn = length (filter (\<lambda>c. cs_status c = Running) (sn_containers sn)))"

definition agent_inv :: "(string \<Rightarrow> string) \<Rightarrow> agent \<Rightarrow> bool" where
  "agent_inv sha1 s =
    (jm_wf (ag_tracked s) \<and>
     list_all (\<lambda>(i, t). to_docker_name sha1 (ts_name t) = ts_name t) (ag_tracked s) \<and>
     jm_wf (ag_snapshots s) \<and>
     list_all (\<lambda>(i, sn). sn_index sn = i \<and> snapshot_ok sn) (ag_snapshots s) \<and>
     jm_wf (ag_streams s) \<and>
     list_all (\<lambda>(c, p). p < ag_spawned s) (ag_streams s) \<and>
     distinct (map snd (ag_streams s)))"

lemma set_jm_set: "set (jm_set k v m) \<subseteq> insert (k, v) (set m)"
  unfolding jm_set_def by (induction m) auto

lemma list_all_jm_set: "list_all Q m \<Longrightarrow> Q (k, v) \<Longrightarrow> list_all Q (jm_set k v m)"
  using set_jm_set[of k v m] by (auto simp: list_all_iff)

lemma list_all_jm_delete: "list_all Q m \<Longrightarrow> list_all Q (jm_delete k m)"
  by (auto simp: jm_delete_def AList.delete_eq list_all_iff)

lemma distinct_jm_set: "distinct (map snd m) \<Longrightarrow> v \<notin> snd ` set m \<Longrightarrow> distinct (map snd (jm_set k v m))"
proof (induction m)
  case (Cons e m)
  have "snd ` set (jm_set k v m) \<subseteq> insert v (snd ` set m)" using set_jm_set[of k v m] by auto
  with Cons show ?case by (cases e) (auto simp: jm_set_def)
qed (simp add: jm_set_def)

lemma distinct_jm_delete: "distinct (map snd m) \<Longrightarrow> distinct (map snd (jm_delete k m))"
  by (simp add: jm_delete_def AList.delete_eq distinct_map_filter)

lemma snapshot_from_ok [simp]: "snapshot_ok (snapshot_from_containers idx cs)"
  by (simp add: snapshot_ok_def snapshot_from_containers_def)

lemma sn_index_from [simp]: "sn_index (snapshot_from_containers idx cs) = idx"
  by (simp add: snapshot_from_containers_def)

lemma inv_start: "agent_inv sha1 agent_start"
  by (simp add: agent_inv_def agent_start_def jm_wf_def)

lemma inv_hub: "agent_inv sha1 s \<Longrightarrow> agent_inv sha1 (s\<lparr>ag_hub := b\<rparr>)"
  by (simp add: agent_inv_def)

lemma inv_track:
  "hex_sha1 sha1 \<Longrightarrow> agent_inv sha1 s \<Longrightarrow>
   agent_inv sha1 (s\<lparr>ag_tracked := jm_set i \<lparr>ts_name = to_docker_name sha1 n, ts_preset = p\<rparr> (ag_tracked s)\<rparr>)"
  using to_docker_name_valid[of sha1 n] to_docker_name_id[of "to_docker_name sha1 n" sha1]
  by (simp add: agent_inv_def list_all_jm_set jsm.wf_put)

lemma inv_snapshot:
  "snapshot_ok sn \<Longrightarrow> sn_index sn = i \<Longrightarrow> agent_inv sha1 s \<Longrightarrow>
   agent_inv sha1 (s\<lparr>ag_snapshots := jm_set i sn (ag_snapshots s)\<rparr>)"
  by (simp add: agent_inv_def list_all_jm_set jsm.wf_put)

lemma inv_stream_delete:
  "agent_inv sha1 s \<Longrightarrow> agent_inv sha1 (s\<lparr>ag_streams := jm_delete c (ag_streams s)\<rparr>)"
  by (simp add: agent_inv_def list_all_jm_delete distinct_jm_delete jsm.wf_del)

lemma inv_stream_set:
  assumes "agent_inv sha1 s"
  shows "agent_inv sha1 (s\<lparr>ag_spawned := Suc (ag_spawned s),
    ag_streams := jm_set c (ag_spawned s) (ag_streams s)\<rparr>)"
proof -
  have old: "list_all (\<lambda>(c, p). p < Suc (ag_spawned s)) (ag_streams s)"
    using assms by (auto simp: agent_inv_def list_all_iff)
  have "ag_spawned s \<notin> snd ` set (ag_streams s)" using assms by (auto simp: agent_inv_def list_all_iff)
  with assms old show ?thesis
    by (simp add: agent_inv_def list_all_jm_set jsm.wf_put distinct_jm_set)
qed

section \<open>Contracts of the operations\<close>

fun is_response :: "effect \<Rightarrow> bool" where
  "is_response (Hub e (PResponse r)) = True"
| "is_response _ = False"

text \<open>What every operation promises: it keeps the invariant and sends no response.\<close>

abbreviation keeps :: "(string \<Rightarrow> string) \<Rightarrow> (agent, 'a) op \<Rightarrow> bool" where
  "keeps sha1 m \<equiv> contract (agent_inv sha1) (\<lambda>e. \<not> is_response e) (\<lambda>_. True) (\<lambda>_. True) m"

lemma talk_admits: "admits_calls (\<lambda>e. \<not> is_response e)"
  by (simp add: admits_calls_def)

lemma contract_db [contracts]: "P (Db c) \<Longrightarrow> contract I P (\<lambda>_. True) (\<lambda>_. True) (db_call c)"
  unfolding db_call_def by (intro contracts) auto

lemma keeps_track: "hex_sha1 sha1 \<Longrightarrow> keeps sha1 (track sha1 i n p)"
  unfolding track_def by (intro contracts inv_track) auto

lemma keeps_emit_snapshot: "snapshot_ok sn \<Longrightarrow> keeps sha1 (emit_snapshot sn)"
  unfolding emit_snapshot_def by (intro contracts inv_snapshot) auto

lemma keeps_states: "keeps sha1 (get_container_states cfg n p)"
  by (rule contract_mono[OF get_container_states_looks]) (auto simp: looks_def elim!: is_response.elims)

lemma keeps_sync: "hex_sha1 sha1 \<Longrightarrow> keeps sha1 (sync_container_status sha1 cfg i n p f)"
  unfolding sync_container_status_def Let_def
  by (intro contracts keeps_track keeps_states keeps_emit_snapshot) auto

lemma keeps_expected: "hex_sha1 sha1 \<Longrightarrow> keeps sha1 (emit_expected_containers sha1 i n p ss)"
  unfolding emit_expected_containers_def by (intro contracts keeps_track keeps_emit_snapshot) auto

lemma keeps_init: "hex_sha1 sha1 \<Longrightarrow> keeps sha1 (init_container_states sha1 i n p)"
  unfolding init_container_states_def by (intro contracts keeps_track keeps_emit_snapshot) auto

lemma keeps_clear: "keeps sha1 (clear_container_states i)"
  unfolding clear_container_states_def by (intro contracts inv_snapshot) auto

lemma keeps_marker: "keeps sha1 (create_service_session_marker i n e)"
  unfolding create_service_session_marker_def Let_def by (auto intro!: contracts split: option.split)

lemma keeps_command_emit: "keeps sha1 (command_emit i b ev)"
  by (rule command_emit_contract) simp_all

lemma keeps_deploy_emit: "keeps sha1 (deploy_emit ev)"
  unfolding deploy_emit_def by (cases ev) (auto intro!: contracts)

lemma contract_attempt [contracts]:
  "contract I P (\<lambda>_. True) (\<lambda>_. True) m \<Longrightarrow> contract I P E (\<lambda>_. True) (attempt m)"
  unfolding attempt_def by (intro contracts) auto

lemma keeps_deploy:
  assumes "\<And>l. keeps sha1 (onExpected l)"
  shows "keeps sha1 (deploy sha1 cfg d deploy_emit onExpected)"
proof -
  have log: "keeps sha1 (send_log deploy_emit i n st l)" for i n st l
    by (intro contract_send_log keeps_deploy_emit)
  have st: "keeps sha1 (send_status deploy_emit i s)" for i s
    by (intro contract_send_status keeps_deploy_emit)
  note parts = contract_remove_existing[OF talk_admits log] contract_remove_build_dir[OF talk_admits log]
    contract_clone_all[OF talk_admits log] contract_build_context[OF talk_admits]
    contract_permissions[OF talk_admits] contract_should_use_compose[OF talk_admits]
    contract_deploy_with_compose[OF talk_admits log assms] contract_build_image[OF talk_admits log]
    contract_run_container[OF talk_admits]
  have name: "keeps sha1 (docker_name_of sha1 v)" for v
    unfolding docker_name_of_def by (cases v) (auto intro!: contracts)
  have prep: "keeps sha1 (deploy_prepare sha1 cfg n d (send_log deploy_emit i n st) (send_status deploy_emit j))" for i j n st
    unfolding deploy_prepare_def Let_def by (intro contracts log st parts)
      (auto intro!: contracts log parts)
  have run: "keeps sha1 (deploy_run sha1 n d (send_log deploy_emit i n st) (send_status deploy_emit j) onExpected p)" for i j n st p
    unfolding deploy_run_def deploy_with_dockerfile_def by (auto intro!: contracts log st parts)
  have fail: "keeps sha1 (deploy_failed cfg n (send_log deploy_emit i n st) (send_status deploy_emit j) dir e)" for i j n st dir e
    unfolding deploy_failed_def cleanup_failed_deployment_def preserve_failed_deploy_artifacts_def if_True
    by (auto intro!: contracts log st)
  show ?thesis
    unfolding deploy_def Let_def
    by (auto intro!: contracts name prep run fail split: sum.split)
qed

lemma keeps_v1_deploy: "hex_sha1 sha1 \<Longrightarrow> keeps sha1 (v1_deploy_service sha1 cfg d deploy_emit)"
  unfolding v1_deploy_service_def sync_after_deploy_def expected_services_def
  by (auto intro!: contracts keeps_deploy keeps_expected keeps_sync)

lemma keeps_v1_redeploy: "hex_sha1 sha1 \<Longrightarrow> keeps sha1 (v1_redeploy_service sha1 cfg d deploy_emit)"
  unfolding v1_redeploy_service_def sync_after_deploy_def expected_services_def
  by (auto intro!: contracts keeps_deploy keeps_expected keeps_sync)

lemma keeps_command_log: "keeps sha1 (send_log (command_emit i b) j n st l)"
  by (intro contract_send_log keeps_command_emit)

lemma keeps_command_status: "keeps sha1 (send_status (command_emit i b) j st)"
  by (intro contract_send_status keeps_command_emit)

lemmas keeps_command = keeps_command_log keeps_command_status keeps_command_emit

lemma keeps_container_ops:
  "keeps sha1 (start_container i n (command_emit j b))"
  "keeps sha1 (stop_container i n (command_emit j b))"
  "keeps sha1 (restart_container i n (command_emit j b))"
  "keeps sha1 (v1_start_service sha1 i n p (command_emit j b))"
  "keeps sha1 (v1_stop_service sha1 i n p (command_emit j b))"
  unfolding start_container_def stop_container_def restart_container_def v1_start_service_def
    v1_stop_service_def restart_service_def stop_service_def Let_def lifecycle_log_def
  by (auto intro!: contracts keeps_command)

lemma keeps_delete: "keeps sha1 (v1_delete_service sha1 cfg n i p all (command_emit j b))"
  unfolding v1_delete_service_def
  by (auto intro!: contracts contract_delete_service keeps_command contract_remove_build_dir[OF talk_admits])

lemma contract_fetch [contracts]:
  "P (CliSync args None) \<Longrightarrow> contract I P (\<lambda>_. True) (\<lambda>_. True) (fetch_log_entries c args)"
  unfolding fetch_log_entries_def by (auto intro!: contracts)

lemma contract_report_progress [contracts]:
  "(\<And>q. contract I P E (\<lambda>_. True) (onProgress q)) \<Longrightarrow>
   contract I P E (\<lambda>_. True) (report_progress onProgress p)"
  unfolding report_progress_def by (cases p) (auto intro!: contracts)

lemma contract_history_loop:
  assumes "\<And>q. contract I P E (\<lambda>_. True) (onProgress q)" "\<And>b. contract I P E (\<lambda>_. True) (onHistory b)"
  shows "contract I P E (\<lambda>_. True) (history_loop onProgress onHistory n off lst bs)"
  by (induction bs arbitrary: off lst) (auto intro!: contracts assms split: prod.split)

lemma contract_send_history:
  assumes "\<And>q. contract I P E (\<lambda>_. True) (onProgress q)" "\<And>b. contract I P E (\<lambda>_. True) (onHistory b)"
  shows "contract I P E (\<lambda>_. True) (send_history onProgress onHistory logs)"
  unfolding send_history_def Let_def
  by (auto intro!: contracts contract_history_loop assms split: prod.split)

lemma contract_start_stream:
  assumes "\<And>n. P (CliStream (follow_args c k) n)"
    "\<And>s. I s \<Longrightarrow> I (s\<lparr>ag_spawned := Suc (ag_spawned s), ag_streams := jm_set c (ag_spawned s) (ag_streams s)\<rparr>)"
  shows "contract I P E (\<lambda>_. True) (start_stream c k)"
proof (rule contractI)
  fix env s tr r s' tr'
  assume "I s" "start_stream c k env s tr = (r, s', tr')"
  then show "I s' \<and> (\<exists>new. tr' = tr @ new \<and> list_all P new) \<and> (case r of Inl e \<Rightarrow> E e | Inr x \<Rightarrow> True)"
    using assms by (auto simp: start_stream_def)
qed

lemma contract_stop_log:
  assumes "\<And>n. P (CliKill n)" "\<And>s. I s \<Longrightarrow> I (s\<lparr>ag_streams := jm_delete c (ag_streams s)\<rparr>)"
  shows "contract I P E (\<lambda>_. True) (stop_container_log c)"
  unfolding stop_container_log_def using assms by (auto intro!: contracts split: option.split)

lemma contract_stream_log:
  assumes "\<And>n. P (CliKill n)" "\<And>s. I s \<Longrightarrow> I (s\<lparr>ag_streams := jm_delete c (ag_streams s)\<rparr>)"
    "\<And>k n. P (CliStream (follow_args c k) n)"
    "\<And>s. I s \<Longrightarrow> I (s\<lparr>ag_spawned := Suc (ag_spawned s), ag_streams := jm_set c (ag_spawned s) (ag_streams s)\<rparr>)"
    "\<And>k. P (CliSync (log_args c k ''10000'' None) None)"
    "\<And>q. contract I P (\<lambda>_. True) (\<lambda>_. True) (onProgress q)" "\<And>b. contract I P (\<lambda>_. True) (\<lambda>_. True) (onHistory b)"
  shows "contract I P (\<lambda>_. True) (\<lambda>_. True) (stream_container_log c p onProgress onHistory)"
  unfolding stream_container_log_def
  by (intro contracts contract_stop_log contract_send_history contract_start_stream assms) auto

lemma contract_older_logs:
  assumes "\<And>k l u. P (CliSync (log_args c k l u) None)"
  shows "contract I P (\<lambda>_. True) (\<lambda>_. True) (load_older_container_logs c p bound limit)"
  unfolding load_older_container_logs_def using assms by (auto intro!: contracts split: option.split)

lemma contract_recent_markers:
  "P (Db (DbFindMarkers i None (num_of_int 1000))) \<Longrightarrow>
   contract I P (\<lambda>_. True) (\<lambda>_. True) (load_recent_session_markers i)"
  unfolding load_recent_session_markers_def by (auto intro!: contracts)

lemma contract_older_markers:
  "(\<And>t. P (Db (DbFindMarkers i (Some t) limit))) \<Longrightarrow>
   contract I P (\<lambda>_. True) (\<lambda>_. True) (load_older_session_markers i bound limit)"
  unfolding load_older_session_markers_def by (auto intro!: contracts split: option.split)

lemma contract_if: "contract I P E Q m \<Longrightarrow> contract I P E Q n \<Longrightarrow> contract I P E Q (if b then m else n)"
  by simp

lemma keeps_run_command:
  assumes "hex_sha1 sha1"
  shows "keeps sha1 (run_command sha1 cfg pd c p)"
proof -
  have sync: "keeps sha1 (sync_only sha1 cfg i n q f)" for i n q f
    unfolding sync_only_def by (intro contracts keeps_sync assms) simp_all
  have svc: "keeps sha1 (with_service p f)" if "\<And>i n q. keeps sha1 (f i n q)" for f
    unfolding with_service_def using that by (auto intro!: contracts split: option.split)
  have name: "keeps sha1 (marker_name p)"
    unfolding marker_name_def by (auto intro!: contracts split: jsval.split)
  have deploys: "keeps sha1 (do_deploy sha1 cfg p)" "keeps sha1 (do_redeploy sha1 cfg p)"
    unfolding do_deploy_def do_redeploy_def
    by (auto intro!: contracts name keeps_marker keeps_init keeps_v1_deploy keeps_v1_redeploy assms)
  have ops: "keeps sha1 (do_start sha1 cfg i n q)" "keeps sha1 (do_stop sha1 cfg i n q)"
    "keeps sha1 (do_container_start sha1 cfg p i n q)" "keeps sha1 (do_container_stop sha1 cfg p i n q)"
    "keeps sha1 (do_container_restart sha1 cfg p i n q)" "keeps sha1 (do_delete sha1 cfg p i n q)" for i n q
    unfolding do_start_def do_stop_def do_container_start_def do_container_stop_def
      do_container_restart_def do_delete_def
    by (auto intro!: contracts sync keeps_marker keeps_container_ops keeps_delete keeps_clear)
  have snap: "keeps sha1 (get_container_snapshot i)" for i
    unfolding get_container_snapshot_def by (intro contracts)
  have logs: "keeps sha1 (do_stream_log sha1 i n q)" "keeps sha1 (do_load_older_log sha1 pd p i n q)"
    "keeps sha1 (do_sync sha1 cfg i n q)" "keeps sha1 (stop_service_log sha1 m)" for i n q m
    unfolding do_stream_log_def do_load_older_log_def do_sync_def stop_service_log_def
      stream_service_log_def load_older_service_logs_def Let_def
    by (auto intro!: contracts snap contract_stream_log contract_older_logs contract_recent_markers
        contract_older_markers contract_stop_log keeps_sync assms inv_stream_delete inv_stream_set
        split: option.split)
  show ?thesis
    unfolding run_command_def
    by (intro contract_if contracts svc deploys ops logs) simp_all
qed

section \<open>Reachable states\<close>

text \<open>
  The steps: the emitter is registered, the Hub sends a command, Docker reports an event, the
  process behind a log stream ends. A step runs against any environment and any history.
\<close>

datatype agent_event = Register | Command jsval | DockerEvent status_event | StreamClosed string nat

fun agent_op ::
    "(string \<Rightarrow> string) \<Rightarrow> config \<Rightarrow> (string \<Rightarrow> int option) \<Rightarrow> agent_event \<Rightarrow> (agent, unit) op" where
  "agent_op sha1 cfg pd Register = register_hub_emit"
| "agent_op sha1 cfg pd (Command p) = on_command sha1 cfg pd p"
| "agent_op sha1 cfg pd (DockerEvent ev) = on_status_event sha1 cfg ev"
| "agent_op sha1 cfg pd (StreamClosed c n) = on_stream_close c n"

inductive agent_step ::
    "(string \<Rightarrow> string) \<Rightarrow> config \<Rightarrow> (string \<Rightarrow> int option) \<Rightarrow> agent \<Rightarrow> agent_event \<Rightarrow> agent \<Rightarrow> bool"
  for sha1 cfg pd where
  agent_stepI: "agent_op sha1 cfg pd e env s tr = (r, t, tr') \<Longrightarrow> agent_step sha1 cfg pd s e t"

inductive_cases agent_stepE: "agent_step sha1 cfg pd s e t"

lemma agent_op_inv:
  assumes "hex_sha1 sha1"
  shows "contract (agent_inv sha1) (\<lambda>_. True) (\<lambda>_. True) (\<lambda>_. True) (agent_op sha1 cfg pd e)"
proof (cases e)
  case Register
  then show ?thesis by (auto simp: register_hub_emit_def intro!: contracts inv_hub)
next
  case (Command p)
  have "contract (agent_inv sha1) (\<lambda>_. True) (\<lambda>_. True) (\<lambda>_. True) (run_command sha1 cfg pd c p)" for c
    by (rule contract_mono[OF keeps_run_command[OF assms]]) auto
  then show ?thesis using Command by (auto simp: on_command_def intro!: contracts)
next
  case (DockerEvent ev)
  have "contract (agent_inv sha1) (\<lambda>_. True) (\<lambda>_. True) (\<lambda>_. True) (sync_container_status sha1 cfg i n p f)" for i n p f
    by (rule contract_mono[OF keeps_sync[OF assms]]) auto
  then show ?thesis using DockerEvent
    by (auto simp: on_status_event_def emit_container_lifecycle_log_def intro!: contracts split: option.split prod.split)
next
  case (StreamClosed c n)
  then show ?thesis by (auto simp: on_stream_close_def intro!: contracts inv_stream_delete)
qed

interpretation agent_tables: step_invariant "\<lambda>s. s = agent_start" "agent_step sha1 cfg pd"
  "\<lambda>s. hex_sha1 sha1 \<longrightarrow> agent_inv sha1 s" for sha1 cfg pd
proof unfold_locales
  fix s e t
  assume "hex_sha1 sha1 \<longrightarrow> agent_inv sha1 s" "agent_step sha1 cfg pd s e t"
  then show "hex_sha1 sha1 \<longrightarrow> agent_inv sha1 t"
    using contractD[OF agent_op_inv] by (blast elim: agent_stepE)
qed (simp add: inv_start)

end
