(* ===== verification/Agent_Laws.thy ===== *)
theory Agent_Laws
  imports Command_Laws
begin

text \<open>
  The laws of the command handler and of the tables it keeps: every command that does not throw is
  answered once, an incomplete command has no effect, the observing commands only look, and the
  tables stay well formed whatever events arrive. Also how container states are summed up and to
  which service a container event goes.
\<close>

section \<open>Responses\<close>

text \<open>The response the Hub gets for a command\<close>

definition answer :: "string \<Rightarrow> jsval \<Rightarrow> jsval" where
  "answer c p = (if c \<in> {''DEPLOY'', ''REDEPLOY''} then deploy_response (deploy_request p) else empty_response)"

lemma result_with_service:
  "with_service p f env s tr = (Inr x, s', tr') \<Longrightarrow> x = empty_response"
  by (auto simp: with_service_def then_op_def run_bind split: prod.splits sum.splits option.splits)

lemma result_v1_deploy:
  "v1_deploy_service sha1 cfg d emit env s tr = (Inr x, s', tr') \<Longrightarrow> x = d"
  by (auto simp: v1_deploy_service_def then_op_def run_bind split: prod.splits sum.splits)

lemma result_v1_redeploy:
  "v1_redeploy_service sha1 cfg d emit env s tr = (Inr x, s', tr') \<Longrightarrow> x = d"
  by (auto simp: v1_redeploy_service_def then_op_def run_bind split: prod.splits sum.splits)

lemma result_deploys:
  "do_deploy sha1 cfg p env s tr = (Inr x, s', tr') \<Longrightarrow> x = deploy_response (deploy_request p)"
  "do_redeploy sha1 cfg p env s tr = (Inr x, s', tr') \<Longrightarrow> x = deploy_response (deploy_request p)"
  by (auto simp: do_deploy_def do_redeploy_def then_op_def run_bind split: prod.splits sum.splits
      dest!: result_v1_deploy result_v1_redeploy)

lemma result_run_command:
  assumes "run_command sha1 cfg pd c p env s tr = (Inr x, s', tr')"
  shows "x = answer c p"
proof -
  have ends: "then_op m (ret empty_response) env s tr = (Inr x, s', tr') \<Longrightarrow> x = empty_response" for m :: "(agent, unit) op"
    by (auto simp: then_op_def run_bind split: prod.splits sum.splits)
  show ?thesis
    using assms unfolding run_command_def answer_def
    by (auto split: if_split_asm dest: result_deploys result_with_service ends)
qed

definition command_of :: "jsval \<Rightarrow> string" where
  "command_of p = (case get_field p ''command'' of JStr s \<Rightarrow> s | _ \<Rightarrow> [])"

text \<open>C31: A command that is handled without an exception is answered exactly once: the response is
  the last thing sent, nothing before it is a response, and it repeats the request for a deployment
  and is empty for every other command, known or not. A command that throws gets no response at all.
  This holds in any environment and for every payload.\<close>

theorem command_response:
  assumes "hex_sha1 sha1" "agent_inv sha1 s" "on_command sha1 cfg pd p env s tr = (r, s', tr')"
  shows "\<exists>new. list_all (\<lambda>e. \<not> is_response e) new \<and>
    tr' = tr @ new @ (case r of Inl e \<Rightarrow> [] | Inr _ \<Rightarrow> [Hub ''response'' (PResponse (answer (command_of p) p))])"
proof -
  obtain r1 s1 tr1 where m: "run_command sha1 cfg pd (command_of p) p env s tr = (r1, s1, tr1)"
    by (cases "run_command sha1 cfg pd (command_of p) p env s tr") auto
  from contractD[OF keeps_run_command[OF assms(1)] assms(2) m] obtain new
    where n: "tr1 = tr @ new" "list_all (\<lambda>e. \<not> is_response e) new" by blast
  show ?thesis
  proof (cases r1)
    case (Inl e)
    then show ?thesis using assms(3) m n by (auto simp: on_command_def command_of_def)
  next
    case (Inr x)
    then have "x = answer (command_of p) p" using m result_run_command by blast
    then show ?thesis using Inr assms(3) m n by (auto simp: on_command_def command_of_def)
  qed
qed

definition sample_payload :: "string \<Rightarrow> jsval" where
  "sample_payload c = JObj 0 [(''command'', JStr c), (''serviceIndex'', JNum (num_of_int 3)),
    (''serviceName'', JStr ''shop''), (''deployPreset'', JStr ''compose'')]"

theorem command_response_witness:
  "\<exists>new. list_all (\<lambda>e. \<not> is_response e) new \<and>
     snd (snd (on_command sample_sha1 sample_config (\<lambda>_. None) (sample_payload ''STOP'') sample_env agent_start [])) =
     new @ [Hub ''response'' (PResponse empty_response)]"
proof -
  let ?run = "on_command sample_sha1 sample_config (\<lambda>_. None) (sample_payload ''STOP'') sample_env agent_start []"
  have ok: "fst ?run = Inr ()" by code_simp
  have run: "?run = (Inr (), fst (snd ?run), snd (snd ?run))" using ok by (cases ?run) auto
  have a: "answer (command_of (sample_payload ''STOP'')) (sample_payload ''STOP'') = empty_response" by code_simp
  show ?thesis using command_response[OF sample_sha1 inv_start run] a by auto
qed

section \<open>Incomplete commands\<close>

definition service_commands :: "string list" where
  "service_commands = [''START'', ''STOP'', ''CONTAINER_START'', ''CONTAINER_STOP'', ''CONTAINER_RESTART'',
    ''DELETE'', ''STREAM_LOG'', ''LOAD_OLDER_LOG'', ''SYNC_CONTAINER_STATUS'']"

text \<open>A command on a service whose payload does not name one (its index is not a positive whole
  number, its name is not a non-empty string, or it has no preset) does nothing: the state is left
  alone, no container, file or row is touched, and the Hub gets the same empty response a successful
  command gives.\<close>

lemma incomplete_command_inert:
  assumes "command_of p \<in> set service_commands" "get_service_command_payload p = None"
  shows "on_command sha1 cfg pd p env s tr =
    (Inr (), s, tr @ [Hub ''response'' (PResponse empty_response)])"
proof -
  have "run_command sha1 cfg pd (command_of p) p = then_op (ret ()) (ret empty_response)"
    using assms by (auto simp: run_command_def service_commands_def with_service_def)
  then show ?thesis by (simp add: on_command_def command_of_def[symmetric])
qed

text \<open>A deletion that fails is reported as such and forgotten all the same: the rows of the service go
  and the Hub is told the service was removed.\<close>

lemma failed_delete_forgets:
  "(let fx = added (do_delete sample_sha1 sample_config (JObj 0 [(''deleteScope'', JStr ''service'')])
        (JNum (num_of_int 3)) ''shop'' (JStr ''compose'')) broken_env (agent_start\<lparr>ag_hub := True\<rparr>) []
    in Db (DbDeleteService (JNum (num_of_int 3))) \<in> set fx \<and> map snd (statuses fx) = [''failed'', ''removed''])"
  by code_simp

section \<open>Commands that only look\<close>

definition observing_commands :: "string list" where
  "observing_commands = [''STREAM_LOG'', ''LOAD_OLDER_LOG'', ''SYNC_CONTAINER_STATUS'', ''STOP_LOG'', ''ABORT'']"

text \<open>Talking to the Hub, reading with Docker's command line, starting and ending a \<open>docker logs\<close>
  process, testing a path, reading markers\<close>

definition observes :: "effect \<Rightarrow> bool" where
  "observes e =
    (case e of
       Hub ev q \<Rightarrow> True
     | CliSync args cwd \<Rightarrow> looks e \<or> (args \<noteq> [] \<and> hd args \<in> {''logs'', ''compose''} \<and> ''logs'' \<in> set args)
     | CliStream args n \<Rightarrow> ''logs'' \<in> set args
     | CliKill n \<Rightarrow> True
     | Fs (FsExists q) \<Rightarrow> True
     | Db (DbFindMarkers i t l) \<Rightarrow> True
     | _ \<Rightarrow> False)"

abbreviation only_looks :: "(agent, 'a) op \<Rightarrow> bool" where
  "only_looks m \<equiv> contract (\<lambda>_. True) observes (\<lambda>_. True) (\<lambda>_. True) m"

lemma observes_logs: "observes (CliSync (log_args c k l u) None)"
  by (cases k) (simp_all add: observes_def log_args_def Let_def)

lemma observes_follow: "observes (CliStream (follow_args c k) n)"
  by (cases k) (simp_all add: observes_def follow_args_def)

lemma only_looks_states: "only_looks (get_container_states cfg n p)"
  by (rule contract_mono[OF get_container_states_looks])
    (auto simp: looks_def observes_def split: effect.splits fs_call.splits)

lemma only_looks_sync: "only_looks (sync_container_status sha1 cfg i n p f)"
  unfolding sync_container_status_def track_def emit_snapshot_def Let_def
  by (auto intro!: contracts only_looks_states simp: observes_def)

lemma only_looks_commands:
  "only_looks (do_stream_log sha1 i n q)" "only_looks (do_load_older_log sha1 pd p i n q)"
  "only_looks (do_sync sha1 cfg i n q)" "only_looks (stop_service_log sha1 m)"
proof -
  have snap: "only_looks (get_container_snapshot i)"
    unfolding get_container_snapshot_def by (intro contracts)
  note parts = contracts snap contract_stream_log contract_older_logs contract_recent_markers
    contract_older_markers contract_stop_log only_looks_sync observes_logs observes_follow
  show "only_looks (do_stream_log sha1 i n q)"
    unfolding do_stream_log_def stream_service_log_def
    by (auto intro!: parts simp: observes_def split: option.split)
  show "only_looks (do_load_older_log sha1 pd p i n q)"
    unfolding do_load_older_log_def load_older_service_logs_def Let_def
    by (auto intro!: parts simp: observes_def)
  show "only_looks (do_sync sha1 cfg i n q)"
    unfolding do_sync_def by (auto intro!: parts simp: observes_def)
  show "only_looks (stop_service_log sha1 m)"
    unfolding stop_service_log_def by (auto intro!: parts simp: observes_def)
qed

lemma only_looks_with_service:
  "(\<And>i n q. only_looks (f i n q)) \<Longrightarrow> only_looks (with_service p f)"
  unfolding with_service_def by (auto intro!: contracts split: option.split)

text \<open>C32: The commands that follow logs, load older ones, ask for the state of the containers, stop a
  log and abort only look: whatever the payload and whatever Docker and the database answer, they
  start, stop, create or remove no container, write no file and change no row. All they do is talk
  to the Hub, run Docker's listing, inspecting and logging commands, end a log process and read
  session markers.\<close>

theorem observing_commands_look:
  assumes "command_of p \<in> set observing_commands"
  shows "list_all observes (added (on_command sha1 cfg pd p) env s tr)"
proof -
  have "only_looks (run_command sha1 cfg pd (command_of p) p)"
    using assms unfolding run_command_def observing_commands_def
    by (auto intro!: contracts only_looks_with_service only_looks_commands)
  then have "only_looks (on_command sha1 cfg pd p)"
    unfolding on_command_def command_of_def by (auto intro!: contracts simp: observes_def)
  then show ?thesis by (rule contract_added)
qed

theorem observing_commands_look_witness:
  "list_all observes (added (on_command sample_sha1 sample_config (\<lambda>_. None)
     (sample_payload ''STREAM_LOG'')) sample_env agent_start [])"
proof -
  have "command_of (sample_payload ''STREAM_LOG'') \<in> set observing_commands" by code_simp
  then show ?thesis by (rule observing_commands_look)
qed

section \<open>The tables\<close>

text \<open>C33: After any sequence of registrations, commands, Docker events and ends of log processes, run
  against any environment, the tables the agent keeps are well formed: a service is tracked once and
  under a name Docker accepts, the snapshot kept for a service is that service's and its counts are
  those of its containers, every open log stream belongs to a process that was started, and no two
  streams share one.\<close>

theorem reachable_tables:
  assumes "hex_sha1 sha1" "reach (\<lambda>s. s = agent_start) (agent_step sha1 cfg pd) s"
  shows "agent_inv sha1 s"
  using agent_tables.inv_reach[OF assms(2)] assms(1) by blast

theorem reachable_tables_witness:
  "agent_inv sample_sha1 (fst (snd (on_command sample_sha1 sample_config (\<lambda>_. None)
     (sample_payload ''STOP'') sample_env agent_start [])))"
proof -
  let ?op = "on_command sample_sha1 sample_config (\<lambda>_. None) (sample_payload ''STOP'') sample_env agent_start []"
  have "agent_step sample_sha1 sample_config (\<lambda>_. None) agent_start (Command (sample_payload ''STOP''))
      (fst (snd ?op))"
    by (rule agent_stepI[of _ _ _ _ _ _ _ "fst ?op" _ "snd (snd ?op)"]) simp
  then have "reach (\<lambda>s. s = agent_start) (agent_step sample_sha1 sample_config (\<lambda>_. None)) (fst (snd ?op))"
    using reach.intros(1)[of "\<lambda>s. s = agent_start", OF refl] by (rule reach.intros(2)[rotated])
  then show ?thesis by (rule reachable_tables[OF sample_sha1])
qed

section \<open>Whose container it is\<close>

text \<open>A container event goes to the first service in the order of tracking whose name is the
  container's or the start of it before a hyphen. So when one service's name continues another's
  with a hyphen, and the shorter one was tracked first, every event of the longer one's containers
  is handled as the shorter one's: its lifecycle line is logged there and the wrong service's state
  is read again, and the service the container is of hears nothing.\<close>

lemma prefix_service_shadows:
  assumes "to_docker_name sha1 (ts_name t) = ts_name t" "to_docker_name sha1 (ts_name u) = ts_name u"
    and "ts_name u = ts_name t @ ''-'' @ x" "container_belongs sha1 container (ts_name u)"
  shows "owner_of sha1 ((i, t) # m) container = Some (i, t)"
proof -
  from assms(2,4) obtain y where "container = ts_name u @ y"
    by (auto simp: container_belongs_def Let_def starts_with_iff)
  then have "starts_with container (ts_name t @ ''-'')"
    using assms(3) by (simp add: starts_with_iff)
  then show ?thesis using assms(1) by (simp add: owner_of_def container_belongs_def Let_def)
qed

lemma prefix_service_shadows_example:
  "owner_of sample_sha1
     [(JNum (num_of_int 1), \<lparr>ts_name = ''shop'', ts_preset = JStr ''compose''\<rparr>),
      (JNum (num_of_int 2), \<lparr>ts_name = ''shop-api'', ts_preset = JStr ''compose''\<rparr>)] ''shop-api-web-1'' =
   Some (JNum (num_of_int 1), \<lparr>ts_name = ''shop'', ts_preset = JStr ''compose''\<rparr>)"
proof (rule prefix_service_shadows[where x = "''api''" and u = "\<lparr>ts_name = ''shop-api'', ts_preset = JStr ''compose''\<rparr>"])
  show "to_docker_name sample_sha1 (ts_name \<lparr>ts_name = ''shop'', ts_preset = JStr ''compose''\<rparr>) =
    ts_name \<lparr>ts_name = ''shop'', ts_preset = JStr ''compose''\<rparr>" by code_simp
  show "to_docker_name sample_sha1 (ts_name \<lparr>ts_name = ''shop-api'', ts_preset = JStr ''compose''\<rparr>) =
    ts_name \<lparr>ts_name = ''shop-api'', ts_preset = JStr ''compose''\<rparr>" by code_simp
  show "container_belongs sample_sha1 ''shop-api-web-1''
    (ts_name \<lparr>ts_name = ''shop-api'', ts_preset = JStr ''compose''\<rparr>)" by code_simp
qed simp

end
