(* ===== verification/Ssh_Terminal.thy ===== *)
theory Ssh_Terminal
  imports Js_Coerce Agent_Prelude
begin

text \<open>
  \<open>ssh-terminal.service.ts\<close> and the \<open>terminal-\<close> handlers of \<open>tunnel.service.ts\<close>: the sessions a Hub
  opens on the host over SSH. An SSH client is named by the number of clients created before it; the
  one shell stream it may get has its name. What the library reports (ready, the shell's callback,
  data, the ends, an error) arrives as an event, in any order the listeners still registered allow.
  Texts are what \<open>toString\<close> gives of a buffer. When the library refuses a configuration by throwing, the
  state is the one after \<open>Connect\<close>, and the exception ends in the log of the listener.
\<close>

section \<open>Configuration\<close>

record ssh_env =
  sc_user :: "string option"
  sc_key_path :: "string option"
  sc_password :: "string option"
  sc_hash :: "string option"
  sc_host :: "string option"
  sc_port :: "string option"
  sc_passphrase :: "string option"

record connect_config =
  co_host :: string
  co_port :: jsnum
  co_user :: string
  co_key :: "string option"
  co_passphrase :: "string option"
  co_password :: "string option"
  co_ready_timeout :: nat
  co_keepalive_interval :: nat
  co_keepalive_max :: nat
  co_host_hash :: "string option"
  co_verifier :: "string option"
  co_algorithms :: "string list option"

definition given :: "string option \<Rightarrow> bool" where
  "given v = (v \<noteq> None \<and> v \<noteq> Some [])"

text \<open>\<open>createConnectConfig\<close>; \<open>read\<close> is \<open>readFileSync\<close>. The verifier is kept as the hash it compares with.\<close>

definition create_connect_config ::
    "(string \<Rightarrow> string + string) \<Rightarrow> ssh_env \<Rightarrow> string + connect_config" where
  "create_connect_config read env =
    (if \<not> given (sc_user env) then Inl ''HOST_SSH_USERNAME is not configured.''
     else if \<not> given (sc_key_path env) \<and> \<not> given (sc_password env) then
       Inl ''HOST_SSH_PRIVATE_KEY_PATH or HOST_SSH_PASSWORD is required.''
     else
       bind_res (if given (sc_key_path env) then
                   bind_res (read (the (sc_key_path env))) (\<lambda>k. Inr (Some k))
                 else Inr None) (\<lambda>key. Inr
         \<lparr>co_host = (case sc_host env of None \<Rightarrow> ''host.docker.internal'' | Some h \<Rightarrow> h),
          co_port = (case sc_port env of None \<Rightarrow> num_of_int 22 | Some n \<Rightarrow> js_number (JStr n)),
          co_user = the (sc_user env), co_key = key, co_passphrase = sc_passphrase env,
          co_password = sc_password env, co_ready_timeout = 10000, co_keepalive_interval = 15000,
          co_keepalive_max = 2,
          co_host_hash = (if given (sc_hash env) then Some ''sha256'' else None),
          co_verifier = (if given (sc_hash env) then sc_hash env else None),
          co_algorithms = (if given (sc_hash env) then Some [''ssh-ed25519''] else None)\<rparr>))"

text \<open>Whether the client accepts a host that shows this hash\<close>

definition host_accepted :: "connect_config \<Rightarrow> string \<Rightarrow> bool" where
  "host_accepted c h = (case co_verifier c of None \<Rightarrow> True | Some expected \<Rightarrow> h = expected)"

section \<open>State\<close>

record ssh_client =
  cl_id :: string
  cl_cols :: jsval
  cl_rows :: jsval
  cl_ready :: bool
  cl_error :: bool
  cl_close :: bool
  cl_shell :: bool
  cl_data :: bool
  cl_end :: bool

record terminal_session =
  te_client :: nat
  te_stream :: "nat option"

record terminal =
  tm_sessions :: "(string, terminal_session) jsmap"
  tm_clients :: "ssh_client list"

definition terminal_start :: terminal where
  "terminal_start = \<lparr>tm_sessions = [], tm_clients = []\<rparr>"

datatype term_effect =
    TReady string
  | TOutput string string
  | TClosed string "string option"
  | Connect nat connect_config
  | Shell nat jsval jsval
  | StreamWrite nat string
  | SetWindow nat jsval jsval
  | StreamEnd nat
  | ClientEnd nat
  | Uncaught string

section \<open>Operations\<close>

definition finish :: "string \<Rightarrow> string option \<Rightarrow> terminal \<Rightarrow> terminal \<times> term_effect list" where
  "finish sid reason t =
    (case jm_get (tm_sessions t) sid of
       None \<Rightarrow> (t, [])
     | Some s \<Rightarrow>
         (t\<lparr>tm_sessions := jm_delete sid (tm_sessions t)\<rparr>,
          (case te_stream s of None \<Rightarrow> [] | Some n \<Rightarrow> [StreamEnd n]) @
          [ClientEnd (te_client s), TClosed sid reason]))"

definition new_client :: "string \<Rightarrow> jsval \<Rightarrow> jsval \<Rightarrow> ssh_client" where
  "new_client sid cols rows =
    \<lparr>cl_id = sid, cl_cols = cols, cl_rows = rows, cl_ready = True, cl_error = True, cl_close = True,
     cl_shell = False, cl_data = False, cl_end = False\<rparr>"

definition open_terminal ::
    "(string \<Rightarrow> string + string) \<Rightarrow> ssh_env \<Rightarrow> string \<Rightarrow> jsval \<Rightarrow> jsval \<Rightarrow> terminal \<Rightarrow>
     terminal \<times> term_effect list" where
  "open_terminal read env sid cols rows t =
    (if jm_has (tm_sessions t) sid then (t, [TClosed sid (Some ''Terminal session already exists.'')])
     else
       (case create_connect_config read env of
          Inl e \<Rightarrow> (t, [TClosed sid (Some e)])
        | Inr c \<Rightarrow>
            (let n = length (tm_clients t)
             in (t\<lparr>tm_sessions := jm_set sid \<lparr>te_client = n, te_stream = None\<rparr> (tm_sessions t),
                   tm_clients := tm_clients t @ [new_client sid cols rows]\<rparr>,
                 [Connect n c]))))"

definition session_stream :: "string \<Rightarrow> terminal \<Rightarrow> nat option" where
  "session_stream sid t =
    (case jm_get (tm_sessions t) sid of None \<Rightarrow> None | Some s \<Rightarrow> te_stream s)"

definition write_terminal :: "string \<Rightarrow> string \<Rightarrow> terminal \<Rightarrow> terminal \<times> term_effect list" where
  "write_terminal sid d t =
    (t, case session_stream sid t of None \<Rightarrow> [] | Some n \<Rightarrow> [StreamWrite n d])"

definition resize_terminal :: "string \<Rightarrow> jsval \<Rightarrow> jsval \<Rightarrow> terminal \<Rightarrow> terminal \<times> term_effect list" where
  "resize_terminal sid cols rows t =
    (t, case session_stream sid t of None \<Rightarrow> [] | Some n \<Rightarrow> [SetWindow n rows cols])"

fun finish_all :: "string list \<Rightarrow> terminal \<Rightarrow> terminal \<times> term_effect list" where
  "finish_all [] t = (t, [])"
| "finish_all (k # ks) t =
    (case finish k None t of (t', out) \<Rightarrow> case finish_all ks t' of (t'', out') \<Rightarrow> (t'', out @ out'))"

definition destroy_terminals :: "terminal \<Rightarrow> terminal \<times> term_effect list" where
  "destroy_terminals t = finish_all (jm_keys (tm_sessions t)) t"

section \<open>Events of the SSH library\<close>

definition set_client :: "nat \<Rightarrow> ssh_client \<Rightarrow> terminal \<Rightarrow> terminal" where
  "set_client n c t = t\<lparr>tm_clients := (tm_clients t)[n := c]\<rparr>"

text \<open>Run a listener of client \<open>n\<close>, if there is such a client\<close>

definition with_client ::
    "nat \<Rightarrow> terminal \<Rightarrow> (ssh_client \<Rightarrow> terminal \<times> term_effect list) \<Rightarrow> terminal \<times> term_effect list" where
  "with_client n t f = (if n < length (tm_clients t) then f (tm_clients t ! n) else (t, []))"

definition on_ssh_ready :: "nat \<Rightarrow> terminal \<Rightarrow> terminal \<times> term_effect list" where
  "on_ssh_ready n t = with_client n t (\<lambda>c.
    if cl_ready c then
      (set_client n (c\<lparr>cl_ready := False, cl_shell := True\<rparr>) t, [Shell n (cl_cols c) (cl_rows c)])
    else (t, []))"

definition on_shell :: "nat \<Rightarrow> string option \<Rightarrow> terminal \<Rightarrow> terminal \<times> term_effect list" where
  "on_shell n err t = with_client n t (\<lambda>c.
    if cl_shell c then
      (case err of
         Some e \<Rightarrow> finish (cl_id c) (Some e) (set_client n (c\<lparr>cl_shell := False\<rparr>) t)
       | None \<Rightarrow>
           (case jm_get (tm_sessions t) (cl_id c) of
              None \<Rightarrow> (set_client n (c\<lparr>cl_shell := False\<rparr>) t, [StreamEnd n])
            | Some s \<Rightarrow>
                (set_client n (c\<lparr>cl_shell := False, cl_data := True, cl_end := True\<rparr>)
                   (t\<lparr>tm_sessions := jm_set (cl_id c) (s\<lparr>te_stream := Some n\<rparr>) (tm_sessions t)\<rparr>),
                 [TReady (cl_id c)])))
    else (t, []))"

definition on_shell_data :: "nat \<Rightarrow> string \<Rightarrow> terminal \<Rightarrow> terminal \<times> term_effect list" where
  "on_shell_data n d t = with_client n t (\<lambda>c. (t, if cl_data c then [TOutput (cl_id c) d] else []))"

definition on_stream_end :: "nat \<Rightarrow> terminal \<Rightarrow> terminal \<times> term_effect list" where
  "on_stream_end n t = with_client n t (\<lambda>c.
    if cl_end c then finish (cl_id c) None (set_client n (c\<lparr>cl_end := False\<rparr>) t) else (t, []))"

text \<open>An \<open>error\<close> event nobody listens to any more is thrown.\<close>

definition on_ssh_error :: "nat \<Rightarrow> string \<Rightarrow> terminal \<Rightarrow> terminal \<times> term_effect list" where
  "on_ssh_error n e t = with_client n t (\<lambda>c.
    if cl_error c then finish (cl_id c) (Some e) (set_client n (c\<lparr>cl_error := False\<rparr>) t)
    else (t, [Uncaught e]))"

definition on_ssh_close :: "nat \<Rightarrow> terminal \<Rightarrow> terminal \<times> term_effect list" where
  "on_ssh_close n t = with_client n t (\<lambda>c.
    if cl_close c then finish (cl_id c) None (set_client n (c\<lparr>cl_close := False\<rparr>) t) else (t, []))"

section \<open>The handlers\<close>

text \<open>\<open>Buffer.byteLength\<close> of a text without characters beyond U+00FF\<close>

definition byte_length :: "string \<Rightarrow> nat" where
  "byte_length s = sum_list (map (\<lambda>c. if (of_char c :: nat) < 128 then 1 else 2) s)"

definition terminal_input :: "string \<Rightarrow> jsval \<Rightarrow> terminal \<Rightarrow> terminal \<times> term_effect list" where
  "terminal_input sid d t =
    (case d of
       JStr s \<Rightarrow> if byte_length s > 64 * 1024 then (t, []) else write_terminal sid s t
     | _ \<Rightarrow> (t, []))"

datatype term_event =
    HubOpen string jsval jsval
  | HubInput string jsval
  | HubResize string jsval jsval
  | HubClose string
  | ModuleDestroy
  | SshReady nat
  | SshShell nat "string option"
  | SshData nat string
  | SshStreamEnd nat
  | SshError nat string
  | SshClose nat

fun term_step ::
    "(string \<Rightarrow> string + string) \<Rightarrow> ssh_env \<Rightarrow> term_event \<Rightarrow> terminal \<Rightarrow> terminal \<times> term_effect list" where
  "term_step read env (HubOpen sid cols rows) t = open_terminal read env sid cols rows t"
| "term_step read env (HubInput sid d) t = terminal_input sid d t"
| "term_step read env (HubResize sid cols rows) t = resize_terminal sid cols rows t"
| "term_step read env (HubClose sid) t = finish sid None t"
| "term_step read env ModuleDestroy t = destroy_terminals t"
| "term_step read env (SshReady n) t = on_ssh_ready n t"
| "term_step read env (SshShell n err) t = on_shell n err t"
| "term_step read env (SshData n d) t = on_shell_data n d t"
| "term_step read env (SshStreamEnd n) t = on_stream_end n t"
| "term_step read env (SshError n e) t = on_ssh_error n e t"
| "term_step read env (SshClose n) t = on_ssh_close n t"

fun term_run ::
    "(string \<Rightarrow> string + string) \<Rightarrow> ssh_env \<Rightarrow> term_event list \<Rightarrow> terminal \<Rightarrow> terminal \<times> term_effect list" where
  "term_run read env [] t = (t, [])"
| "term_run read env (e # es) t =
    (case term_step read env e t of (t', out) \<Rightarrow>
     case term_run read env es t' of (t'', out') \<Rightarrow> (t'', out @ out'))"

end
