(* ===== verification/Terminal_Laws.thy ===== *)
theory Terminal_Laws
  imports Ssh_Terminal
begin

text \<open>
  What a terminal session promises the Hub, as an abstract machine per session, and the simulation
  that shows the service implements it as long as the Hub does not use a session id twice. Then what
  happens when it does.
\<close>

section \<open>The abstract session\<close>

text \<open>
  A session waits, becomes live, and is over; output of a session that was live may still arrive
  after it was closed. \<open>session_next\<close> is the abstract machine: the messages it allows in a phase.
\<close>

datatype phase = Waiting | Live | Over bool

fun session_next :: "phase \<Rightarrow> term_effect \<Rightarrow> phase option" where
  "session_next Waiting (TReady i) = Some Live"
| "session_next Waiting (TClosed i r) = Some (Over False)"
| "session_next Live (TOutput i d) = Some Live"
| "session_next Live (TClosed i r) = Some (Over True)"
| "session_next (Over True) (TOutput i d) = Some (Over True)"
| "session_next _ _ = None"

fun session_run :: "phase \<Rightarrow> term_effect list \<Rightarrow> phase option" where
  "session_run q [] = Some q"
| "session_run q (e # es) = (case session_next q e of None \<Rightarrow> None | Some q' \<Rightarrow> session_run q' es)"

text \<open>The messages about a session\<close>

fun about :: "string \<Rightarrow> term_effect \<Rightarrow> bool" where
  "about i (TReady j) = (i = j)"
| "about i (TOutput j d) = (i = j)"
| "about i (TClosed j r) = (i = j)"
| "about i _ = False"

definition msgs :: "string \<Rightarrow> term_effect list \<Rightarrow> term_effect list" where
  "msgs i out = filter (about i) out"

lemma session_run_append:
  "session_run q (xs @ ys) = (case session_run q xs of None \<Rightarrow> None | Some q' \<Rightarrow> session_run q' ys)"
  by (induction xs arbitrary: q) (auto split: option.split)

lemma msgs_simps [simp]:
  "msgs i [] = []" "msgs i (e # es) = (if about i e then e # msgs i es else msgs i es)"
  "msgs i (xs @ ys) = msgs i xs @ msgs i ys"
  by (simp_all add: msgs_def)

section \<open>The abstraction\<close>

text \<open>The phase of a session in a state of the service, given the session ids used so far\<close>

definition phase_of :: "string list \<Rightarrow> terminal \<Rightarrow> string \<Rightarrow> phase" where
  "phase_of used t i =
    (case jm_get (tm_sessions t) i of
       Some s \<Rightarrow> (if te_stream s = None then Waiting else Live)
     | None \<Rightarrow>
         if i \<in> set used then Over (list_ex (\<lambda>c. cl_id c = i \<and> cl_data c) (tm_clients t))
         else Waiting)"

definition client_ok :: "ssh_client \<Rightarrow> bool" where
  "client_ok c = (\<not> (cl_ready c \<and> cl_shell c) \<and> (cl_data c \<longrightarrow> \<not> cl_ready c \<and> \<not> cl_shell c))"

lemma client_ok_disarm [simp]:
  "client_ok (c\<lparr>cl_end := b\<rparr>) = client_ok c" "client_ok (c\<lparr>cl_error := b\<rparr>) = client_ok c"
  "client_ok (c\<lparr>cl_close := b\<rparr>) = client_ok c"
  by (simp_all add: client_ok_def)

definition session_ok :: "terminal \<Rightarrow> string \<Rightarrow> terminal_session \<Rightarrow> bool" where
  "session_ok t i s =
    (te_client s < length (tm_clients t) \<and> cl_id (tm_clients t ! te_client s) = i \<and>
     te_stream s = (if cl_data (tm_clients t ! te_client s) then Some (te_client s) else None))"

definition term_ok :: "string list \<Rightarrow> terminal \<Rightarrow> bool" where
  "term_ok used t =
    (distinct (map cl_id (tm_clients t)) \<and> set (map cl_id (tm_clients t)) \<subseteq> set used \<and>
     list_all client_ok (tm_clients t) \<and>
     (\<forall>i s. jm_get (tm_sessions t) i = Some s \<longrightarrow> session_ok t i s))"

lemma term_ok_start: "term_ok [] terminal_start"
  by (simp add: term_ok_def terminal_start_def jsm.kv_laws)

lemma term_ok_client:
  assumes "term_ok used t" "n < length (tm_clients t)"
  shows "client_ok (tm_clients t ! n)" "cl_id (tm_clients t ! n) \<in> set used"
  using assms by (auto simp: term_ok_def list_all_length)

lemma client_unique:
  assumes "term_ok used t" "m < length (tm_clients t)" "n < length (tm_clients t)"
    and "cl_id (tm_clients t ! m) = cl_id (tm_clients t ! n)"
  shows "m = n"
  using assms nth_eq_iff_index_eq[of "map cl_id (tm_clients t)" m n] by (simp add: term_ok_def)

lemma list_ex_client:
  assumes "term_ok used t" "n < length (tm_clients t)" "cl_id (tm_clients t ! n) = i"
  shows "list_ex (\<lambda>c. cl_id c = i \<and> Q c) (tm_clients t) = Q (tm_clients t ! n)"
proof
  assume "list_ex (\<lambda>c. cl_id c = i \<and> Q c) (tm_clients t)"
  then obtain m where "m < length (tm_clients t)" "cl_id (tm_clients t ! m) = i" "Q (tm_clients t ! m)"
    by (auto simp: list_ex_length)
  with assms client_unique[OF assms(1), of m n] show "Q (tm_clients t ! n)" by auto
next
  assume "Q (tm_clients t ! n)"
  with assms show "list_ex (\<lambda>c. cl_id c = i \<and> Q c) (tm_clients t)" by (auto simp: list_ex_length)
qed

lemma session_client:
  "term_ok used t \<Longrightarrow> jm_get (tm_sessions t) i = Some s \<Longrightarrow> session_ok t i s \<and> i \<in> set used"
  using term_ok_client(2)[of used t "te_client s"] by (auto simp: term_ok_def session_ok_def)

text \<open>
  One step of the service against the abstract machine: the messages about each session lead the
  abstract machine from the phase before to the phase after.
\<close>

definition simulates :: "string list \<Rightarrow> terminal \<Rightarrow> string list \<Rightarrow> terminal \<times> term_effect list \<Rightarrow> bool" where
  "simulates used t used' r =
    (term_ok used' (fst r) \<and>
     (\<forall>i. session_run (phase_of used t i) (msgs i (snd r)) = Some (phase_of used' (fst r) i)))"

lemma simulates_silent: "term_ok used t \<Longrightarrow> (\<And>i. msgs i out = []) \<Longrightarrow> simulates used t used (t, out)"
  by (simp add: simulates_def)

lemma simulates_trans:
  assumes "simulates u t u' (t', out)" "simulates u' t' u'' (t'', out')"
  shows "simulates u t u'' (t'', out @ out')"
  using assms by (simp add: simulates_def session_run_append)

lemma simulates_finish:
  assumes "term_ok used t"
  shows "simulates used t used (finish i reason t)"
proof (cases "jm_get (tm_sessions t) i")
  case None
  then show ?thesis using assms by (simp add: finish_def simulates_silent)
next
  case (Some s)
  let ?t' = "t\<lparr>tm_sessions := jm_delete i (tm_sessions t)\<rparr>"
  have s: "session_ok t i s" "i \<in> set used" using session_client[OF assms Some] by auto
  have "term_ok used ?t'"
    using assms by (auto simp: term_ok_def session_ok_def jsm.kv_laws split: if_splits)
  moreover have "phase_of used ?t' i = Over (te_stream s \<noteq> None)"
    using s list_ex_client[OF assms, of "te_client s" i cl_data]
    by (simp add: phase_of_def session_ok_def jsm.kv_laws)
  moreover have "phase_of used ?t' j = phase_of used t j" if "j \<noteq> i" for j
    using that by (simp add: phase_of_def jsm.kv_laws cong: option.case_cong)
  moreover have "phase_of used t i = (if te_stream s = None then Waiting else Live)"
    using Some by (simp add: phase_of_def)
  ultimately show ?thesis
    unfolding simulates_def finish_def using Some by (cases "te_stream s") auto
qed

text \<open>Changing the listeners of a client, but not whether its data is listened to\<close>

lemma nth_set_client:
  "m < length (tm_clients t) \<Longrightarrow> tm_clients (set_client n c t) ! m = (if m = n then c else tm_clients t ! m)"
  by (simp add: set_client_def nth_list_update)

lemma set_client_simps [simp]:
  "length (tm_clients (set_client n c t)) = length (tm_clients t)"
  "tm_sessions (set_client n c t) = tm_sessions t"
  by (simp_all add: set_client_def)

lemma list_ex_nth_cong:
  assumes "length xs = length ys" "\<And>m. m < length ys \<Longrightarrow> Q (xs ! m) = Q (ys ! m)"
  shows "list_ex Q xs = list_ex Q ys"
  unfolding list_ex_length assms(1) using assms(2) by blast

lemma simulates_set_client:
  assumes "term_ok used t" "n < length (tm_clients t)" "client_ok c"
    and "cl_id c = cl_id (tm_clients t ! n)" "cl_data c = cl_data (tm_clients t ! n)"
  shows "term_ok used (set_client n c t)" "phase_of used (set_client n c t) i = phase_of used t i"
proof -
  have ids: "map cl_id (tm_clients (set_client n c t)) = map cl_id (tm_clients t)"
    using assms(2,4) by (auto simp: set_client_def intro!: nth_equalityI simp: nth_list_update)
  have ok: "list_all client_ok (tm_clients (set_client n c t))"
    using assms(1,3) by (auto simp: list_all_length nth_set_client term_ok_def)
  have "session_ok (set_client n c t) j s = session_ok t j s" for j s
    using assms(4,5) by (cases "te_client s = n") (auto simp: session_ok_def nth_set_client)
  then have sess: "\<forall>j s. jm_get (tm_sessions (set_client n c t)) j = Some s \<longrightarrow> session_ok (set_client n c t) j s"
    using assms(1) by (simp add: term_ok_def)
  show "term_ok used (set_client n c t)"
    unfolding term_ok_def ids using ok sess assms(1) unfolding term_ok_def by blast
  have "list_ex (\<lambda>c. cl_id c = i \<and> cl_data c) (tm_clients (set_client n c t)) =
      list_ex (\<lambda>c. cl_id c = i \<and> cl_data c) (tm_clients t)"
    using assms(4,5) by (intro list_ex_nth_cong) (simp_all add: nth_set_client)
  then show "phase_of used (set_client n c t) i = phase_of used t i"
    by (simp add: phase_of_def cong: option.case_cong)
qed

section \<open>The simulation\<close>

lemma simulates_with_client:
  assumes "term_ok used t"
    and "n < length (tm_clients t) \<Longrightarrow> simulates used t used (f (tm_clients t ! n))"
  shows "simulates used t used (with_client n t f)"
  using assms by (auto simp: with_client_def simulates_silent)

text \<open>A listener that is taken off and finishes the session\<close>

lemma simulates_disarm:
  assumes "term_ok used t" "n < length (tm_clients t)" "client_ok c"
    and "cl_id c = cl_id (tm_clients t ! n)" "cl_data c = cl_data (tm_clients t ! n)"
  shows "simulates used t used (finish i r (set_client n c t))"
  using simulates_finish[OF simulates_set_client(1)[OF assms], of i r]
  by (simp add: simulates_def simulates_set_client(2)[OF assms])

lemma simulates_ready: "term_ok used t \<Longrightarrow> simulates used t used (on_ssh_ready n t)"
  unfolding on_ssh_ready_def
proof (rule simulates_with_client)
  let ?c = "tm_clients t ! n"
  let ?c' = "?c\<lparr>cl_ready := False, cl_shell := True\<rparr>"
  assume ok: "term_ok used t" and n: "n < length (tm_clients t)"
  show "simulates used t used (if cl_ready ?c then
      (set_client n ?c' t, [Shell n (cl_cols ?c) (cl_rows ?c)]) else (t, []))"
  proof (cases "cl_ready ?c")
    case True
    then have "client_ok ?c'" using term_ok_client(1)[OF ok n] by (auto simp: client_ok_def)
    from simulates_set_client[OF ok n this] True show ?thesis by (simp add: simulates_def)
  qed (simp add: ok simulates_silent)
qed

lemma simulates_ends:
  assumes "term_ok used t"
  shows "simulates used t used (on_stream_end n t)" "simulates used t used (on_ssh_error n e t)"
    "simulates used t used (on_ssh_close n t)"
  unfolding on_stream_end_def on_ssh_error_def on_ssh_close_def
  by (auto intro!: simulates_with_client simulates_disarm assms simulates_silent term_ok_client(1)[OF assms])

lemma simulates_attach:
  assumes ok: "term_ok used t" and n: "n < length (tm_clients t)" "cl_shell (tm_clients t ! n)"
    and s: "jm_get (tm_sessions t) (cl_id (tm_clients t ! n)) = Some s"
  shows "simulates used t used
    (set_client n ((tm_clients t ! n)\<lparr>cl_shell := False, cl_data := True, cl_end := True\<rparr>)
       (t\<lparr>tm_sessions := jm_set (cl_id (tm_clients t ! n)) (s\<lparr>te_stream := Some n\<rparr>) (tm_sessions t)\<rparr>),
     [TReady (cl_id (tm_clients t ! n))])"
    (is "simulates used t used (?t', [TReady ?i])")
proof -
  let ?c = "tm_clients t ! n"
  have cl: "te_client s = n"
    using session_client[OF ok s] client_unique[OF ok, of "te_client s" n] n by (simp add: session_ok_def)
  have none: "te_stream s = None" "\<not> cl_data ?c"
    using session_client[OF ok s] term_ok_client(1)[OF ok n(1)] n(2) cl
    by (auto simp: session_ok_def client_ok_def)
  have nth: "tm_clients ?t' ! m = (if m = n then ?c\<lparr>cl_shell := False, cl_data := True, cl_end := True\<rparr>
      else tm_clients t ! m)" if "m < length (tm_clients t)" for m
    using that by (simp add: set_client_def nth_list_update)
  have len: "length (tm_clients ?t') = length (tm_clients t)" by (simp add: set_client_def)
  have ids: "map cl_id (tm_clients ?t') = map cl_id (tm_clients t)"
    by (rule nth_equalityI) (simp_all add: len nth)
  have ok': "list_all client_ok (tm_clients ?t')"
    using ok n term_ok_client(1)[OF ok n(1)] by (auto simp: list_all_length nth len term_ok_def client_ok_def)
  have sess: "session_ok ?t' j r" if "jm_get (tm_sessions ?t') j = Some r" for j r
  proof (cases "j = ?i")
    case True
    then have r: "r = s\<lparr>te_stream := Some n\<rparr>" using that by (simp add: jsm.kv_laws)
    have "session_ok ?t' ?i (s\<lparr>te_stream := Some n\<rparr>)"
      using cl n by (simp add: session_ok_def nth len)
    then show ?thesis unfolding r True .
  next
    case False
    then have r: "jm_get (tm_sessions t) j = Some r" using that by (simp add: jsm.kv_laws)
    have "te_client r \<noteq> n" using session_client[OF ok r] False by (auto simp: session_ok_def)
    then show ?thesis using session_client[OF ok r] by (simp add: session_ok_def nth len)
  qed
  have "term_ok used ?t'"
    unfolding term_ok_def ids using ok ok' sess by (auto simp: term_ok_def)
  moreover have "phase_of used ?t' j = phase_of used t j" if "j \<noteq> ?i" for j
  proof -
    have "list_ex (\<lambda>c. cl_id c = j \<and> cl_data c) (tm_clients ?t') =
        list_ex (\<lambda>c. cl_id c = j \<and> cl_data c) (tm_clients t)"
      using that by (intro list_ex_nth_cong) (auto simp: nth len)
    then show ?thesis using that by (simp add: phase_of_def jsm.kv_laws cong: option.case_cong)
  qed
  moreover have "phase_of used t ?i = Waiting" "phase_of used ?t' ?i = Live"
    using s none by (simp_all add: phase_of_def jsm.kv_laws)
  ultimately show ?thesis by (auto simp: simulates_def)
qed

lemma simulates_shell:
  assumes "term_ok used t"
  shows "simulates used t used (on_shell n err t)"
  unfolding on_shell_def
proof (rule simulates_with_client[OF assms])
  let ?c = "tm_clients t ! n"
  assume n: "n < length (tm_clients t)"
  have ok: "client_ok (?c\<lparr>cl_shell := False\<rparr>)"
    using term_ok_client(1)[OF assms n] by (auto simp: client_ok_def)
  have drop: "simulates used t used (set_client n (?c\<lparr>cl_shell := False\<rparr>) t, [StreamEnd n])"
    using simulates_set_client[OF assms n ok] by (simp add: simulates_def)
  show "simulates used t used (if cl_shell ?c then
      (case err of
         Some e \<Rightarrow> finish (cl_id ?c) (Some e) (set_client n (?c\<lparr>cl_shell := False\<rparr>) t)
       | None \<Rightarrow> (case jm_get (tm_sessions t) (cl_id ?c) of
              None \<Rightarrow> (set_client n (?c\<lparr>cl_shell := False\<rparr>) t, [StreamEnd n])
            | Some s \<Rightarrow>
                (set_client n (?c\<lparr>cl_shell := False, cl_data := True, cl_end := True\<rparr>)
                   (t\<lparr>tm_sessions := jm_set (cl_id ?c) (s\<lparr>te_stream := Some n\<rparr>) (tm_sessions t)\<rparr>),
                 [TReady (cl_id ?c)])))
    else (t, []))"
  proof (cases "cl_shell ?c")
    case True
    show ?thesis
    proof (cases err)
      case None
      then show ?thesis using drop simulates_attach[OF assms n True] True
        by (cases "jm_get (tm_sessions t) (cl_id ?c)") simp_all
    next
      case (Some e)
      then show ?thesis using True simulates_disarm[OF assms n ok] by simp
    qed
  qed (simp add: assms simulates_silent)
qed

lemma simulates_data:
  assumes "term_ok used t"
  shows "simulates used t used (on_shell_data n d t)"
  unfolding on_shell_data_def
proof (rule simulates_with_client[OF assms])
  let ?i = "cl_id (tm_clients t ! n)"
  assume n: "n < length (tm_clients t)"
  have "phase_of used t ?i \<in> {Live, Over True}" if d: "cl_data (tm_clients t ! n)"
  proof (cases "jm_get (tm_sessions t) ?i")
    case None
    then show ?thesis
      using d term_ok_client(2)[OF assms n] list_ex_client[OF assms n refl, of cl_data]
      by (simp add: phase_of_def)
  next
    case (Some s)
    have "te_client s = n"
      using session_client[OF assms Some] client_unique[OF assms, of "te_client s" n] n
      by (simp add: session_ok_def)
    then have "te_stream s = Some n" using session_client[OF assms Some] d by (simp add: session_ok_def)
    with Some show ?thesis by (simp add: phase_of_def)
  qed
  then show "simulates used t used (t, if cl_data (tm_clients t ! n) then [TOutput ?i d] else [])"
    using assms by (auto simp: simulates_def)
qed

lemma simulates_open:
  assumes "term_ok used t" "i \<notin> set used"
  shows "simulates used t (i # used) (open_terminal read env i cols rows t)"
proof -
  have none: "jm_get (tm_sessions t) i = None" using assms session_client by (cases "jm_get (tm_sessions t) i") auto
  have fresh: "\<not> list_ex (\<lambda>c. cl_id c = i \<and> cl_data c) (tm_clients t)" "i \<notin> cl_id ` set (tm_clients t)"
    using assms by (auto simp: list_ex_iff term_ok_def)
  have start: "phase_of used t i = Waiting" using none assms(2) by (simp add: phase_of_def)
  show ?thesis
  proof (cases "create_connect_config read env")
    case (Inl e)
    have "term_ok (i # used) t" using assms(1) by (auto simp: term_ok_def)
    moreover have "phase_of (i # used) t i = Over False" using none fresh by (simp add: phase_of_def)
    moreover have "phase_of (i # used) t j = phase_of used t j" if "j \<noteq> i" for j
      using that by (simp add: phase_of_def)
    ultimately show ?thesis
      using none start Inl by (auto simp: simulates_def open_terminal_def jm_has_get)
  next
    case (Inr c)
    let ?n = "length (tm_clients t)"
    let ?t' = "t\<lparr>tm_sessions := jm_set i \<lparr>te_client = ?n, te_stream = None\<rparr> (tm_sessions t),
      tm_clients := tm_clients t @ [new_client i cols rows]\<rparr>"
    have "session_ok ?t' j s" if "jm_get (tm_sessions ?t') j = Some s" for j s
      using that assms(1) by (auto simp: jsm.kv_laws session_ok_def new_client_def term_ok_def nth_append
          split: if_splits)
    then have "term_ok (i # used) ?t'"
      using assms(1) fresh(2) by (auto simp: term_ok_def new_client_def client_ok_def)
    moreover have "phase_of (i # used) ?t' j = phase_of used t j" for j
    proof (cases "j = i")
      case True
      then show ?thesis using start by (simp add: phase_of_def jsm.kv_laws)
    next
      case False
      then show ?thesis by (simp add: phase_of_def jsm.kv_laws new_client_def cong: option.case_cong)
    qed
    moreover have "open_terminal read env i cols rows t = (?t', [Connect ?n c])"
      using none Inr by (simp add: open_terminal_def jm_has_get Let_def)
    ultimately show ?thesis by (simp add: simulates_def)
  qed
qed

lemma simulates_finish_all: "term_ok used t \<Longrightarrow> simulates used t used (finish_all ks t)"
proof (induction ks arbitrary: t)
  case (Cons k ks)
  obtain t' out where f: "finish k None t = (t', out)" by (cases "finish k None t") auto
  have sim: "simulates used t used (t', out)" using simulates_finish[OF Cons.prems, of k None] f by simp
  obtain t'' out' where g: "finish_all ks t' = (t'', out')" by (cases "finish_all ks t'") auto
  have "simulates used t' used (t'', out')" using Cons.IH[of t'] sim g by (simp add: simulates_def)
  from simulates_trans[OF sim this] show ?case by (simp add: f g)
qed (simp add: simulates_silent)

text \<open>The session ids a step opens\<close>

fun opened :: "term_event \<Rightarrow> string list" where
  "opened (HubOpen i cols rows) = [i]"
| "opened _ = []"

lemma simulates_step:
  assumes "term_ok used t" "set (opened e) \<inter> set used = {}"
  shows "simulates used t (opened e @ used) (term_step read env e t)"
proof (cases e)
  case (HubInput i d)
  then show ?thesis
    using assms by (auto simp: terminal_input_def write_terminal_def intro!: simulates_silent split: jsval.split option.split)
next
  case (HubResize i cols rows)
  then show ?thesis using assms by (auto simp: resize_terminal_def intro!: simulates_silent split: option.split)
qed (use assms in \<open>simp_all add: simulates_open simulates_finish simulates_ready simulates_shell
    simulates_data simulates_ends destroy_terminals_def simulates_finish_all\<close>)

lemma simulates_run:
  assumes "term_ok used t" "distinct (concat (map opened es))" "set (concat (map opened es)) \<inter> set used = {}"
  shows "\<exists>used'. set used' = set (concat (map opened es)) \<union> set used \<and> simulates used t used' (term_run read env es t)"
  using assms
proof (induction es arbitrary: used t)
  case (Cons e es)
  obtain t' out where f: "term_step read env e t = (t', out)" by (cases "term_step read env e t") auto
  obtain t'' out' where g: "term_run read env es t' = (t'', out')" by (cases "term_run read env es t'") auto
  have e: "set (opened e) \<inter> set used = {}" using Cons.prems by auto
  have sim: "simulates used t (opened e @ used) (t', out)" using simulates_step[OF Cons.prems(1) e, of read env] f by simp
  have ok': "term_ok (opened e @ used) t'" using sim by (simp add: simulates_def)
  obtain used' where u: "set used' = set (concat (map opened es)) \<union> set (opened e @ used)"
      "simulates (opened e @ used) t' used' (t'', out')"
    using Cons.IH[OF ok', of] Cons.prems g by auto
  have "simulates used t used' (t'', out @ out')" using simulates_trans[OF sim u(2)] .
  then show ?case using u(1) by (intro exI[of _ used']) (auto simp: f g)
next
  case Nil
  then show ?case by (intro exI[of _ used]) (simp add: simulates_silent)
qed

section \<open>The laws\<close>

definition sample_ssh :: ssh_env where
  "sample_ssh = \<lparr>sc_user = Some ''optics'', sc_key_path = None, sc_password = Some ''secret'',
    sc_hash = Some ''ab12'', sc_host = None, sc_port = None, sc_passphrase = None\<rparr>"

definition no_file :: "string \<Rightarrow> string + string" where
  "no_file path = Inl ''ENOENT''"

text \<open>C34: As long as the Hub uses every session id once, the messages it gets about a session follow
  the abstract session, whatever the order of its requests and of what the SSH clients report: at
  most one \<open>terminal-ready\<close>, output only after it, at most one \<open>terminal-closed\<close>, and nothing but
  late output after that. The phase the messages lead to is the one the service's own tables hold.\<close>

theorem terminal_refines_session:
  assumes "distinct (concat (map opened es))"
  shows "session_run Waiting (msgs i (snd (term_run read env es terminal_start))) =
    Some (phase_of (concat (map opened es)) (fst (term_run read env es terminal_start)) i)"
proof -
  obtain used where u: "set used = set (concat (map opened es))"
      "simulates [] terminal_start used (term_run read env es terminal_start)"
    using simulates_run[OF term_ok_start assms, of read env] by auto
  have start: "phase_of [] terminal_start i = Waiting" by (simp add: phase_of_def terminal_start_def jsm.kv_laws)
  have same: "phase_of used t i = phase_of (concat (map opened es)) t i" for t
    by (simp add: phase_of_def u(1) cong: option.case_cong)
  from u(2) have "session_run (phase_of [] terminal_start i) (msgs i (snd (term_run read env es terminal_start))) =
      Some (phase_of used (fst (term_run read env es terminal_start)) i)"
    unfolding simulates_def by blast
  then show ?thesis unfolding start same .
qed

definition sample_session :: "term_event list" where
  "sample_session =
    [HubOpen ''t1'' (JNum (num_of_int 80)) (JNum (num_of_int 24)), SshReady 0, SshShell 0 None,
     HubInput ''t1'' (JStr ''ls''), SshData 0 ''bin'', HubClose ''t1'', SshData 0 ''boot'', SshClose 0]"

theorem terminal_refines_session_witness:
  "session_run Waiting (msgs ''t1'' (snd (term_run no_file sample_ssh sample_session terminal_start))) =
     Some (Over True) \<and>
   msgs ''t1'' (snd (term_run no_file sample_ssh sample_session terminal_start)) =
     [TReady ''t1'', TOutput ''t1'' ''bin'', TClosed ''t1'' None, TOutput ''t1'' ''boot'']"
proof
  have "distinct (concat (map opened sample_session))" by code_simp
  from terminal_refines_session[OF this, of "''t1''" no_file sample_ssh]
  show "session_run Waiting (msgs ''t1'' (snd (term_run no_file sample_ssh sample_session terminal_start))) =
     Some (Over True)"
    by (rule trans) code_simp
  show "msgs ''t1'' (snd (term_run no_file sample_ssh sample_session terminal_start)) =
     [TReady ''t1'', TOutput ''t1'' ''bin'', TClosed ''t1'' None, TOutput ''t1'' ''boot'']" by code_simp
qed

text \<open>A session id that is used again while an earlier client of it still lives loses the new
  session: when the earlier client's \<open>close\<close> event arrives, the new session is taken out of the table,
  its stream and its client are ended and the Hub is told it closed. And opening an id that is in
  use tells the Hub the id closed, although the session stays and takes input.\<close>

lemma reused_session_is_ended:
  assumes "n < length (tm_clients t)" "cl_close (tm_clients t ! n)" "te_client s \<noteq> n"
    and "jm_get (tm_sessions t) (cl_id (tm_clients t ! n)) = Some s"
  shows "(let i = cl_id (tm_clients t ! n); r = on_ssh_close n t in
      jm_get (tm_sessions (fst r)) i = None \<and>
      snd r = (case te_stream s of None \<Rightarrow> [] | Some m \<Rightarrow> [StreamEnd m]) @ [ClientEnd (te_client s), TClosed i None] \<and>
      open_terminal read env i cols rows t = (t, [TClosed i (Some ''Terminal session already exists.'')]))"
  using assms by (simp add: on_ssh_close_def with_client_def finish_def open_terminal_def jm_has_get
      jsm.kv_laws Let_def)

lemma reused_session_is_ended_example:
  "(let t = fst (term_run no_file sample_ssh [HubOpen ''t1'' JNull JNull, HubClose ''t1'', HubOpen ''t1'' JNull JNull] terminal_start) in
    map fst (tm_sessions t) = [''t1''] \<and>
    snd (on_ssh_close 0 t) = [ClientEnd 1, TClosed ''t1'' None] \<and>
    open_terminal no_file sample_ssh ''t1'' JNull JNull t = (t, [TClosed ''t1'' (Some ''Terminal session already exists.'')]))"
proof -
  let ?t = "fst (term_run no_file sample_ssh [HubOpen ''t1'' JNull JNull, HubClose ''t1'', HubOpen ''t1'' JNull JNull] terminal_start)"
  let ?s = "\<lparr>te_client = 1, te_stream = None\<rparr>"
  have id: "cl_id (tm_clients ?t ! 0) = ''t1''" by code_simp
  have c: "0 < length (tm_clients ?t)" "cl_close (tm_clients ?t ! 0)" "te_client ?s \<noteq> 0"
      "jm_get (tm_sessions ?t) (cl_id (tm_clients ?t ! 0)) = Some ?s" "map fst (tm_sessions ?t) = [''t1'']"
    by code_simp+
  have "snd (on_ssh_close 0 ?t) = [ClientEnd 1, TClosed ''t1'' None] \<and>
      open_terminal no_file sample_ssh ''t1'' JNull JNull ?t = (?t, [TClosed ''t1'' (Some ''Terminal session already exists.'')])"
    using reused_session_is_ended[OF c(1-4), of no_file sample_ssh JNull JNull] unfolding id Let_def by simp
  with c(5) show ?thesis unfolding Let_def by blast
qed

end
