(* ===== verification/Hub_Link.thy ===== *)
theory Hub_Link
  imports Json_Parse Agent_Prelude
begin

text \<open>
  The agent's identity towards the Hub: the start-up, \<open>connect\<close>, \<open>register\<close>, \<open>connect-request\<close> and
  \<open>reverse-proxy\<close> handlers of \<open>tunnel.service.ts\<close>, \<open>notify.service.ts\<close>, \<open>notify.controller.ts\<close> and
  \<open>getAgentInfo\<close> of \<open>app.service.ts\<close>. What they keep in memory, and the table \<open>AgentInfo\<close>, which
  outlives a restart. \<open>db\<close> says which writes the database refuses; the database client refuses a
  value that is not a text. Handlers are listed as running to their end one after the other.
\<close>

section \<open>State\<close>

record hub_link =
  lk_uuid :: jsval
  lk_secret :: jsval
  lk_reconnect :: bool
  lk_info :: "(string, string) jsmap"

datatype link_effect =
    LinkEmit string jsval
  | InitPool jsval
  | PushRequest jsval
  | Fetch string jsval jsval jsval

text \<open>A handler: the exception it ends with, if any, the state it leaves and what it did\<close>

type_synonym link_op = "hub_link \<Rightarrow> string option \<times> hub_link \<times> link_effect list"

definition skip_op :: link_op where
  "skip_op s = (None, s, [])"

definition fail_op :: "string \<Rightarrow> link_op" where
  "fail_op e s = (Some e, s, [])"

definition set_op :: "(hub_link \<Rightarrow> hub_link) \<Rightarrow> link_op" where
  "set_op f s = (None, f s, [])"

definition out_op :: "link_effect \<Rightarrow> link_op" where
  "out_op e s = (None, s, [e])"

definition seq_op :: "link_op \<Rightarrow> link_op \<Rightarrow> link_op" where
  "seq_op f g s =
    (case f s of
       (Some e, s', out) \<Rightarrow> (Some e, s', out)
     | (None, s', out) \<Rightarrow> (case g s' of (r, s'', out') \<Rightarrow> (r, s'', out @ out')))"

fun seq_ops :: "link_op list \<Rightarrow> link_op" where
  "seq_ops [] = skip_op"
| "seq_ops (f # fs) = seq_op f (seq_ops fs)"

section \<open>The table AgentInfo\<close>

type_synonym db_fault = "string \<Rightarrow> string \<Rightarrow> string option"

definition upsert :: "db_fault \<Rightarrow> string \<Rightarrow> jsval \<Rightarrow> link_op" where
  "upsert db key v =
    (case v of
       JStr t \<Rightarrow>
         (case db key t of
            Some e \<Rightarrow> fail_op e
          | None \<Rightarrow> set_op (\<lambda>s. s\<lparr>lk_info := jm_set key t (lk_info s)\<rparr>))
     | _ \<Rightarrow> fail_op ''PrismaClientValidationError: value'')"

definition row_value :: "hub_link \<Rightarrow> string \<Rightarrow> jsval" where
  "row_value s key = (case jm_get (lk_info s) key of None \<Rightarrow> JNull | Some t \<Rightarrow> JStr t)"

section \<open>Registration\<close>

text \<open>A new process: the reconnecting socket is made with what the table holds.\<close>

definition link_start :: link_op where
  "link_start s =
    (None, s\<lparr>lk_uuid := row_value s ''agent-uuid'', lk_secret := row_value s ''agent-signing-secret'',
             lk_reconnect := True\<rparr>, [])"

definition protocol_version :: int where
  "protocol_version = 1"

definition on_hub_connect :: "jsval \<Rightarrow> link_op" where
  "on_hub_connect agent_version s =
    out_op (LinkEmit ''register'' (JObj 0 [(''agentUuid'', or_else (lk_uuid s) JNull),
      (''agentVersion'', agent_version), (''protocolVersion'', JNum (num_of_int protocol_version))])) s"

text \<open>\<open>===\<close> on values of which the right one was just parsed\<close>

fun strictly_equal :: "jsval \<Rightarrow> jsval \<Rightarrow> bool" where
  "strictly_equal JUndef v = (v = JUndef)"
| "strictly_equal JNull v = (v = JNull)"
| "strictly_equal (JBool b) v = (v = JBool b)"
| "strictly_equal (JStr s) v = (v = JStr s)"
| "strictly_equal (JNum n) v = (n \<noteq> NNaN \<and> v = JNum n)"
| "strictly_equal _ v = False"

definition register_ok :: "db_fault \<Rightarrow> jsval \<Rightarrow> link_op" where
  "register_ok db d =
    (let uuid = get_field d ''uuid''; secret = get_field d ''signingSecret'' in
     seq_ops
       [\<lambda>s. (if strictly_equal (lk_uuid s) uuid then skip_op s
             else seq_op (set_op (\<lambda>s. s\<lparr>lk_uuid := uuid\<rparr>)) (upsert db ''agent-uuid'' uuid) s),
        (if truthy secret
         then seq_op (set_op (\<lambda>s. s\<lparr>lk_secret := secret\<rparr>)) (upsert db ''agent-signing-secret'' secret)
         else skip_op),
        upsert db ''agent-code'' (get_field d ''code''),
        upsert db ''agent-ip'' (get_field d ''ip''),
        (\<lambda>s. out_op (InitPool (lk_uuid s)) s)])"

text \<open>Reading a field of the data for the log line throws when there is no data.\<close>

definition needs_data :: "jsval \<Rightarrow> link_op" where
  "needs_data p =
    (if nullish (get_field p ''data'') then fail_op ''TypeError: Cannot read properties of undefined''
     else skip_op)"

definition stop_reconnecting :: "jsval \<Rightarrow> link_op" where
  "stop_reconnecting p = seq_op (set_op (\<lambda>s. s\<lparr>lk_reconnect := False\<rparr>)) (needs_data p)"

definition on_code :: "jsval \<Rightarrow> string \<Rightarrow> link_op \<Rightarrow> link_op" where
  "on_code p c f = (if get_field p ''code'' = JStr c then f else skip_op)"

definition on_register :: "db_fault \<Rightarrow> jsval \<Rightarrow> link_op" where
  "on_register db p =
    seq_ops
      [on_code p ''ok'' (seq_op (needs_data p) (register_ok db (get_field p ''data''))),
       on_code p ''deprecated_protocol_version'' (stop_reconnecting p),
       on_code p ''unknown_protocol_version'' (stop_reconnecting p),
       on_code p ''invalid_signature'' (stop_reconnecting p),
       on_code p ''registration_failed'' (needs_data p)]"

section \<open>Connection requests\<close>

text \<open>\<open>JSON.stringify\<close> of a value \<open>JSON.parse\<close> can give\<close>

fun plain_json :: "jsval \<Rightarrow> nval" where
  "plain_json JUndef = NUndef"
| "plain_json JNull = NNull"
| "plain_json (JBool b) = NBool b"
| "plain_json (JNum n) = NNum n"
| "plain_json (JStr s) = NStr s"
| "plain_json JFun = NFun"
| "plain_json (JBigInt i) = NBigInt i"
| "plain_json (JToJSON v) = plain_json v"
| "plain_json (JArr a vs) = NArr (map plain_json vs)"
| "plain_json (JObj a kvs) = NObj (map (\<lambda>(k, v). (k, plain_json v)) kvs)"

definition save_pending_request :: "db_fault \<Rightarrow> jsval \<Rightarrow> link_op" where
  "save_pending_request db payload =
    (case stringify (plain_json payload) of
       Inl (TypeError e) \<Rightarrow> fail_op (''TypeError: '' @ e)
     | Inr t \<Rightarrow> upsert db ''pending-connect-request'' (case t of None \<Rightarrow> JUndef | Some s \<Rightarrow> JStr s))"

definition get_pending_request :: "hub_link \<Rightarrow> string + jsval" where
  "get_pending_request s =
    (case jm_get (lk_info s) ''pending-connect-request'' of
       None \<Rightarrow> Inr JNull
     | Some t \<Rightarrow> (case json_parse t of None \<Rightarrow> Inl ''SyntaxError'' | Some v \<Rightarrow> Inr v))"

definition clear_pending_request :: link_op where
  "clear_pending_request = set_op (\<lambda>s. s\<lparr>lk_info := jm_delete ''pending-connect-request'' (lk_info s)\<rparr>)"

text \<open>\<open>fetched\<close> is the error \<open>fetch\<close> rejects with, if it does; a refusal by the Hub is no error.\<close>

definition respond_to_request :: "string \<Rightarrow> string option \<Rightarrow> bool \<Rightarrow> link_op" where
  "respond_to_request hubUrl fetched accept s =
    (case jm_get (lk_info s) ''agent-code'' of
       None \<Rightarrow> fail_op ''Agent code not found.'' s
     | Some ac \<Rightarrow>
         (case jm_get (lk_info s) ''agent-uuid'' of
            None \<Rightarrow> fail_op ''Agent uuid not found.'' s
          | Some au \<Rightarrow>
              seq_ops
                [out_op (Fetch (hubUrl @ ''/v1/agent/connect/'' @ (if accept then ''accept'' else ''reject''))
                   (JStr ''POST'') (JObj 0 [(''Content-Type'', JStr ''application/json'')])
                   (JObj 0 [(''agentCode'', JStr ac), (''agentUuid'', JStr au)])),
                 (case fetched of None \<Rightarrow> skip_op | Some e \<Rightarrow> fail_op e),
                 clear_pending_request] s))"

definition request_fields :: "string list" where
  "request_fields =
    [''workspaceOwnerName'', ''workspaceName'', ''workspaceCreatedAt'', ''workspaceIndex'', ''requestDatetime'']"

definition connect_request :: "jsval \<Rightarrow> jsval" where
  "connect_request p = JObj 0 (map (\<lambda>k. (k, get_field p k)) request_fields)"

definition on_connect_request :: "db_fault \<Rightarrow> jsval \<Rightarrow> link_op" where
  "on_connect_request db p =
    seq_op (save_pending_request db (connect_request p)) (out_op (PushRequest (connect_request p)))"

text \<open>The same request over HTTP: the body is stored and pushed as it came.\<close>

definition receive_connect_request :: "db_fault \<Rightarrow> jsval \<Rightarrow> link_op" where
  "receive_connect_request db body =
    seq_op (save_pending_request db body) (out_op (PushRequest body))"

definition get_agent_info :: "hub_link \<Rightarrow> jsval \<times> jsval" where
  "get_agent_info s =
    (case (jm_get (lk_info s) ''agent-code'', jm_get (lk_info s) ''agent-ip'') of
       (Some c, Some i) \<Rightarrow> (JStr c, JStr i)
     | _ \<Rightarrow> (JNull, JNull))"

section \<open>The unused proxy request\<close>

text \<open>
  \<open>fetchJSON\<close>: \<open>port\<close> finds the port of the service of a name. What is sent is the object \<open>fetch\<close>
  resolves to, which has no properties of its own.
\<close>

definition fetch_json :: "(jsval \<Rightarrow> int option) \<Rightarrow> string option \<Rightarrow> jsval \<Rightarrow> link_op" where
  "fetch_json port fetched p =
    (case port (get_field p ''targetServiceName'') of
       None \<Rightarrow> out_op (LinkEmit ''response'' (JNum (num_of_int (-1))))
     | Some n \<Rightarrow>
         seq_ops
           [out_op (Fetch (''http://localhost:'' @ show_int n @ ''/'' @ js_string (get_field p ''path''))
              (get_field p ''method'') (get_field p ''headers'') (get_field p ''body'')),
            (case fetched of None \<Rightarrow> skip_op | Some e \<Rightarrow> fail_op e),
            out_op (LinkEmit ''response'' (JObj 0 []))])"

section \<open>Sequences of events\<close>

text \<open>Every event carries what the database and \<open>fetch\<close> do while it is handled.\<close>

datatype link_event =
    Restart
  | Connected jsval
  | Register db_fault jsval
  | ConnectRequest db_fault jsval
  | HttpConnectRequest db_fault jsval
  | Respond string "string option" bool
  | ReverseProxy "jsval \<Rightarrow> int option" "string option" jsval

fun handle_link :: "link_event \<Rightarrow> link_op" where
  "handle_link Restart = link_start"
| "handle_link (Connected v) = on_hub_connect v"
| "handle_link (Register db p) = on_register db p"
| "handle_link (ConnectRequest db p) = on_connect_request db p"
| "handle_link (HttpConnectRequest db p) = receive_connect_request db p"
| "handle_link (Respond url f a) = respond_to_request url f a"
| "handle_link (ReverseProxy port f p) = fetch_json port f p"

fun link_run :: "link_event list \<Rightarrow> hub_link \<Rightarrow> hub_link \<times> link_effect list" where
  "link_run [] s = (s, [])"
| "link_run (e # es) s =
    (case handle_link e s of (_, s', out) \<Rightarrow> case link_run es s' of (s'', out') \<Rightarrow> (s'', out @ out'))"

end
