(* ===== verification/Link_Laws.thy ===== *)
theory Link_Laws
  imports Hub_Link
begin

text \<open>
  What the agent keeps of its identity: the signing secret outlives failed writes, refusals by the
  Hub and restarts, and only an answer that carries another secret replaces it.
\<close>

section \<open>Invariants of handlers\<close>

definition keeps_link :: "(hub_link \<Rightarrow> bool) \<Rightarrow> link_op \<Rightarrow> bool" where
  "keeps_link I f = (\<forall>s. I s \<longrightarrow> I (fst (snd (f s))))"

named_theorems link_rules "handlers that keep an invariant, following their structure"

lemma keeps_skip [link_rules]: "keeps_link I skip_op"
  by (simp add: keeps_link_def skip_op_def)

lemma keeps_fail [link_rules]: "keeps_link I (fail_op e)"
  by (simp add: keeps_link_def fail_op_def)

lemma keeps_out [link_rules]: "keeps_link I (out_op e)"
  by (simp add: keeps_link_def out_op_def)

lemma keeps_out_state [link_rules]: "keeps_link I (\<lambda>s. out_op (e s) s)"
  by (simp add: keeps_link_def out_op_def)

lemma keeps_set [link_rules]: "(\<And>s. I s \<Longrightarrow> I (f s)) \<Longrightarrow> keeps_link I (set_op f)"
  by (simp add: keeps_link_def set_op_def)

lemma keeps_seq [link_rules]: "keeps_link I f \<Longrightarrow> keeps_link I g \<Longrightarrow> keeps_link I (seq_op f g)"
  unfolding keeps_link_def seq_op_def by (fastforce split: prod.splits option.splits)

lemma keeps_seq_ops [link_rules]: "list_all (keeps_link I) fs \<Longrightarrow> keeps_link I (seq_ops fs)"
  by (induction fs) (auto intro: link_rules)

lemma keeps_if [link_rules]:
  "(b \<Longrightarrow> keeps_link I f) \<Longrightarrow> (\<not> b \<Longrightarrow> keeps_link I g) \<Longrightarrow> keeps_link I (if b then f else g)"
  by simp

lemma keeps_if_state [link_rules]:
  "keeps_link I f \<Longrightarrow> keeps_link I g \<Longrightarrow> keeps_link I (\<lambda>s. if b s then f s else g s)"
  by (simp add: keeps_link_def)

lemma keeps_upsert:
  "(\<And>t s. v = JStr t \<Longrightarrow> I s \<Longrightarrow> I (s\<lparr>lk_info := jm_set key t (lk_info s)\<rparr>)) \<Longrightarrow> keeps_link I (upsert db key v)"
  unfolding upsert_def by (cases v) (auto intro!: link_rules split: option.split)

lemma keeps_needs_data [link_rules]: "keeps_link I (needs_data p)"
  unfolding needs_data_def by (intro link_rules)

lemma keeps_on_code [link_rules]:
  "(get_field p ''code'' = JStr c \<Longrightarrow> keeps_link I f) \<Longrightarrow> keeps_link I (on_code p c f)"
  unfolding on_code_def by (intro link_rules)

lemma keeps_run: "list_all (\<lambda>e. keeps_link I (handle_link e)) es \<Longrightarrow> I s \<Longrightarrow> I (fst (link_run es s))"
proof (induction es arbitrary: s)
  case (Cons e es)
  obtain r s' out where o: "handle_link e s = (r, s', out)" by (cases "handle_link e s") auto
  have "I s'" using Cons.prems o by (auto simp: keeps_link_def)
  with Cons.IH[of s'] Cons.prems show ?case by (auto simp: o split: prod.splits)
qed simp

section \<open>The secret\<close>

abbreviation secret_key :: string where
  "secret_key \<equiv> ''agent-signing-secret''"

text \<open>The secret a registration answer brings, if it brings one\<close>

definition brings_secret :: "link_event \<Rightarrow> jsval option" where
  "brings_secret e =
    (case e of
       Register db p \<Rightarrow>
         (let v = get_field (get_field p ''data'') ''signingSecret''
          in if get_field p ''code'' = JStr ''ok'' \<and> truthy v then Some v else None)
     | _ \<Rightarrow> None)"

text \<open>
  The contract of an invariant on the secret: it does not depend on the uuid, on reconnecting and on
  other rows; it survives the writing of a secret of \<open>V\<close> to the memory and to the table, and the
  reading of the table by a new process. Every event that brings no secret but those of \<open>V\<close> keeps it.
\<close>

locale secret_invariant =
  fixes I :: "hub_link \<Rightarrow> bool" and V :: "jsval set"
  assumes other_fields: "I s \<Longrightarrow> I (s\<lparr>lk_uuid := u\<rparr>)" "I s \<Longrightarrow> I (s\<lparr>lk_reconnect := b\<rparr>)"
    and other_row: "I s \<Longrightarrow> key \<noteq> secret_key \<Longrightarrow> I (s\<lparr>lk_info := jm_set key t (lk_info s)\<rparr>)"
    and row_gone: "I s \<Longrightarrow> key \<noteq> secret_key \<Longrightarrow> I (s\<lparr>lk_info := jm_delete key (lk_info s)\<rparr>)"
    and in_memory: "I s \<Longrightarrow> v \<in> V \<Longrightarrow> truthy v \<Longrightarrow> I (s\<lparr>lk_secret := v\<rparr>)"
    and in_table: "I s \<Longrightarrow> JStr w \<in> V \<Longrightarrow> w \<noteq> [] \<Longrightarrow> I (s\<lparr>lk_info := jm_set secret_key w (lk_info s)\<rparr>)"
    and read_again: "I s \<Longrightarrow> I (fst (snd (link_start s)))"
begin

lemma keeps_other_row: "key \<noteq> secret_key \<Longrightarrow> keeps_link I (upsert db key v)"
  by (intro keeps_upsert other_row)

lemma keeps_register_ok:
  assumes "truthy (get_field d ''signingSecret'') \<Longrightarrow> get_field d ''signingSecret'' \<in> V"
  shows "keeps_link I (register_ok db d)"
proof -
  have uuid: "keeps_link I (\<lambda>s. if strictly_equal (lk_uuid s) u then skip_op s
      else seq_op (set_op (\<lambda>s. s\<lparr>lk_uuid := u\<rparr>)) (upsert db ''agent-uuid'' u) s)" for u
    by (intro keeps_if_state keeps_skip keeps_seq keeps_set keeps_other_row other_fields) simp_all
  have kept: "keeps_link I
      (if truthy (get_field d ''signingSecret'')
       then seq_op (set_op (\<lambda>s. s\<lparr>lk_secret := get_field d ''signingSecret''\<rparr>))
         (upsert db secret_key (get_field d ''signingSecret'')) else skip_op)"
    using assms
    by (intro keeps_if keeps_skip keeps_seq keeps_set keeps_upsert in_memory in_table) auto
  show ?thesis
    unfolding register_ok_def Let_def
    by (intro keeps_seq_ops) (simp add: uuid kept keeps_other_row keeps_out_state)
qed

lemma keeps_register:
  assumes "\<And>v. brings_secret (Register db p) = Some v \<Longrightarrow> v \<in> V"
  shows "keeps_link I (on_register db p)"
  unfolding on_register_def stop_reconnecting_def using assms
  by (auto intro!: link_rules keeps_register_ok other_fields simp: brings_secret_def)

lemma keeps_save: "keeps_link I (save_pending_request db v)"
  unfolding save_pending_request_def
  by (auto intro!: link_rules keeps_other_row split: sum.split js_error.split option.split)

lemma keeps_respond: "keeps_link I (respond_to_request url f a)"
proof -
  have clear: "keeps_link I clear_pending_request"
    unfolding clear_pending_request_def by (auto intro!: link_rules row_gone)
  have ops: "keeps_link I
      (seq_ops [out_op e, (case f of None \<Rightarrow> skip_op | Some e \<Rightarrow> fail_op e), clear_pending_request])" for e
    by (auto intro!: link_rules clear split: option.split)
  show ?thesis
    unfolding keeps_link_def respond_to_request_def
    using ops[unfolded keeps_link_def] by (auto simp: fail_op_def split: option.split)
qed

lemma keeps_handle:
  assumes "\<And>v. brings_secret e = Some v \<Longrightarrow> v \<in> V"
  shows "keeps_link I (handle_link e)"
proof (cases e)
  case Restart
  then show ?thesis by (auto simp: keeps_link_def intro: read_again)
next
  case (Connected v)
  then show ?thesis by (simp add: keeps_link_def on_hub_connect_def out_op_def)
next
  case (ReverseProxy port f p)
  then show ?thesis by (auto simp: fetch_json_def intro!: link_rules split: option.split)
qed (use assms in \<open>auto simp: on_connect_request_def receive_connect_request_def
    intro!: link_rules keeps_register keeps_save keeps_respond\<close>)

end

text \<open>The table holds a secret of \<open>W\<close>, and the process signs with one.\<close>

definition holds_secret :: "string set \<Rightarrow> hub_link \<Rightarrow> bool" where
  "holds_secret W s =
    ((\<exists>w. jm_get (lk_info s) secret_key = Some w \<and> w \<noteq> [] \<and> w \<in> W) \<and> truthy (lk_secret s))"

interpretation held: secret_invariant "holds_secret W" "{v. \<forall>t. v = JStr t \<longrightarrow> t \<in> W}" for W
  by unfold_locales (auto simp: holds_secret_def jsm.kv_laws link_start_def row_value_def)

text \<open>The table and the process agree on one secret.\<close>

definition sealed :: "string \<Rightarrow> hub_link \<Rightarrow> bool" where
  "sealed key s = (lk_secret s = JStr key \<and> jm_get (lk_info s) secret_key = Some key)"

interpretation sealing: secret_invariant "sealed key" "{JStr key}" for key
  by unfold_locales (auto simp: sealed_def jsm.kv_laws link_start_def row_value_def)

text \<open>C35: A signing secret the agent holds is never lost: whatever answers, requests, failures of the
  database and restarts follow, the table \<open>AgentInfo\<close> holds a non-empty secret and the running
  process signs with one. The stored secret is the old one or one that an \<open>ok\<close> answer to a
  registration brought; in particular answers without a secret, and refusals, leave it as it was.\<close>

theorem secret_survives:
  assumes "jm_get (lk_info s) ''agent-signing-secret'' = Some v" "v \<noteq> []" "truthy (lk_secret s)"
  shows "\<exists>w. jm_get (lk_info (fst (link_run es s))) ''agent-signing-secret'' = Some w \<and> w \<noteq> [] \<and>
    truthy (lk_secret (fst (link_run es s))) \<and>
    (w = v \<or> Some (JStr w) \<in> brings_secret ` set es)"
proof -
  let ?W = "insert v {w. Some (JStr w) \<in> brings_secret ` set es}"
  have "holds_secret ?W s" using assms by (simp add: holds_secret_def)
  moreover have "list_all (\<lambda>e. keeps_link (holds_secret ?W) (handle_link e)) es"
    unfolding list_all_iff by (intro ballI held.keeps_handle) (force intro: image_eqI)
  ultimately have "holds_secret ?W (fst (link_run es s))" by (rule keeps_run[rotated])
  then show ?thesis by (auto simp: holds_secret_def)
qed

definition no_fault :: db_fault where
  "no_fault key v = None"

definition known_agent :: hub_link where
  "known_agent = \<lparr>lk_uuid = JStr ''u1'', lk_secret = JStr ''s1'', lk_reconnect = True,
    lk_info = [(''agent-uuid'', ''u1''), (secret_key, ''s1'')]\<rparr>"

definition ok_answer :: "jsval \<Rightarrow> jsval" where
  "ok_answer secret = JObj 0 [(''code'', JStr ''ok''), (''data'', JObj 0 [(''uuid'', JStr ''u1''),
    (''code'', JStr ''c1''), (''ip'', JStr ''10.0.0.1''), (''signingSecret'', secret)])]"

theorem secret_survives_witness:
  "\<exists>w. jm_get (lk_info (fst (link_run [Register no_fault (ok_answer JNull), Restart] known_agent))) ''agent-signing-secret'' = Some w \<and>
     w = ''s1'' \<and> truthy (lk_secret (fst (link_run [Register no_fault (ok_answer JNull), Restart] known_agent)))"
proof -
  have "jm_get (lk_info known_agent) ''agent-signing-secret'' = Some ''s1''" "truthy (lk_secret known_agent)"
    by (simp_all add: known_agent_def jm_get_def)
  moreover have "Some (JStr w) \<notin> brings_secret ` set [Register no_fault (ok_answer JNull), Restart]" for w
    by (simp add: brings_secret_def ok_answer_def obj_get_def)
  ultimately show ?thesis
    using secret_survives[of known_agent "''s1''" "[Register no_fault (ok_answer JNull), Restart]"] by blast
qed

end
