(* ===== verification/Updater.thy ===== *)
theory Updater
  imports Agent_Ops Js_Bytes
begin

text \<open>
  Replacing the agent by another version: \<open>updateAgent\<close> and \<open>followUpdaterLogs\<close> of \<open>app.service.ts\<close>, the
  \<open>update-agent\<close> handler, and \<open>self-inspect.service.ts\<close>, which finds the Compose project the agent runs
  in. What Docker knows of containers is a parameter: \<open>inspect\<close> gives the labels of a container and
  \<open>siblings\<close> those of the containers of a project. The Korean texts of three messages are in English.
\<close>

section \<open>The agent's own project\<close>

record compose_project =
  cp_project :: string
  cp_dir :: string
  cp_service :: string

type_synonym labels = "(string \<times> string) list"

definition legacy_mount :: string where
  "legacy_mount = ''/project''"

text \<open>The first match of \<open>/docker/containers/<64 hex digits>/\<close>\<close>

fun find_container_id :: "string \<Rightarrow> string option" where
  "find_container_id [] = None"
| "find_container_id (c # cs) =
    (let p = ''/docker/containers/''; r = drop (length p) (c # cs); i = take 64 r
     in if starts_with (c # cs) p \<and> length i = 64 \<and> list_all is_hex_lower i \<and> starts_with (drop 64 r) ''/''
        then Some i else find_container_id cs)"

text \<open>\<open>mountinfo\<close> is the text of \<open>/proc/self/mountinfo\<close>, if it can be read.\<close>

definition self_container_id :: "string option \<Rightarrow> string \<Rightarrow> string" where
  "self_container_id mountinfo hostname =
    (case mountinfo of
       None \<Rightarrow> hostname
     | Some m \<Rightarrow> (case find_container_id m of None \<Rightarrow> hostname | Some i \<Rightarrow> i))"

definition label :: "labels \<Rightarrow> string \<Rightarrow> string" where
  "label ls k = (case map_of ls k of None \<Rightarrow> [] | Some v \<Rightarrow> v)"

definition dir_label :: string where
  "dir_label = ''com.docker.compose.project.working_dir''"

definition usable_dir :: "string \<Rightarrow> bool" where
  "usable_dir d = (d \<noteq> [] \<and> d \<noteq> legacy_mount)"

definition working_dir_from_siblings :: "(string \<Rightarrow> string + labels list) \<Rightarrow> string \<Rightarrow> string + string option" where
  "working_dir_from_siblings siblings project =
    (case siblings project of
       Inl e \<Rightarrow> Inl e
     | Inr cs \<Rightarrow> Inr (List.find usable_dir (map (\<lambda>ls. label ls dir_label) cs)))"

definition resolve_compose_project ::
    "(string \<Rightarrow> string + labels) \<Rightarrow> (string \<Rightarrow> string + labels list) \<Rightarrow> string option \<Rightarrow> string \<Rightarrow>
     string + compose_project" where
  "resolve_compose_project inspect siblings mountinfo hostname =
    bind_res (inspect (self_container_id mountinfo hostname)) (\<lambda>ls.
      let project = label ls ''com.docker.compose.project'';
          dir = label ls dir_label;
          service = label ls ''com.docker.compose.service''
      in if project = [] \<or> dir = [] \<or> service = [] then
           Inl (js_err ''The agent was not started by docker compose; install it again.'')
         else if dir \<noteq> legacy_mount then Inr \<lparr>cp_project = project, cp_dir = dir, cp_service = service\<rparr>
         else bind_res (working_dir_from_siblings siblings project) (\<lambda>found.
           case found of
             None \<Rightarrow> Inl (js_err ''The path of the compose project is lost; run docker compose up -d on the host.'')
           | Some d \<Rightarrow> Inr \<lparr>cp_project = project, cp_dir = d, cp_service = service\<rparr>))"

section \<open>Starting the updater\<close>

text \<open>\<open>TAG_PATTERN\<close>\<close>

definition is_alnum :: "char \<Rightarrow> bool" where
  "is_alnum c = (is_digit c \<or> is_upper_alpha c \<or> is_lower_alpha c)"

definition is_tag_char :: "char \<Rightarrow> bool" where
  "is_tag_char c = (is_alnum c \<or> c \<in> {CHR ''.'', CHR ''_'', CHR ''-''})"

definition valid_tag :: "string \<Rightarrow> bool" where
  "valid_tag s = (s \<noteq> [] \<and> is_alnum (hd s) \<and> list_all is_tag_char (tl s) \<and> length s \<le> 128)"

definition default_agent_image :: string where
  "default_agent_image = ''ghcr.io/optics-organization/optics-agent''"

definition updater_container :: string where
  "updater_container = ''optics-agent-updater''"

definition remove_args :: "string list" where
  "remove_args = [''rm'', ''-f'', updater_container]"

definition updater_args :: "compose_project \<Rightarrow> string \<Rightarrow> string \<Rightarrow> string \<Rightarrow> string list" where
  "updater_args cp img tag script =
    [''run'', ''-d'', ''--name'', updater_container,
     ''-v'', ''/var/run/docker.sock:/var/run/docker.sock'',
     ''-v'', cp_dir cp @ '':'' @ cp_dir cp, ''-w'', cp_dir cp,
     ''-e'', ''AGENT_IMAGE='' @ img, ''-e'', ''TARGET_TAG='' @ tag,
     ''-e'', ''AGENT_SERVICE='' @ cp_service cp, ''-e'', ''HEALTH_WAIT='' @ show_nat 45,
     ''docker:27-cli'', ''sh'', ''-c'', script]"

record self_view =
  sv_inspect :: "string \<Rightarrow> string + labels"
  sv_siblings :: "string \<Rightarrow> string + labels list"
  sv_mountinfo :: "string option"
  sv_hostname :: string
  sv_image :: "string option"
  sv_script :: "string + string"

definition self_project :: "self_view \<Rightarrow> string + compose_project" where
  "self_project v = resolve_compose_project (sv_inspect v) (sv_siblings v) (sv_mountinfo v) (sv_hostname v)"

definition agent_image :: "self_view \<Rightarrow> string" where
  "agent_image v = (case sv_image v of None \<Rightarrow> default_agent_image | Some i \<Rightarrow> i)"

definition throw_or :: "string + 'a \<Rightarrow> ('a \<Rightarrow> ('s, 'b) op) \<Rightarrow> ('s, 'b) op" where
  "throw_or r f = (case r of Inl e \<Rightarrow> throw e | Inr x \<Rightarrow> f x)"

definition follow_log_args :: "string list" where
  "follow_log_args = [''logs'', ''-f'', updater_container]"

text \<open>With \<open>report = Some n\<close> the caller wants reports; \<open>n\<close> names the process that follows the log.\<close>

definition update_agent :: "self_view \<Rightarrow> jsval \<Rightarrow> nat option \<Rightarrow> ('s, unit) op" where
  "update_agent v version report =
    (if \<not> valid_tag (js_string version) then
       throw (js_err (''Rejected malformed image tag: '' @ js_string version))
     else throw_or (self_project v) (\<lambda>cp.
       bind_op (run_sync remove_args None) (\<lambda>_.
       throw_or (sv_script v) (\<lambda>script.
       bind_op (run_sync (updater_args cp (agent_image v) (js_string version) script) None) (\<lambda>r.
         if sy_status r \<noteq> Some 0 then
           throw (js_err (''Failed to start updater container: '' @ js_trim (sy_stderr r)))
         else (case report of None \<Rightarrow> ret () | Some n \<Rightarrow> perform (CliStream follow_log_args n)))))))"

text \<open>The handler of \<open>update-agent\<close>; the payload is a plain object.\<close>

definition on_update_agent :: "self_view \<Rightarrow> jsval \<Rightarrow> nat \<Rightarrow> ('s, unit) op" where
  "on_update_agent v p n =
    try_op (update_agent v (get_field p ''version'') (Some n))
      (\<lambda>e. perform (Hub ''update-failed'' (PResponse (JObj 0 [(''message'', JStr e)]))))"

section \<open>Following the updater\<close>

record follower =
  fo_buffered :: string
  fo_last :: string

definition follow_start :: follower where
  "follow_start = \<lparr>fo_buffered = [], fo_last = []\<rparr>"

text \<open>A line, trimmed and without colours; an empty one is not reported.\<close>

definition clean_line :: "string \<Rightarrow> string" where
  "clean_line l = js_trim (strip_ansi l)"

text \<open>One chunk of either stream, which is decoded by itself: what is reported, and what is kept\<close>

definition forward :: "string \<Rightarrow> follower \<Rightarrow> follower \<times> string list" where
  "forward chunk s =
    (let parts = split_on lf (fo_buffered s @ utf8_text chunk);
         out = filter (\<lambda>l. l \<noteq> []) (map clean_line (butlast parts))
     in (\<lparr>fo_buffered = last parts, fo_last = (if out = [] then fo_last s else last out)\<rparr>, out))"

fun forward_all :: "string list \<Rightarrow> follower \<Rightarrow> follower \<times> string list" where
  "forward_all [] s = (s, [])"
| "forward_all (c # cs) s =
    (case forward c s of (s', out) \<Rightarrow> case forward_all cs s' of (s'', out') \<Rightarrow> (s'', out @ out'))"

text \<open>The log ended while this process is alive; \<open>stdout\<close> is what \<open>docker inspect\<close> printed.\<close>

definition exit_suffix :: "string \<Rightarrow> string" where
  "exit_suffix stdout =
    (let n = string_to_num (js_trim stdout)
     in if num_finite n \<and> nonzero n then '' (exit '' @ num_to_string n @ '')'' else [])"

definition on_follow_close :: "string \<Rightarrow> follower \<Rightarrow> string" where
  "on_follow_close stdout s =
    (if fo_last s \<noteq> [] then fo_last s else ''The updater ended without a result.'') @ exit_suffix stdout"

definition closing_message :: "follower \<Rightarrow> ('s, string) op" where
  "closing_message s =
    bind_op (run_sync [''inspect'', ''-f'', ''{{.State.ExitCode}}'', updater_container] None)
      (\<lambda>r. ret (on_follow_close (sy_stdout r) s))"

end
