(* ===== verification/Updater_Laws.thy ===== *)
theory Updater_Laws
  imports Updater Service_Laws
begin

text \<open>
  What updating the agent may start, and that the chunks in which the updater's log arrives make no
  difference to what is reported.
\<close>

section \<open>What is started\<close>

lemma siblings_usable: "working_dir_from_siblings siblings p = Inr (Some d) \<Longrightarrow> usable_dir d"
  by (auto simp: working_dir_from_siblings_def find_Some_iff split: sum.splits)

lemma project_parts:
  assumes "(if p = [] \<or> d = [] \<or> sv = [] then Inl e1
    else if d \<noteq> legacy_mount then Inr \<lparr>cp_project = p, cp_dir = d, cp_service = sv\<rparr>
    else bind_res w (\<lambda>found.
      case found of None \<Rightarrow> Inl e2 | Some d \<Rightarrow> Inr \<lparr>cp_project = p, cp_dir = d, cp_service = sv\<rparr>)) = Inr cp"
    and w: "\<And>x. w = Inr (Some x) \<Longrightarrow> usable_dir x"
  shows "usable_dir (cp_dir cp) \<and> cp_service cp \<noteq> []"
proof -
  consider "d \<noteq> legacy_mount" "d \<noteq> []" "sv \<noteq> []" "cp = \<lparr>cp_project = p, cp_dir = d, cp_service = sv\<rparr>"
    | x where "w = Inr (Some x)" "sv \<noteq> []" "cp = \<lparr>cp_project = p, cp_dir = x, cp_service = sv\<rparr>"
    using assms(1) by (cases w) (auto split: if_split_asm option.split_asm)
  then show ?thesis using w by cases (auto simp: usable_dir_def)
qed

lemma resolved_project:
  assumes "resolve_compose_project inspect siblings mi host = Inr cp"
  shows "usable_dir (cp_dir cp) \<and> cp_service cp \<noteq> []"
proof -
  from assms obtain ls where ls: "inspect (self_container_id mi host) = Inr ls"
    unfolding resolve_compose_project_def bind_res_Inr by blast
  show ?thesis
    using assms unfolding resolve_compose_project_def ls bind_res.simps Let_def
    by (rule project_parts) (rule siblings_usable)
qed

definition update_steps :: "self_view \<Rightarrow> compose_project \<Rightarrow> string \<Rightarrow> string \<Rightarrow> nat \<Rightarrow> trace" where
  "update_steps v cp tag script n =
    [CliSync remove_args None, CliSync (updater_args cp (agent_image v) tag script) None,
     CliStream follow_log_args n]"

lemma added_update:
  "added (update_agent v version report) env s tr =
    (if \<not> valid_tag (js_string version) then []
     else case self_project v of Inl e \<Rightarrow> []
       | Inr cp \<Rightarrow>
           (case sv_script v of Inl e \<Rightarrow> take 1 (update_steps v cp (js_string version) [] 0)
            | Inr script \<Rightarrow>
                (let tr' = tr @ take 2 (update_steps v cp (js_string version) script 0)
                 in if sy_status (en_sync env tr') \<noteq> Some 0 \<or> report = None
                    then take 2 (update_steps v cp (js_string version) script 0)
                    else update_steps v cp (js_string version) script (the report))))"
  by (auto simp: added_def update_agent_def throw_or_def run_sync_def run_bind then_op_def update_steps_def Let_def
      split: sum.splits option.splits)

text \<open>C37: Updating the agent runs Docker only for a version that is a well-formed image tag, and then
  nothing but this, in this order: the old updater is removed, the updater is started, its log is
  followed. The tag is one whole argument, the project directory is mounted at its own path, and it
  is never the path an old updater left behind, nor empty.\<close>

theorem update_starts_only:
  "added (update_agent v version report) env s tr = [] \<or>
   (valid_tag (js_string version) \<and>
    (\<exists>cp script n. self_project v = Inr cp \<and> cp_dir cp \<noteq> [] \<and> cp_dir cp \<noteq> ''/project'' \<and> cp_service cp \<noteq> [] \<and>
       prefix (added (update_agent v version report) env s tr)
         (update_steps v cp (js_string version) script n) \<and>
       ''TARGET_TAG='' @ js_string version \<in> set (updater_args cp (agent_image v) (js_string version) script) \<and>
       cp_dir cp @ '':'' @ cp_dir cp \<in> set (updater_args cp (agent_image v) (js_string version) script)))"
proof (cases "valid_tag (js_string version)")
  case True
  show ?thesis
  proof (cases "self_project v")
    case (Inr cp)
    have cp: "cp_dir cp \<noteq> [] \<and> cp_dir cp \<noteq> ''/project'' \<and> cp_service cp \<noteq> []"
      using resolved_project[OF Inr[unfolded self_project_def]] by (simp add: usable_dir_def legacy_mount_def)
    have pre: "prefix (take k (update_steps v cp t sc n)) (update_steps v cp t sc n)" for k t sc n
      by (rule take_is_prefix)
    have "\<exists>sc n. prefix (added (update_agent v version report) env s tr) (update_steps v cp (js_string version) sc n)"
    proof (cases "sv_script v")
      case (Inl e)
      then have "added (update_agent v version report) env s tr = take 1 (update_steps v cp (js_string version) [] 0)"
        by (simp add: added_update Inr True)
      then show ?thesis using pre by metis
    next
      case sc: (Inr sc)
      then show ?thesis unfolding added_update Inr using True pre[of 2 _ sc 0]
        by (cases report) (auto simp: Let_def intro: prefix_order.refl)
    qed
    moreover have "''TARGET_TAG='' @ js_string version \<in> set (updater_args cp (agent_image v) (js_string version) sc)"
      "cp_dir cp @ '':'' @ cp_dir cp \<in> set (updater_args cp (agent_image v) (js_string version) sc)" for sc
      by (simp_all add: updater_args_def)
    ultimately show ?thesis using True Inr cp by blast
  qed (simp add: added_update True)
qed (simp add: added_update)

section \<open>The log of the updater\<close>

lemma split_on_append:
  "split_on d (a @ b) = butlast (split_on d a) @ split_on d (last (split_on d a) @ b)"
proof (induction a)
  case (Cons c a)
  obtain w ws where w: "split_on d a = w # ws" by (cases "split_on d a") auto
  show ?case
  proof (cases "c = d")
    case False
    obtain u us where u: "split_on d (w @ b) = u # us" by (cases "split_on d (w @ b)") auto
    show ?thesis
    proof (cases "ws = []")
      case True
      then show ?thesis using Cons w False u by (auto split: list.split)
    next
      case ws: False
      then show ?thesis using Cons w False by (auto split: list.split)
    qed
  qed (use Cons w in simp)
qed simp

definition lines_of :: "string \<Rightarrow> string list" where
  "lines_of s = filter (\<lambda>l. l \<noteq> []) (map clean_line (butlast (split_on lf s)))"

definition rest_of :: "string \<Rightarrow> string" where
  "rest_of s = last (split_on lf s)"

lemma lines_append: "lines_of (a @ b) = lines_of a @ lines_of (rest_of a @ b)" "rest_of (a @ b) = rest_of (rest_of a @ b)"
  unfolding lines_of_def rest_of_def split_on_append[of lf a b] by (simp_all add: butlast_append)

lemma rest_idem: "rest_of (rest_of s) = rest_of s" "lines_of (rest_of s) = []"
proof -
  have "lf \<notin> set (rest_of s)" unfolding rest_of_def by (rule split_on_no_delim[OF last_in_set]) simp
  then show "rest_of (rest_of s) = rest_of s" "lines_of (rest_of s) = []"
    by (simp_all add: rest_of_def[of "rest_of s"] lines_of_def split_on_single)
qed

definition last_of :: "string \<Rightarrow> string list \<Rightarrow> string" where
  "last_of d out = (if out = [] then d else last out)"

lemma forward_lines:
  "forward chunk s = (\<lparr>fo_buffered = rest_of (fo_buffered s @ utf8_text chunk),
     fo_last = last_of (fo_last s) (lines_of (fo_buffered s @ utf8_text chunk))\<rparr>,
     lines_of (fo_buffered s @ utf8_text chunk))"
  by (simp add: forward_def lines_of_def rest_of_def last_of_def Let_def)

text \<open>What a follower of a whole text would report and keep\<close>

definition followed :: "string \<Rightarrow> follower \<times> string list" where
  "followed s = (\<lparr>fo_buffered = rest_of s, fo_last = last_of [] (lines_of s)\<rparr>, lines_of s)"

lemma forward_all_lines:
  "rest_of (fo_buffered s) = fo_buffered s \<Longrightarrow> lines_of (fo_buffered s) = [] \<Longrightarrow>
   forward_all cs s = (\<lparr>fo_buffered = rest_of (fo_buffered s @ concat (map utf8_text cs)),
     fo_last = last_of (fo_last s) (lines_of (fo_buffered s @ concat (map utf8_text cs)))\<rparr>,
     lines_of (fo_buffered s @ concat (map utf8_text cs)))"
proof (induction cs arbitrary: s)
  case Nil
  then show ?case by (cases s) (simp add: last_of_def)
next
  case (Cons c cs)
  let ?s' = "fst (forward c s)" and ?t = "concat (map utf8_text cs)"
  have b: "fo_buffered ?s' = rest_of (fo_buffered s @ utf8_text c)" by (simp add: forward_lines)
  have "forward_all cs ?s' = (\<lparr>fo_buffered = rest_of (fo_buffered ?s' @ ?t),
      fo_last = last_of (fo_last ?s') (lines_of (fo_buffered ?s' @ ?t))\<rparr>, lines_of (fo_buffered ?s' @ ?t))"
    by (rule Cons.IH) (simp_all add: b rest_idem)
  then show ?case
    using lines_append[of "fo_buffered s @ utf8_text c" ?t]
    by (simp add: forward_lines b last_of_def)
qed

lemma forward_all_followed: "forward_all cs follow_start = followed (concat (map utf8_text cs))"
proof -
  have "rest_of [] = []" "lines_of [] = []" by (simp_all add: rest_of_def lines_of_def)
  then show ?thesis using forward_all_lines[of follow_start cs] by (simp add: follow_start_def followed_def)
qed

text \<open>C38: What is reported of the updater's log are the lines of the decoded text, trimmed and without
  colours, the empty ones left out, and the line kept for the failure message is the last of them.
  The chunks make no difference as long as none begins inside a character; since each is decoded by
  itself, a chunk that does, here one that begins with the second byte of an e with acute, turns the
  line into another. The text after the last line break is never reported: a log that ends without
  a line break ends in a failure message that does not show its last line.\<close>

theorem followed_lines:
  "forward_all cs follow_start = followed (concat (map utf8_text cs)) \<and>
   (list_all begins_character cs \<longrightarrow> forward_all cs follow_start = followed (utf8_text (concat cs))) \<and>
   snd (forward_all [''d'' @ [CHR 0xC3, CHR 0xA9] @ ''ploy'' @ [lf]] follow_start) = [''d'' @ [CHR 0xE9] @ ''ploy''] \<and>
   snd (forward_all [''d'' @ [CHR 0xC3], [CHR 0xA9] @ ''ploy'' @ [lf]] follow_start) =
     [''d'' @ [CHR 0x1A, CHR 0x1A] @ ''ploy''] \<and>
   on_follow_close ''1'' (fst (forward_all [''pull access '', ''denied''] follow_start)) =
     ''The updater ended without a result. (exit 1)''"
proof (intro conjI impI)
  show "forward_all cs follow_start = followed (concat (map utf8_text cs))" by (rule forward_all_followed)
  show "list_all begins_character cs \<Longrightarrow> forward_all cs follow_start = followed (utf8_text (concat cs))"
    by (simp add: forward_all_followed utf8_text_concat)
  show "snd (forward_all [''d'' @ [CHR 0xC3, CHR 0xA9] @ ''ploy'' @ [lf]] follow_start) = [''d'' @ [CHR 0xE9] @ ''ploy'']"
    by code_simp
  show "snd (forward_all [''d'' @ [CHR 0xC3], [CHR 0xA9] @ ''ploy'' @ [lf]] follow_start) =
     [''d'' @ [CHR 0x1A, CHR 0x1A] @ ''ploy'']" by code_simp
  show "on_follow_close ''1'' (fst (forward_all [''pull access '', ''denied''] follow_start)) =
     ''The updater ended without a result. (exit 1)''" by code_simp
qed

theorem followed_lines_witness:
  "snd (forward_all [''pull'', ''ing '' @ [CHR 0xC3, CHR 0xA9], [lf]] follow_start) = [''pulling '' @ [CHR 0xE9]]"
proof -
  let ?cs = "[''pull'', ''ing '' @ [CHR 0xC3, CHR 0xA9], [lf]]"
  have "list_all begins_character ?cs" by code_simp
  then have "forward_all ?cs follow_start = followed (utf8_text (concat ?cs))"
    using followed_lines[of ?cs] by blast
  moreover have "snd (followed (utf8_text (concat ?cs))) = [''pulling '' @ [CHR 0xE9]]" by code_simp
  ultimately show ?thesis by simp
qed

end
