(* ===== verification/System_Metrics.thy ===== *)
theory System_Metrics
  imports Js_Coerce
begin

text \<open>
  \<open>systemMetric.util.ts\<close>, \<open>numberSlicer.util.ts\<close> and \<open>updatePerformance\<close> of \<open>app.service.ts\<close>: sampling
  processor and memory use, and draining the counters. Numbers are decimals and their sums exact;
  \<open>quot\<close> is floating-point division, on whose rounding nothing here depends.
\<close>

section \<open>Numbers\<close>

definition num_zero :: jsnum where
  "num_zero = NDec 0 0"

fun num_add :: "jsnum \<Rightarrow> jsnum \<Rightarrow> jsnum" where
  "num_add (NDec m e) (NDec n f) =
    (let g = min e f in mk_dec (m * 10 ^ nat (e - g) + n * 10 ^ nat (f - g)) g)"
| "num_add (NInf a) (NInf b) = (if a = b then NInf a else NNaN)"
| "num_add (NInf a) (NDec n f) = NInf a"
| "num_add (NDec m e) (NInf b) = NInf b"
| "num_add _ _ = NNaN"

fun num_le :: "jsnum \<Rightarrow> jsnum \<Rightarrow> bool" where
  "num_le (NDec m e) (NDec n f) = (num_val (NDec m e) \<le> num_val (NDec n f))"
| "num_le (NInf a) (NInf b) = (a \<or> \<not> b)"
| "num_le (NInf a) (NDec n f) = a"
| "num_le (NDec m e) (NInf b) = (\<not> b)"
| "num_le _ _ = False"

text \<open>\<open>Math.max\<close> and \<open>Math.min\<close>\<close>

definition js_max :: "jsnum \<Rightarrow> jsnum \<Rightarrow> jsnum" where
  "js_max a b = (if a = NNaN \<or> b = NNaN then NNaN else if num_le a b then b else a)"

definition js_min :: "jsnum \<Rightarrow> jsnum \<Rightarrow> jsnum" where
  "js_min a b = (if a = NNaN \<or> b = NNaN then NNaN else if num_le a b then a else b)"

text \<open>\<open>parseInt\<close> on the text of a number, \<open>NaN\<close> being turned into zero\<close>

definition parse_int :: "string \<Rightarrow> int" where
  "parse_int s =
    (if s \<noteq> [] \<and> hd s = CHR ''-'' then - int (read_digits (takeWhile is_digit (tl s)))
     else int (read_digits (takeWhile is_digit s)))"

text \<open>\<open>parseFloat('0.' + w)\<close> for the two characters after the point, of which the first is a digit\<close>

definition parse_fraction :: "string \<Rightarrow> jsnum" where
  "parse_fraction w = (let ds = takeWhile is_digit w in mk_dec (int (read_digits ds)) (- int (length ds)))"

definition number_slicer :: "jsnum \<Rightarrow> jsnum" where
  "number_slicer n =
    (let parts = split_on (CHR ''.'') (num_to_string n);
         decimal = (if length parts > 1 \<and> parts ! 1 \<noteq> [] then parse_fraction (take 2 (parts ! 1)) else num_zero)
     in num_add (num_of_int (parse_int (parts ! 0))) decimal)"

section \<open>The sampler\<close>

record sampler =
  sp_cpu_samples :: nat
  sp_cpu_max :: jsnum
  sp_cpu_min :: jsnum
  sp_cpu_sum :: jsnum
  sp_cpu_now :: jsnum
  sp_mem_samples :: nat
  sp_mem_max :: jsnum
  sp_mem_min :: jsnum
  sp_mem_sum :: jsnum
  sp_total :: jsnum
  sp_used :: jsnum

definition sampler_start :: sampler where
  "sampler_start =
    \<lparr>sp_cpu_samples = 0, sp_cpu_max = num_zero, sp_cpu_min = NInf False, sp_cpu_sum = num_zero,
     sp_cpu_now = num_zero, sp_mem_samples = 0, sp_mem_max = num_zero, sp_mem_min = NInf False,
     sp_mem_sum = num_zero, sp_total = num_zero, sp_used = num_zero\<rparr>"

definition collect_cpu :: "jsnum \<Rightarrow> sampler \<Rightarrow> sampler" where
  "collect_cpu usage s = s\<lparr>sp_cpu_now := usage, sp_cpu_max := js_max (sp_cpu_max s) usage,
     sp_cpu_min := js_min (sp_cpu_min s) usage, sp_cpu_sum := num_add (sp_cpu_sum s) usage,
     sp_cpu_samples := Suc (sp_cpu_samples s)\<rparr>"

text \<open>\<open>total\<close> and \<open>free\<close> are what the operating system reports, in bytes.\<close>

definition collect_mem :: "int \<Rightarrow> int \<Rightarrow> sampler \<Rightarrow> sampler" where
  "collect_mem total_bytes free_bytes s =
    (let used = num_of_int (total_bytes - free_bytes)
     in s\<lparr>sp_used := used, sp_mem_max := js_max (sp_mem_max s) used, sp_mem_min := js_min (sp_mem_min s) used,
          sp_mem_sum := num_add (sp_mem_sum s) used, sp_total := num_of_int total_bytes,
          sp_mem_samples := Suc (sp_mem_samples s)\<rparr>)"

definition finite_or_zero :: "jsnum \<Rightarrow> jsnum" where
  "finite_or_zero v = (if num_finite v then number_slicer v else num_zero)"

definition average :: "(jsnum \<Rightarrow> jsnum \<Rightarrow> jsnum) \<Rightarrow> jsnum \<Rightarrow> nat \<Rightarrow> jsnum" where
  "average quot s n = (if n > 0 then number_slicer (quot s (num_of_int (int n))) else num_zero)"

record resource_metric =
  rm_peak :: jsnum
  rm_average :: jsnum
  rm_min :: jsnum

record system_metrics =
  me_timestamp :: int
  me_cpu :: resource_metric
  me_mem :: resource_metric
  me_total :: jsnum
  me_cpu_samples :: nat
  me_mem_samples :: nat

definition reset_counters :: "sampler \<Rightarrow> sampler" where
  "reset_counters s = s\<lparr>sp_cpu_samples := 0, sp_cpu_max := num_zero, sp_cpu_min := NInf False,
     sp_cpu_sum := num_zero, sp_mem_samples := 0, sp_mem_max := num_zero, sp_mem_min := NInf False,
     sp_mem_sum := num_zero\<rparr>"

definition get_metrics :: "(jsnum \<Rightarrow> jsnum \<Rightarrow> jsnum) \<Rightarrow> int \<Rightarrow> sampler \<Rightarrow> system_metrics \<times> sampler" where
  "get_metrics quot now s =
    (\<lparr>me_timestamp = now,
      me_cpu = \<lparr>rm_peak = finite_or_zero (sp_cpu_max s),
                rm_average = average quot (sp_cpu_sum s) (sp_cpu_samples s),
                rm_min = finite_or_zero (sp_cpu_min s)\<rparr>,
      me_mem = \<lparr>rm_peak = finite_or_zero (sp_mem_max s),
                rm_average = average quot (sp_mem_sum s) (sp_mem_samples s),
                rm_min = finite_or_zero (sp_mem_min s)\<rparr>,
      me_total = finite_or_zero (sp_total s),
      me_cpu_samples = sp_cpu_samples s, me_mem_samples = sp_mem_samples s\<rparr>, reset_counters s)"

definition get_current_metrics :: "(jsnum \<Rightarrow> jsnum \<Rightarrow> jsnum) \<Rightarrow> int \<Rightarrow> sampler \<Rightarrow> jsval" where
  "get_current_metrics quot now s =
    (let t = finite_or_zero (sp_total s); used = finite_or_zero (sp_used s)
     in JObj 0
       [(''timestamp'', JNum (num_of_int now)),
        (''cpu'', JObj 1 [(''usage'', JNum (finite_or_zero (sp_cpu_now s)))]),
        (''memory'', JObj 2 [(''used'', JNum used), (''total'', JNum t),
          (''usage'', JNum (if num_le t num_zero then num_zero else number_slicer (quot used t)))])])"

text \<open>The answer to \<open>system-metrics-request\<close>\<close>

definition on_metrics_request :: "(jsnum \<Rightarrow> jsnum \<Rightarrow> jsnum) \<Rightarrow> int \<Rightarrow> jsval \<Rightarrow> sampler \<Rightarrow> string \<times> jsval" where
  "on_metrics_request quot now p s =
    (''system-metrics'', JObj 3 [(''requestId'', get_field p ''requestId''), (''metrics'', get_current_metrics quot now s)])"

section \<open>Storing and sending\<close>

datatype metric_effect =
    StoreCpu int resource_metric
  | StoreMemory int resource_metric jsnum
  | PruneCpu int
  | PruneMemory int
  | SendMetric system_metrics

text \<open>
  \<open>fails n\<close> tells whether the \<open>n\<close>-th write fails; a failure ends the writing and is logged. \<open>later\<close>
  is the clock when old rows are pruned.
\<close>

definition update_performance ::
    "(jsnum \<Rightarrow> jsnum \<Rightarrow> jsnum) \<Rightarrow> int \<Rightarrow> int \<Rightarrow> (nat \<Rightarrow> bool) \<Rightarrow> sampler \<Rightarrow> metric_effect list \<times> sampler" where
  "update_performance quot now later fails s =
    (case get_metrics quot now s of (m, s') \<Rightarrow>
       if me_cpu_samples m = 0 \<and> me_mem_samples m = 0 then ([], s')
       else
         (let bound = later - 7 * 24 * 60 * 60 * 1000;
              writes = [StoreCpu now (me_cpu m), StoreMemory now (me_mem m) (me_total m), PruneCpu bound, PruneMemory bound]
          in (map fst (takeWhile (\<lambda>(w, n). \<not> fails n) (zip writes [0..<4])) @ [SendMetric m], s')))"

end
