(* ===== verification/Metric_Laws.thy ===== *)
theory Metric_Laws
  imports System_Metrics
begin

text \<open>
  Cutting a number to two decimals, and what an interval of samples is reported as.
\<close>

section \<open>Values\<close>






lemma num_finite_add: "num_finite x \<Longrightarrow> num_finite y \<Longrightarrow> num_finite (num_add x y)"
  by (cases x; cases y) (auto simp: Let_def mk_dec_def split: prod.split)

section \<open>Digits\<close>


section \<open>Cutting\<close>








section \<open>Plain numbers\<close>





section \<open>An interval\<close>






lemma collect_cpu_fold:
  "sp_cpu_max (fold collect_cpu us s) = fold (\<lambda>u a. js_max a u) us (sp_cpu_max s)"
  "sp_cpu_min (fold collect_cpu us s) = fold (\<lambda>u a. js_min a u) us (sp_cpu_min s)"
  "sp_cpu_samples (fold collect_cpu us s) = sp_cpu_samples s + length us"
  by (induction us arbitrary: s) (simp_all add: collect_cpu_def)

lemma reset_fields [simp]:
  "sp_cpu_max (reset_counters s) = num_zero" "sp_cpu_min (reset_counters s) = NInf False"
  "sp_cpu_samples (reset_counters s) = 0" "sp_mem_max (reset_counters s) = num_zero"
  "sp_mem_min (reset_counters s) = NInf False" "sp_mem_samples (reset_counters s) = 0"
  "sp_total (reset_counters s) = sp_total s"
  by (simp_all add: reset_counters_def)




section \<open>Memory\<close>






section \<open>An interval of both kinds of samples\<close>















end
