(* ===== verification/Agent_Version.thy ===== *)
theory Agent_Version
  imports Js_Path Json_Parse Js_Coerce
begin

text \<open>
  \<open>agent-version.ts\<close>: the search for \<open>package.json\<close> from the code's directory upwards. The search is a
  loop without a bound, so it is a partial function into options: \<open>None\<close> is a search that never ends.
  \<open>exists\<close> and \<open>read\<close> are \<open>existsSync\<close> and \<open>readFileSync\<close>.
\<close>

datatype version_log = MissingField string | Unreadable string string | NotFound string

text \<open>The version in a file that exists; \<open>null\<close> with a line in the log when there is none\<close>

definition package_version ::
    "(string \<Rightarrow> string + string) \<Rightarrow> string \<Rightarrow> jsval \<times> version_log option" where
  "package_version read candidate =
    (case read candidate of
       Inl e \<Rightarrow> (JNull, Some (Unreadable candidate e))
     | Inr txt \<Rightarrow>
         (case json_parse txt of
            None \<Rightarrow> (JNull, Some (Unreadable candidate ''SyntaxError''))
          | Some pkg \<Rightarrow>
              (case member pkg ''version'' of
                 Inl e \<Rightarrow> (JNull, Some (Unreadable candidate e))
               | Inr v \<Rightarrow> if truthy v then (v, None) else (JNull, Some (MissingField candidate)))))"

definition candidate :: "string \<Rightarrow> string" where
  "candidate directory = path_join directory ''package.json''"

partial_function (option) search_version ::
    "(string \<Rightarrow> bool) \<Rightarrow> (string \<Rightarrow> string + string) \<Rightarrow> string \<Rightarrow> string \<Rightarrow> (jsval \<times> version_log option) option" where
  "search_version exists read start directory =
    (if exists (candidate directory) then Some (package_version read (candidate directory))
     else if path_dirname directory = directory then Some (JNull, Some (NotFound start))
     else search_version exists read start (path_dirname directory))"

definition read_agent_version ::
    "(string \<Rightarrow> bool) \<Rightarrow> (string \<Rightarrow> string + string) \<Rightarrow> string \<Rightarrow> (jsval \<times> version_log option) option" where
  "read_agent_version exists read dirname = search_version exists read dirname dirname"

section \<open>The search ends\<close>

text \<open>
  A parent directory is a shorter path, except for a single segment, whose parent is the dot, and
  for the empty path, whose parent is the dot too.
\<close>

definition path_weight :: "string \<Rightarrow> nat" where
  "path_weight p = (if p = [] then 3 else if p = ''.'' then 2 else Suc (2 * length p))"

lemma length_rev_dropWhile: "length (rev (dropWhile P (rev p))) \<le> length p"
  using length_dropWhile_le[of P "rev p"] by simp

lemma parent_shape:
  assumes "u \<noteq> []"
  shows "(if length u = 1 then [slash] else if u = [slash, slash] then u else butlast u) \<noteq> [] \<and>
    length (if length u = 1 then [slash] else if u = [slash, slash] then u else butlast u) \<le> length u"
  using assms by (cases u rule: rev_cases) auto

lemma dirname_weight:
  assumes "path_dirname p \<noteq> p"
  shows "path_weight (path_dirname p) < path_weight p"
proof -
  let ?q = "rev (dropWhile (\<lambda>c. c = slash) (rev p))"
  let ?u = "rev (dropWhile (\<lambda>c. c \<noteq> slash) (rev ?q))"
  have q: "length ?q \<le> length p" by (rule length_rev_dropWhile)
  show ?thesis
  proof (cases "?q = []")
    case True
    then have "path_dirname p = (if p = [] then ''.'' else [slash])"
      unfolding path_dirname_def Let_def by simp
    moreover have "set p \<subseteq> {slash}" using True by (auto simp: dropWhile_eq_Nil_conv)
    ultimately show ?thesis using assms by (cases p; cases "tl p") (auto simp: path_weight_def)
  next
    case q': False
    have ends: "last ?q \<noteq> slash" using q' hd_dropWhile[of "\<lambda>c. c = slash" "rev p"] by (simp add: last_rev)
    have p: "p \<noteq> []" using q' by auto
    have u: "length ?u < length ?q"
    proof -
      obtain c r where cr: "rev ?q = c # r" using q' by (cases "rev ?q") auto
      then have "c \<noteq> slash" using ends by (metis hd_rev list.sel(1) rev_rev_ident)
      then have "dropWhile (\<lambda>c. c \<noteq> slash) (rev ?q) = dropWhile (\<lambda>c. c \<noteq> slash) r" using cr by simp
      then have "length ?u \<le> length r" using length_dropWhile_le[of "\<lambda>c. c \<noteq> slash" r] by simp
      also have "\<dots> < length ?q" using arg_cong[OF cr, of length] by simp
      finally show ?thesis .
    qed
    have d: "path_dirname p = (if ?u = [] then ''.'' else if length ?u = 1 then [slash]
        else if ?u = [slash, slash] then ?u else butlast ?u)"
      unfolding path_dirname_def Let_def by (rule if_not_P[OF q'])
    show ?thesis
    proof (cases "?u = []")
      case True
      then have "path_dirname p = ''.''" unfolding d by (rule if_P)
      then show ?thesis using assms p by (cases p) (auto simp: path_weight_def)
    next
      case False
      have "path_dirname p \<noteq> []" "length (path_dirname p) \<le> length ?u"
        using parent_shape[OF False] unfolding d if_not_P[OF False] by blast+
      then have l: "path_dirname p \<noteq> []" "length (path_dirname p) < length p"
        using u q by (blast, linarith)
      then have "p \<noteq> ''.''" by (cases "path_dirname p") auto
      then show ?thesis using l p by (auto simp: path_weight_def)
    qed
  qed
qed

text \<open>The nearest directory at or above the start that has the file, or the one with no parent\<close>

definition stops_at :: "(string \<Rightarrow> bool) \<Rightarrow> string \<Rightarrow> bool" where
  "stops_at exists d = (exists (candidate d) \<or> path_dirname d = d)"

definition found :: "(string \<Rightarrow> bool) \<Rightarrow> (string \<Rightarrow> string + string) \<Rightarrow> string \<Rightarrow> string \<Rightarrow> jsval \<times> version_log option" where
  "found exists read start d =
    (if exists (candidate d) then package_version read (candidate d) else (JNull, Some (NotFound start)))"

lemma search_ends:
  "\<exists>n. search_version exists read start d = Some (found exists read start ((path_dirname ^^ n) d)) \<and>
       stops_at exists ((path_dirname ^^ n) d) \<and>
       list_all (\<lambda>m. \<not> stops_at exists ((path_dirname ^^ m) d)) [0..<n]"
proof (induction "path_weight d" arbitrary: d rule: less_induct)
  case less
  show ?case
  proof (cases "stops_at exists d")
    case True
    then have "search_version exists read start d = Some (found exists read start d)"
      by (subst search_version.simps) (auto simp: stops_at_def found_def)
    with True show ?thesis by (intro exI[of _ 0]) simp
  next
    case False
    then have step: "search_version exists read start d = search_version exists read start (path_dirname d)"
      by (subst search_version.simps) (simp add: stops_at_def)
    have "path_weight (path_dirname d) < path_weight d"
      using False by (intro dirname_weight) (simp add: stops_at_def)
    from less[OF this] obtain n where n:
        "search_version exists read start (path_dirname d) = Some (found exists read start ((path_dirname ^^ n) (path_dirname d)))"
        "stops_at exists ((path_dirname ^^ n) (path_dirname d))"
        "list_all (\<lambda>m. \<not> stops_at exists ((path_dirname ^^ m) (path_dirname d))) [0..<n]" by blast
    have "list_all (\<lambda>m. \<not> stops_at exists ((path_dirname ^^ m) d)) [0..<Suc n]"
      unfolding list_all_iff
    proof
      fix m assume m: "m \<in> set [0..<Suc n]"
      show "\<not> stops_at exists ((path_dirname ^^ m) d)"
      proof (cases m)
        case (Suc k)
        then have "k \<in> set [0..<n]" using m by auto
        then have "\<not> stops_at exists ((path_dirname ^^ k) (path_dirname d))"
          using n(3) unfolding list_all_iff by blast
        then show ?thesis using Suc by (simp add: funpow_swap1)
      qed (use False in simp)
    qed
    with n step show ?thesis by (intro exI[of _ "Suc n"]) (simp add: funpow_swap1)
  qed
qed

text \<open>C40: The search for the version always ends, from any start, whatever files exist: a parent is a
  shorter path until the root or the dot is reached. Its answer comes from the nearest directory at
  or above the start that holds a \<open>package.json\<close>, even when that file is unreadable or has no version,
  and is \<open>null\<close> when no directory up to the last one holds any.\<close>

theorem version_search_ends:
  "\<exists>n. read_agent_version exists read start = Some (found exists read start ((path_dirname ^^ n) start)) \<and>
       stops_at exists ((path_dirname ^^ n) start) \<and>
       list_all (\<lambda>m. \<not> stops_at exists ((path_dirname ^^ m) start)) [0..<n]"
  unfolding read_agent_version_def by (rule search_ends)

end
