(* ===== verification/Direct_Tunnel.thy ===== *)
theory Direct_Tunnel
  imports Tunnel_Pool Js_Coerce
begin

text \<open>
  \<open>ReverseTunnelService.open\<close>, the tunnel the Hub asks for with \<open>tunnel-connect\<close>: one socket to the Hub
  and one to the local service, joined both ways. Also the figures of the pool. A socket takes bytes
  until the agent ends it; a pipe ends its target when its source ends or closes.
\<close>

record direct_tunnel =
  dt_tunnel_port :: jsval
  dt_service_port :: jsval
  dt_to_tunnel :: string
  dt_to_local :: string
  dt_tunnel_ended :: bool
  dt_local_ended :: bool

text \<open>The token's line is the first thing written.\<close>

definition open_direct :: "jsval \<Rightarrow> direct_tunnel" where
  "open_direct p =
    \<lparr>dt_tunnel_port = get_field p ''tunnel_port'', dt_service_port = get_field p ''service_port'',
     dt_to_tunnel = js_string (get_field p ''token'') @ [newline], dt_to_local = [],
     dt_tunnel_ended = False, dt_local_ended = False\<rparr>"

datatype direct_event = FromTunnel string | FromLocal string | TunnelEnds | LocalEnds

fun direct_step :: "direct_event \<Rightarrow> direct_tunnel \<Rightarrow> direct_tunnel" where
  "direct_step (FromTunnel b) s = (if dt_local_ended s then s else s\<lparr>dt_to_local := dt_to_local s @ b\<rparr>)"
| "direct_step (FromLocal b) s = (if dt_tunnel_ended s then s else s\<lparr>dt_to_tunnel := dt_to_tunnel s @ b\<rparr>)"
| "direct_step TunnelEnds s = s\<lparr>dt_local_ended := True\<rparr>"
| "direct_step LocalEnds s = s\<lparr>dt_tunnel_ended := True\<rparr>"

fun from_tunnel :: "direct_event list \<Rightarrow> string" where
  "from_tunnel [] = []"
| "from_tunnel (FromTunnel b # es) = b @ from_tunnel es"
| "from_tunnel (TunnelEnds # es) = []"
| "from_tunnel (_ # es) = from_tunnel es"

fun from_local :: "direct_event list \<Rightarrow> string" where
  "from_local [] = []"
| "from_local (FromLocal b # es) = b @ from_local es"
| "from_local (LocalEnds # es) = []"
| "from_local (_ # es) = from_local es"

lemma direct_to_local:
  "dt_to_local (fold direct_step es s) = dt_to_local s @ (if dt_local_ended s then [] else from_tunnel es)"
proof (induction es arbitrary: s)
  case (Cons e es)
  then show ?case by (cases e) auto
qed simp

lemma direct_to_tunnel:
  "dt_to_tunnel (fold direct_step es s) = dt_to_tunnel s @ (if dt_tunnel_ended s then [] else from_local es)"
proof (induction es arbitrary: s)
  case (Cons e es)
  then show ?case by (cases e) auto
qed simp

text \<open>The service gets what the tunnel sent and nothing else; the tunnel gets the token's line, then
  what the service sent.\<close>

lemma direct_bytes:
  "dt_to_local (fold direct_step es (open_direct p)) = from_tunnel es \<and>
   dt_to_tunnel (fold direct_step es (open_direct p)) = js_string (get_field p ''token'') @ newline # from_local es"
  by (simp add: direct_to_local direct_to_tunnel open_direct_def)

section \<open>The figures of the pool\<close>

definition preconnect_status :: "pool_state \<Rightarrow> int \<times> int \<times> int \<times> nat \<times> bool" where
  "preconnect_status s =
    (int (length (pool s)), pending s, target_pool_count, consecutive_failures s, suspended s)"

end
