(* ===== verification/Hub_Session.thy ===== *)
theory Hub_Session
  imports Socket_Channel Agent_Laws Terminal_Laws Link_Laws Updater System_Metrics Direct_Tunnel
begin

text \<open>
  \<open>onModuleInit\<close> of \<open>tunnel.service.ts\<close>: the one socket to the Hub, with the listener, its replay guard
  and the handlers it registers, joined to the components they call. A packet passes the listener
  under the secret in force at that moment; only when the listener runs the handler does it reach
  a component. Beside packets there are the events the components meet locally: what Docker, the SSH
  clients and the Dashboard do, samples, and a restart of the process. A session id is a text, as
  its type says. The reverse tunnel pool has its own machine; here its start is an effect.
\<close>

section \<open>State and surroundings\<close>

record hub_session =
  hs_guard :: replay_guard
  hs_link :: hub_link
  hs_agent :: agent
  hs_terminal :: terminal
  hs_sampler :: sampler

text \<open>What does not change while the program is installed\<close>

record hub_setup =
  hu_mac :: mac_fun
  hu_sha1 :: "string \<Rightarrow> string"
  hu_config :: config
  hu_parse_date :: "string \<Rightarrow> int option"
  hu_read :: "string \<Rightarrow> string + string"
  hu_ssh :: ssh_env
  hu_version :: jsval
  hu_quot :: "jsnum \<Rightarrow> jsnum \<Rightarrow> jsnum"

text \<open>
  What the outside answers while one packet is handled: the clock, the writes the database refuses,
  Docker and the rest of the environment, the agent's view of its own container, the number of the
  next log process of the updater, the proxied service and \<open>fetch\<close>, and whether \<open>net.connect\<close> refuses
  the ports of a tunnel by throwing.
\<close>

record world =
  wo_clock :: rat
  wo_ms :: int
  wo_db :: db_fault
  wo_env :: env
  wo_self :: self_view
  wo_follower :: nat
  wo_port :: "jsval \<Rightarrow> int option"
  wo_fetched :: "string option"
  wo_dial :: "jsval \<Rightarrow> jsval \<Rightarrow> string option"

datatype session_effect =
    OnLink link_effect
  | OnAgent effect
  | OnTerminal term_effect
  | OnMetrics string jsval
  | OpenTunnel direct_tunnel

section \<open>The handlers\<close>

type_synonym session_op = "hub_session \<Rightarrow> handler_result \<times> hub_session \<times> session_effect list"

definition lift_link :: "link_op \<Rightarrow> session_op" where
  "lift_link f s =
    (case f (hs_link s) of (r, l, out) \<Rightarrow>
       (case r of None \<Rightarrow> Returns | Some e \<Rightarrow> Rejects e, s\<lparr>hs_link := l\<rparr>, map OnLink out))"

definition lift_agent :: "env \<Rightarrow> (agent, unit) op \<Rightarrow> session_op" where
  "lift_agent env m s =
    (case m env (hs_agent s) [] of (r, a, tr) \<Rightarrow>
       (case r of Inl e \<Rightarrow> Rejects e | Inr _ \<Rightarrow> Returns, s\<lparr>hs_agent := a\<rparr>, map OnAgent tr))"

definition lift_terminal :: "(terminal \<Rightarrow> terminal \<times> term_effect list) \<Rightarrow> session_op" where
  "lift_terminal f s =
    (case f (hs_terminal s) of (t, out) \<Rightarrow> (Returns, s\<lparr>hs_terminal := t\<rparr>, map OnTerminal out))"

definition no_reaction :: session_op where
  "no_reaction s = (Returns, s, [])"

definition with_session :: "jsval \<Rightarrow> (string \<Rightarrow> session_op) \<Rightarrow> session_op" where
  "with_session p f = (case get_field p ''sessionId'' of JStr i \<Rightarrow> f i | _ \<Rightarrow> no_reaction)"

definition metrics_reply :: "hub_setup \<Rightarrow> world \<Rightarrow> jsval \<Rightarrow> session_op" where
  "metrics_reply k w p s =
    (case on_metrics_request (hu_quot k) (wo_ms w) p (hs_sampler s) of (event, reply) \<Rightarrow>
       (Returns, s, [OnMetrics event reply]))"

definition tunnel_connect :: "world \<Rightarrow> jsval \<Rightarrow> session_op" where
  "tunnel_connect w p s =
    (case wo_dial w (get_field p ''tunnel_port'') (get_field p ''service_port'') of
       Some e \<Rightarrow> (Throws e, s, [])
     | None \<Rightarrow> (Returns, s, [OpenTunnel (open_direct p)]))"

definition terminal_op :: "hub_setup \<Rightarrow> term_event \<Rightarrow> session_op" where
  "terminal_op k e = lift_terminal (term_step (hu_read k) (hu_ssh k) e)"

text \<open>The answer to a registration reads \<open>payload.code\<close> first.\<close>

definition registration :: "world \<Rightarrow> jsval \<Rightarrow> session_op" where
  "registration w p s =
    (if nullish p then (Rejects ''Cannot read properties of undefined'', s, [])
     else lift_link (on_register (wo_db w) p) s)"

definition hub_handlers :: "hub_setup \<Rightarrow> world \<Rightarrow> jsval \<Rightarrow> (string \<times> session_op) list" where
  "hub_handlers k w p =
    [(''connect'', lift_link (on_hub_connect (hu_version k))),
     (''register'', registration w p),
     (''disconnect'', no_reaction),
     (''system-metrics-request'', metrics_reply k w p),
     (''terminal-open'', with_session p (\<lambda>i.
        terminal_op k (HubOpen i (get_field p ''cols'') (get_field p ''rows'')))),
     (''terminal-input'', with_session p (\<lambda>i. terminal_op k (HubInput i (get_field p ''data'')))),
     (''terminal-resize'', with_session p (\<lambda>i.
        terminal_op k (HubResize i (get_field p ''cols'') (get_field p ''rows'')))),
     (''terminal-close'', with_session p (\<lambda>i. terminal_op k (HubClose i))),
     (''command'', lift_agent (wo_env w) (on_command (hu_sha1 k) (hu_config k) (hu_parse_date k) p)),
     (''connect-request'', lift_link (on_connect_request (wo_db w) p)),
     (''reverse-proxy'', lift_link (fetch_json (wo_port w) (wo_fetched w) p)),
     (''tunnel-connect'', tunnel_connect w p),
     (''update-agent'', lift_agent (wo_env w) (on_update_agent (wo_self w) p (wo_follower w)))]"

section \<open>A packet\<close>

text \<open>
  The secret in force. A registration may bring a value that is no text; on a payload with an envelope
  \<open>createHmac\<close> then throws a type error, before anything is canonicalised or compared.
\<close>

definition secret_text :: "jsval \<Rightarrow> string option" where
  "secret_text v = (case v of JStr t \<Rightarrow> Some t | _ \<Rightarrow> None)"

definition unusable_secret :: "jsval \<Rightarrow> bool" where
  "unusable_secret v = (truthy v \<and> secret_text v = None)"

definition under_unusable :: "mac_fun \<Rightarrow> rat \<Rightarrow> string \<Rightarrow> jsval \<Rightarrow> replay_guard \<Rightarrow> listen_effect list" where
  "under_unusable mac t event p g =
    (case envelope_of p of
       None \<Rightarrow> fst (on_event mac t (Some ''any'') (\<lambda>_. Returns) event p g)
     | Some (sig, ts, n) \<Rightarrow> [Threw (TypeError ''The key argument must be of type string'')])"

definition hear ::
    "hub_setup \<Rightarrow> rat \<Rightarrow> jsval \<Rightarrow> handler_result \<Rightarrow> string \<Rightarrow> jsval \<Rightarrow> replay_guard \<Rightarrow>
     listen_effect list \<times> replay_guard" where
  "hear k t secret r event p g =
    (if unusable_secret secret \<and> event \<notin> set unverified_events
     then (under_unusable (hu_mac k) t event p g, g)
     else on_event (hu_mac k) t (secret_text secret) (\<lambda>_. r) event p g)"

definition receive_packet ::
    "hub_setup \<Rightarrow> world \<Rightarrow> string \<Rightarrow> jsval \<Rightarrow> hub_session \<Rightarrow>
     hub_session \<times> listen_effect list \<times> session_effect list" where
  "receive_packet k w event p s =
    (case map_of (hub_handlers k w p) event of
       None \<Rightarrow> (s, [], [])
     | Some h \<Rightarrow>
         (case h s of (r, s', out) \<Rightarrow>
            (case hear k (wo_clock w) (lk_secret (hs_link s)) r event p (hs_guard s) of (heard, g) \<Rightarrow>
               if Invoked event p \<in> set heard then (s'\<lparr>hs_guard := g\<rparr>, heard, out)
               else (s\<lparr>hs_guard := g\<rparr>, heard, []))))"

section \<open>The process\<close>

text \<open>A new process: everything but the table \<open>AgentInfo\<close> is made anew.\<close>

definition start_session :: "hub_link \<Rightarrow> hub_session" where
  "start_session l =
    \<lparr>hs_guard = fresh_listener_guard, hs_link = fst (snd (link_start l)),
     hs_agent = agent_start\<lparr>ag_hub := True\<rparr>, hs_terminal = terminal_start, hs_sampler = sampler_start\<rparr>"

datatype session_event =
    FromHub world string jsval
  | NewProcess
  | Docker env status_event
  | LogProcessEnds env string nat
  | Ssh term_event
  | HttpRequest db_fault jsval
  | Reply string "string option" bool
  | SampleCpu jsnum
  | SampleMemory int int
  | DrainMetrics int int "nat \<Rightarrow> bool"

fun session_step :: "hub_setup \<Rightarrow> session_event \<Rightarrow> hub_session \<Rightarrow> hub_session \<times> session_effect list" where
  "session_step k (FromHub w event p) s = (case receive_packet k w event p s of (s', heard, out) \<Rightarrow> (s', out))"
| "session_step k NewProcess s = (start_session (hs_link s), [])"
| "session_step k (Docker env ev) s = snd (lift_agent env (on_status_event (hu_sha1 k) (hu_config k) ev) s)"
| "session_step k (LogProcessEnds env c n) s = snd (lift_agent env (on_stream_close c n) s)"
| "session_step k (Ssh e) s = snd (terminal_op k e s)"
| "session_step k (HttpRequest db body) s = snd (lift_link (receive_connect_request db body) s)"
| "session_step k (Reply url f a) s = snd (lift_link (respond_to_request url f a) s)"
| "session_step k (SampleCpu u) s = (s\<lparr>hs_sampler := collect_cpu u (hs_sampler s)\<rparr>, [])"
| "session_step k (SampleMemory t f) s = (s\<lparr>hs_sampler := collect_mem t f (hs_sampler s)\<rparr>, [])"
| "session_step k (DrainMetrics now later fails) s =
    (s\<lparr>hs_sampler := snd (update_performance (hu_quot k) now later fails (hs_sampler s))\<rparr>, [])"

fun session_run :: "hub_setup \<Rightarrow> session_event list \<Rightarrow> hub_session \<Rightarrow> hub_session \<times> session_effect list" where
  "session_run k [] s = (s, [])"
| "session_run k (e # es) s =
    (case session_step k e s of (s', out) \<Rightarrow> case session_run k es s' of (s'', out') \<Rightarrow> (s'', out @ out'))"

end
