(* ===== verification/Session_Laws.thy ===== *)
theory Session_Laws
  imports Hub_Session
begin

text \<open>
  What holds of the agent as a whole: packets that are not signed with its secret have no influence,
  the tables of all components stay well formed together, and the two ways around the signatures:
  a registration answer, which is taken unsigned, and a new process, which has forgotten the nonces.
\<close>

section \<open>Parts of the state\<close>

lemma lift_parts [simp]:
  "hs_link (fst (snd (lift_link f s))) = fst (snd (f (hs_link s)))"
  "hs_agent (fst (snd (lift_link f s))) = hs_agent s"
  "hs_terminal (fst (snd (lift_link f s))) = hs_terminal s"
  "hs_guard (fst (snd (lift_link f s))) = hs_guard s"
  "hs_link (fst (snd (lift_agent env m s))) = hs_link s"
  "hs_agent (fst (snd (lift_agent env m s))) = fst (snd (m env (hs_agent s) []))"
  "hs_terminal (fst (snd (lift_agent env m s))) = hs_terminal s"
  "hs_guard (fst (snd (lift_agent env m s))) = hs_guard s"
  "hs_link (fst (snd (terminal_op k e s))) = hs_link s"
  "hs_agent (fst (snd (terminal_op k e s))) = hs_agent s"
  "hs_terminal (fst (snd (terminal_op k e s))) = fst (term_step (hu_read k) (hu_ssh k) e (hs_terminal s))"
  "hs_guard (fst (snd (terminal_op k e s))) = hs_guard s"
  by (simp_all add: lift_link_def lift_agent_def terminal_op_def lift_terminal_def split: prod.split)

text \<open>A condition on sessions that a handler keeps\<close>

definition keeps_session :: "(hub_session \<Rightarrow> bool) \<Rightarrow> session_op \<Rightarrow> bool" where
  "keeps_session Q h = (\<forall>s. Q s \<longrightarrow> Q (fst (snd (h s))))"

lemma keeps_no_reaction: "keeps_session Q no_reaction"
  by (simp add: keeps_session_def no_reaction_def)

lemma keeps_with_session: "(\<And>i. keeps_session Q (f i)) \<Longrightarrow> keeps_session Q (with_session p f)"
  unfolding with_session_def by (simp add: keeps_no_reaction split: jsval.split)

lemma keeps_replies:
  "keeps_session Q (metrics_reply k w p)" "keeps_session Q (tunnel_connect w p)"
  by (simp_all add: keeps_session_def metrics_reply_def tunnel_connect_def split: prod.split option.split)

lemma keeps_registration:
  "keeps_session Q (lift_link (on_register (wo_db w) p)) \<Longrightarrow> keeps_session Q (registration w p)"
  by (simp add: keeps_session_def registration_def)

text \<open>
  The handlers keep a condition when the operations on the identity, the agent and the terminals do.
\<close>

lemma keeps_handlers:
  assumes "keeps_session Q (lift_link (on_hub_connect (hu_version k)))"
    and "event = ''register'' \<Longrightarrow> keeps_session Q (lift_link (on_register (wo_db w) p))"
    and "keeps_session Q (lift_link (on_connect_request (wo_db w) p))"
    and "keeps_session Q (lift_link (fetch_json (wo_port w) (wo_fetched w) p))"
    and "\<And>e. keeps_session Q (terminal_op k e)"
    and "keeps_session Q (lift_agent (wo_env w) (on_command (hu_sha1 k) (hu_config k) (hu_parse_date k) p))"
    and "keeps_session Q (lift_agent (wo_env w) (on_update_agent (wo_self w) p (wo_follower w)))"
    and "map_of (hub_handlers k w p) event = Some h"
  shows "keeps_session Q h"
  using assms(8) unfolding hub_handlers_def map_of.simps fst_conv snd_conv
  by (auto split: if_split_asm intro!: assms(1-7) keeps_no_reaction keeps_with_session keeps_replies keeps_registration)

text \<open>A packet leaves the session as it was or as its handler left it, but for the guard.\<close>

lemma receive_packet_cases:
  obtains "fst (receive_packet k w event p s) = s"
  | h g heard where "map_of (hub_handlers k w p) event = Some h"
    and "hear k (wo_clock w) (lk_secret (hs_link s)) (fst (h s)) event p (hs_guard s) = (heard, g)"
    and "fst (receive_packet k w event p s) = (fst (snd (h s)))\<lparr>hs_guard := g\<rparr> \<or>
      fst (receive_packet k w event p s) = s\<lparr>hs_guard := g\<rparr>"
proof (cases "map_of (hub_handlers k w p) event")
  case None
  then show thesis by (intro that(1)) (simp add: receive_packet_def)
next
  case (Some h)
  obtain r s' out where h: "h s = (r, s', out)" by (cases "h s") auto
  obtain heard g where g: "hear k (wo_clock w) (lk_secret (hs_link s)) r event p (hs_guard s) = (heard, g)"
    by (cases "hear k (wo_clock w) (lk_secret (hs_link s)) r event p (hs_guard s)") auto
  show thesis
    using Some h g by (intro that(2)[OF Some]) (auto simp: receive_packet_def)
qed

section \<open>Samples\<close>

definition keyed_mac :: mac_fun where
  "keyed_mac k m = replicate 64 (if k = ''intruder'' then CHR ''b'' else CHR ''a'')"

definition sample_setup :: hub_setup where
  "sample_setup = \<lparr>hu_mac = keyed_mac, hu_sha1 = sample_sha1, hu_config = sample_config,
     hu_parse_date = (\<lambda>_. None), hu_read = no_file, hu_ssh = sample_ssh, hu_version = JStr ''1.0.0'',
     hu_quot = (\<lambda>a b. a)\<rparr>"

definition blind_view :: self_view where
  "blind_view = \<lparr>sv_inspect = (\<lambda>_. Inl ''gone''), sv_siblings = (\<lambda>_. Inl ''gone''), sv_mountinfo = None,
     sv_hostname = [], sv_image = None, sv_script = Inl ''gone''\<rparr>"

definition world_at :: "rat \<Rightarrow> world" where
  "world_at t = \<lparr>wo_clock = t, wo_ms = 0, wo_db = no_fault, wo_env = sample_env, wo_self = blind_view,
     wo_follower = 0, wo_port = (\<lambda>_. None), wo_fetched = None, wo_dial = (\<lambda>_ _. None)\<rparr>"

definition disconnect_command :: "char \<Rightarrow> jsval" where
  "disconnect_command c = JObj 3 [(''command'', JStr ''DISCONNECT''), (''_ts'', JNum (num_of_int 1000)),
     (''_nonce'', JStr ''ab''), (''_sig'', JStr (replicate 64 c))]"

text \<open>A command signed with the secret \<open>intruder\<close>, one with any other, and an unsigned one\<close>

abbreviation "command_by_intruder \<equiv> FromHub (world_at 1500) ''command'' (disconnect_command (CHR ''b''))"
abbreviation "command_by_hub \<equiv> FromHub (world_at 1500) ''command'' (disconnect_command (CHR ''a''))"
abbreviation "unsigned_command \<equiv> FromHub (world_at 1500) ''command'' (JObj 3 [(''command'', JStr ''DISCONNECT'')])"

text \<open>The agent holds the secret \<open>s1\<close>.\<close>

definition known_session :: hub_session where
  "known_session = start_session known_agent"

lemma known_sealed: "sealed ''s1'' (hs_link known_session)"
  by (simp add: known_session_def start_session_def known_agent_def sealed_def link_start_def row_value_def jm_get_def)

section \<open>Packets without a valid signature\<close>

lemma forged_on_event:
  assumes "event \<notin> set unverified_events" "\<not> authentic mac key event p"
  shows "snd (on_event mac t (Some key) h event p g) = g \<and> Invoked e x \<notin> set (fst (on_event mac t (Some key) h event p g))"
proof -
  obtain r g' where v: "verify mac t event p (Some key) default_options (Some g) = (r, g')"
    by (cases "verify mac t event p (Some key) default_options (Some g)") auto
  with forged_verify[OF assms(2), of t default_options "Some g"] have "g' = Some g" "r \<noteq> Inr VOk" by auto
  then show ?thesis
    using assms(1) v by (auto simp: on_event_def split: sum.split verify_result.split)
qed

fun forged :: "hub_setup \<Rightarrow> string \<Rightarrow> session_event \<Rightarrow> bool" where
  "forged k key (FromHub w event p) =
    (event \<notin> set unverified_events \<and> \<not> authentic (hu_mac k) key event p)"
| "forged k key _ = False"

text \<open>No answer to a registration brings another secret.\<close>

fun same_secret :: "string \<Rightarrow> session_event \<Rightarrow> bool" where
  "same_secret key (FromHub w event p) =
    (event = ''register'' \<longrightarrow> brings_secret (Register (wo_db w) p) \<in> {None, Some (JStr key)})"
| "same_secret key _ = True"

lemma forged_step:
  assumes "forged k key e" "sealed key (hs_link s)"
  shows "session_step k e s = (s, [])"
proof (cases e)
  case (FromHub w event p)
  then have f: "event \<notin> set unverified_events" "\<not> authentic (hu_mac k) key event p" using assms(1) by simp_all
  have secret: "lk_secret (hs_link s) = JStr key" using assms(2) by (simp add: sealed_def)
  have "receive_packet k w event p s = (s, snd (receive_packet k w event p s)) \<and> snd (snd (receive_packet k w event p s)) = []"
  proof (cases "map_of (hub_handlers k w p) event")
    case (Some h)
    obtain r s' out where h: "h s = (r, s', out)" by (cases "h s") auto
    let ?o = "on_event (hu_mac k) (wo_clock w) (Some key) (\<lambda>_. r) event p (hs_guard s)"
    have "hear k (wo_clock w) (lk_secret (hs_link s)) r event p (hs_guard s) = ?o"
      by (simp add: hear_def unusable_secret_def secret_text_def secret)
    then show ?thesis
      using Some h forged_on_event[OF f, of "wo_clock w" "\<lambda>_. r" "hs_guard s"]
      by (cases ?o) (simp add: receive_packet_def)
  qed (simp add: receive_packet_def)
  then show ?thesis using FromHub by (cases "receive_packet k w event p s") auto
qed (use assms in simp_all)

lemma keeps_session_link:
  assumes "keeps_link I f"
  shows "keeps_session (\<lambda>s. I (hs_link s)) (lift_link f)"
  using assms by (simp add: keeps_session_def keeps_link_def)

lemma sealed_step:
  assumes "same_secret key e" "sealed key (hs_link s)"
  shows "sealed key (hs_link (fst (session_step k e s)))"
proof -
  have link: "keeps_session (\<lambda>s. sealed key (hs_link s)) (lift_link (handle_link l))"
    if "\<And>v. brings_secret l = Some v \<Longrightarrow> v = JStr key" for l
    using that by (intro keeps_session_link sealing.keeps_handle) blast
  show ?thesis
  proof (cases e)
    case (FromHub w event p)
    have h: "keeps_session (\<lambda>s. sealed key (hs_link s)) h"
      if "map_of (hub_handlers k w p) event = Some h" for h
    proof (rule keeps_handlers[OF _ _ _ _ _ _ _ that])
      show "keeps_session (\<lambda>s. sealed key (hs_link s)) (lift_link (on_hub_connect (hu_version k)))"
        using link[of "Connected (hu_version k)"] by (simp add: brings_secret_def)
      show "keeps_session (\<lambda>s. sealed key (hs_link s)) (lift_link (on_register (wo_db w) p))"
        if "event = ''register''"
        using link[of "Register (wo_db w) p"] that assms(1) FromHub by auto
      show "keeps_session (\<lambda>s. sealed key (hs_link s)) (lift_link (on_connect_request (wo_db w) p))"
        using link[of "ConnectRequest (wo_db w) p"] by (simp add: brings_secret_def)
      show "keeps_session (\<lambda>s. sealed key (hs_link s)) (lift_link (fetch_json (wo_port w) (wo_fetched w) p))"
        using link[of "ReverseProxy (wo_port w) (wo_fetched w) p"] by (simp add: brings_secret_def)
    qed (simp_all add: keeps_session_def)
    have "sealed key (hs_link (fst (receive_packet k w event p s)))"
      by (rule receive_packet_cases[of k w event p s]) (use assms(2) h in \<open>auto simp: keeps_session_def\<close>)
    then show ?thesis using FromHub by (simp add: case_prod_beta)
  next
    case NewProcess
    then show ?thesis
      using assms(2) by (simp add: start_session_def sealed_def link_start_def row_value_def)
  next
    case (HttpRequest db body)
    then show ?thesis
      using link[of "HttpConnectRequest db body"] assms(2) by (simp add: brings_secret_def keeps_session_def)
  next
    case (Reply url f a)
    then show ?thesis
      using link[of "Respond url f a"] assms(2) by (simp add: brings_secret_def keeps_session_def)
  qed (use assms(2) in simp_all)
qed

text \<open>C12: packets of the events that need a signature, that is all but \<open>register\<close>, \<open>connect\<close> and
  \<open>disconnect\<close>, have no influence when they are not signed with the agent's secret. This is for a
  process and a table that hold one secret, as long as no registration answer brings another (C14 shows
  what such an answer does): deleting every such packet from any sequence of events changes neither the
  state the sequence leads to, the replay guard included, nor anything the agent does on the way: no
  command, no terminal, no tunnel, no update, no stored request, no reply, and no nonce is spent.\<close>

theorem forged_packets_inert:
  assumes "sealed key (hs_link s)" "list_all (same_secret key) es"
  shows "session_run k es s = session_run k (filter (\<lambda>e. \<not> forged k key e) es) s"
  using assms
proof (induction es arbitrary: s)
  case (Cons e es)
  then have "sealed key (hs_link (fst (session_step k e s)))" by (simp add: sealed_step)
  from Cons.IH[OF this] Cons.prems forged_step[of k key e s] show ?case
    by (cases "session_step k e s") auto
qed simp

theorem forged_packets_inert_witness:
  "snd (session_run sample_setup [command_by_intruder, unsigned_command, command_by_hub] known_session) =
     snd (session_run sample_setup [command_by_hub] known_session) \<and>
   snd (session_run sample_setup [command_by_hub] known_session) =
     [OnAgent Disconnect, OnAgent (Hub ''response'' (PResponse empty_response))]"
proof
  let ?es = "[command_by_intruder, unsigned_command, command_by_hub]"
  have s: "list_all (same_secret ''s1'') ?es" by simp
  have "forged sample_setup ''s1'' command_by_intruder" "forged sample_setup ''s1'' unsigned_command"
    "\<not> forged sample_setup ''s1'' command_by_hub" by code_simp+
  then have f: "filter (\<lambda>e. \<not> forged sample_setup ''s1'' e) ?es = [command_by_hub]" by simp
  show "snd (session_run sample_setup ?es known_session) = snd (session_run sample_setup [command_by_hub] known_session)"
    using forged_packets_inert[OF known_sealed s, of sample_setup] unfolding f by (rule arg_cong)
  show "snd (session_run sample_setup [command_by_hub] known_session) =
     [OnAgent Disconnect, OnAgent (Hub ''response'' (PResponse empty_response))]" by code_simp
qed

section \<open>A secret that is no text\<close>

text \<open>C10: what can be thrown out of a listener's callback. On an acyclic payload made by a JSON parser a
  callback throws exactly when the event needs a signature, the secret is a value that is no text,
  which a registration answer can bring, and the payload carries an envelope; then the packet is
  lost and the guard as it was. Otherwise nothing escapes: a handler that runs has its failure, thrown or
  rejected, logged.\<close>

theorem listener_throws_iff:
  assumes "parsed p" "\<not> cyclic {} p"
  shows "(threw (fst (hear k t secret r event p g)) \<longleftrightarrow>
      event \<notin> set unverified_events \<and> unusable_secret secret \<and> envelope_of p \<noteq> None) \<and>
    (threw (fst (hear k t secret r event p g)) \<longrightarrow>
      hear k t secret r event p g = ([Threw (TypeError ''The key argument must be of type string'')], g)) \<and>
    (Invoked event p \<in> set (fst (hear k t secret r event p g)) \<longrightarrow>
      fst (hear k t secret r event p g) = invoke event (\<lambda>_. r) p)"
proof (cases "unusable_secret secret \<and> event \<notin> set unverified_events")
  case True
  then have h: "hear k t secret r event p g = (under_unusable (hu_mac k) t event p g, g)" by (simp add: hear_def)
  show ?thesis
  proof (cases "envelope_of p")
    case None
    have "\<not> threw (fst (on_event (hu_mac k) t (Some ''any'') (\<lambda>_. Returns) event p g))"
      by (rule listener_never_throws[OF assms])
    moreover have "Invoked event p \<notin> set (fst (on_event (hu_mac k) t (Some ''any'') (\<lambda>_. Returns) event p g))"
      using verify_no_envelope[of "Some ''any''" p "hu_mac k" t event default_options "Some g"] True None
      by (auto simp: handler_runs_iff)
    ultimately show ?thesis unfolding h by (simp add: under_unusable_def None)
  next
    case (Some e)
    then show ?thesis unfolding h using True
      by (cases e) (simp add: under_unusable_def threw_def)
  qed
next
  case False
  then have h: "hear k t secret r event p g = on_event (hu_mac k) t (secret_text secret) (\<lambda>_. r) event p g"
    by (auto simp: hear_def)
  have "\<not> threw (fst (hear k t secret r event p g))" unfolding h by (rule listener_never_throws[OF assms])
  moreover have "fst (hear k t secret r event p g) = invoke event (\<lambda>_. r) p"
    if "Invoked event p \<in> set (fst (hear k t secret r event p g))"
    using that unfolding h by (auto simp: on_event_def split: sum.splits verify_result.splits if_splits prod.splits)
  ultimately show ?thesis using False by blast
qed

theorem listener_throws_iff_witness:
  "(let s = fst (session_step sample_setup (FromHub (world_at 1500) ''register'' (ok_answer (JNum (num_of_int 5)))) known_session) in
     unusable_secret (lk_secret (hs_link s)) \<and>
     threw (fst (hear sample_setup 1500 (lk_secret (hs_link s)) Returns ''command'' (disconnect_command (CHR ''a'')) (hs_guard s))))"
proof -
  let ?p = "disconnect_command (CHR ''a'')"
  let ?s = "fst (session_step sample_setup (FromHub (world_at 1500) ''register'' (ok_answer (JNum (num_of_int 5)))) known_session)"
  have p: "parsed ?p" "\<not> cyclic {} ?p" by code_simp+
  have c: "''command'' \<notin> set unverified_events" "unusable_secret (lk_secret (hs_link ?s))" "envelope_of ?p \<noteq> None"
    by code_simp+
  with listener_throws_iff[OF p, of sample_setup 1500 "lk_secret (hs_link ?s)" Returns "''command''" "hs_guard ?s"]
  show ?thesis by (simp add: Let_def)
qed

section \<open>The tables of all components\<close>

text \<open>Client \<open>n\<close> was created for the session id \<open>i\<close>.\<close>

definition made_for :: "terminal \<Rightarrow> string \<Rightarrow> nat \<Rightarrow> bool" where
  "made_for t i n = (n < length (tm_clients t) \<and> cl_id (tm_clients t ! n) = i)"

definition terminal_safe :: "terminal \<Rightarrow> bool" where
  "terminal_safe t =
    (\<forall>i s. jm_get (tm_sessions t) i = Some s \<longrightarrow>
      made_for t i (te_client s) \<and> (\<forall>m. te_stream s = Some m \<longrightarrow> made_for t i m))"

lemma made_for_set_client:
  assumes "n < length (tm_clients t)" "cl_id c = cl_id (tm_clients t ! n)"
  shows "made_for (set_client n c t) i m = made_for t i m"
  using assms by (cases "n = m") (auto simp: made_for_def set_client_def)

lemma made_for_sessions [simp]: "made_for (t\<lparr>tm_sessions := m\<rparr>) i n = made_for t i n"
  by (simp add: made_for_def)

lemma sessions_set_client [simp]: "tm_sessions (set_client n c t) = tm_sessions t"
  by (simp add: set_client_def)

lemma safe_set_client:
  "terminal_safe t \<Longrightarrow> n < length (tm_clients t) \<Longrightarrow> cl_id c = cl_id (tm_clients t ! n) \<Longrightarrow>
    terminal_safe (set_client n c t)"
  by (simp add: terminal_safe_def made_for_set_client)

lemma safe_finish: "terminal_safe t \<Longrightarrow> terminal_safe (fst (finish i r t))"
  by (auto simp: finish_def terminal_safe_def jsm.kv_laws split: option.split)

lemma safe_finish_all: "terminal_safe t \<Longrightarrow> terminal_safe (fst (finish_all ks t))"
proof (induction ks arbitrary: t)
  case (Cons i ks)
  obtain t' out where f: "finish i None t = (t', out)" by (cases "finish i None t") auto
  then have "terminal_safe t'" using safe_finish[OF Cons.prems, of i None] by simp
  from Cons.IH[OF this] show ?case by (simp add: f case_prod_beta)
qed simp

lemma safe_open: "terminal_safe t \<Longrightarrow> terminal_safe (fst (open_terminal read env i cols rows t))"
  unfolding open_terminal_def terminal_safe_def made_for_def
  by (fastforce simp: jsm.kv_laws nth_append new_client_def Let_def split: sum.split if_split_asm)

lemma safe_step:
  assumes "terminal_safe t"
  shows "terminal_safe (fst (term_step read env e t))"
proof (cases e)
  case (SshShell n err)
  have attach: "terminal_safe (set_client n c (t\<lparr>tm_sessions := jm_set (cl_id (tm_clients t ! n)) (s\<lparr>te_stream := Some n\<rparr>) (tm_sessions t)\<rparr>))"
    if "n < length (tm_clients t)" "jm_get (tm_sessions t) (cl_id (tm_clients t ! n)) = Some s"
      "cl_id c = cl_id (tm_clients t ! n)" for c s
    using that assms by (intro safe_set_client) (auto simp: terminal_safe_def jsm.kv_laws, auto simp: made_for_def)
  show ?thesis
    using assms SshShell
    by (auto simp: on_shell_def with_client_def safe_set_client intro!: attach safe_finish split: option.split)
next
  case (HubInput i d)
  then show ?thesis using assms by (simp add: terminal_input_def write_terminal_def split: jsval.split)
qed (use assms in \<open>auto simp: safe_open safe_finish safe_finish_all resize_terminal_def destroy_terminals_def
    on_ssh_ready_def on_shell_data_def on_stream_end_def on_ssh_error_def on_ssh_close_def with_client_def
    intro!: safe_finish safe_set_client\<close>)

definition session_inv :: "(string \<Rightarrow> string) \<Rightarrow> hub_session \<Rightarrow> bool" where
  "session_inv sha1 s =
    (agent_inv sha1 (hs_agent s) \<and> terminal_safe (hs_terminal s) \<and> listener_guard (hs_guard s))"

lemma session_inv_start: "session_inv sha1 (start_session l)"
  by (simp add: session_inv_def start_session_def inv_start inv_hub listener_guard_fresh terminal_safe_def
      terminal_start_def jsm.kv_laws)

lemma hear_guard: "listener_guard g \<Longrightarrow> listener_guard (snd (hear k t v r event p g))"
  using on_event_guard[of event g] by (cases "event \<in> set unverified_events") (auto simp: hear_def on_event_def)

lemma keeps_inv_agent:
  assumes "contract (agent_inv sha1) (\<lambda>_. True) (\<lambda>_. True) (\<lambda>_. True) m"
  shows "keeps_session (session_inv sha1) (lift_agent env m)"
proof -
  have "agent_inv sha1 (fst (snd (m env a [])))" if "agent_inv sha1 a" for a
    using contractD[OF assms that, of env "[]"] by (cases "m env a []") auto
  then show ?thesis by (simp add: keeps_session_def session_inv_def)
qed

lemma keeps_inv_others:
  "keeps_session (session_inv sha1) (lift_link f)" "keeps_session (session_inv sha1) (terminal_op k e)"
  by (simp_all add: keeps_session_def session_inv_def safe_step)

lemma keeps_inv_update: "keeps_session (session_inv sha1) (lift_agent env (on_update_agent v p n))"
  unfolding on_update_agent_def update_agent_def throw_or_def
  by (intro keeps_inv_agent) (auto intro!: contracts contract_if split: sum.split option.split)


lemma session_inv_step:
  assumes "hex_sha1 (hu_sha1 k)" "session_inv (hu_sha1 k) s"
  shows "session_inv (hu_sha1 k) (fst (session_step k e s))"
proof -
  let ?I = "session_inv (hu_sha1 k)"
  have agent: "keeps_session ?I (lift_agent env (agent_op (hu_sha1 k) (hu_config k) (hu_parse_date k) a))" for env a
    by (intro keeps_inv_agent agent_op_inv assms(1))
  show ?thesis
  proof (cases e)
    case (FromHub w event p)
    have h: "keeps_session ?I h" if "map_of (hub_handlers k w p) event = Some h" for h
      using agent[of "wo_env w" "Command p"]
      by (intro keeps_handlers[OF _ _ _ _ _ _ _ that] keeps_inv_others keeps_inv_update) simp
    have guard: "?I u \<Longrightarrow> listener_guard g \<Longrightarrow> ?I (u\<lparr>hs_guard := g\<rparr>)" for u g
      by (simp add: session_inv_def)
    have "?I (fst (receive_packet k w event p s))"
    proof (rule receive_packet_cases[of k w event p s])
      fix h g heard
      assume m: "map_of (hub_handlers k w p) event = Some h"
        "hear k (wo_clock w) (lk_secret (hs_link s)) (fst (h s)) event p (hs_guard s) = (heard, g)"
        "fst (receive_packet k w event p s) = (fst (snd (h s)))\<lparr>hs_guard := g\<rparr> \<or>
         fst (receive_packet k w event p s) = s\<lparr>hs_guard := g\<rparr>"
      have "listener_guard (hs_guard s)" using assms(2) by (simp add: session_inv_def)
      then have "listener_guard g"
        using hear_guard[of "hs_guard s" k "wo_clock w" "lk_secret (hs_link s)" "fst (h s)" event p] m(2) by simp
      then show ?thesis using m(3) guard h[OF m(1)] assms(2) by (auto simp: keeps_session_def)
    qed (simp add: assms(2))
    then show ?thesis using FromHub by (simp add: case_prod_beta)
  next
    case (Docker env ev)
    then show ?thesis using agent[of env "DockerEvent ev"] assms(2) by (simp add: keeps_session_def)
  next
    case (LogProcessEnds env c n)
    then show ?thesis using agent[of env "StreamClosed c n"] assms(2) by (simp add: keeps_session_def)
  qed (use assms(2) keeps_inv_others in \<open>auto simp: session_inv_start keeps_session_def\<close>,
      simp_all add: session_inv_def)
qed

inductive session_trans :: "hub_setup \<Rightarrow> hub_session \<Rightarrow> session_event \<Rightarrow> hub_session \<Rightarrow> bool" for k where
  session_transI: "session_step k e s = (t, out) \<Longrightarrow> session_trans k s e t"

inductive_cases session_transE: "session_trans k s e t"

interpretation sessions: step_invariant "\<lambda>s. s = start_session l" "session_trans k"
  "\<lambda>s. hex_sha1 (hu_sha1 k) \<longrightarrow> session_inv (hu_sha1 k) s" for l k
proof unfold_locales
  fix s e t
  assume "hex_sha1 (hu_sha1 k) \<longrightarrow> session_inv (hu_sha1 k) s" "session_trans k s e t"
  moreover from this obtain out where "session_step k e s = (t, out)" by (auto elim: session_transE)
  ultimately show "hex_sha1 (hu_sha1 k) \<longrightarrow> session_inv (hu_sha1 k) t"
    using session_inv_step[of k s e] by simp
qed (simp add: session_inv_start)

lemma reach_run:
  "reach start (session_trans k) s \<Longrightarrow> reach start (session_trans k) (fst (session_run k es s))"
proof (induction es arbitrary: s)
  case (Cons e es)
  have "session_trans k s e (fst (session_step k e s))"
    by (rule session_transI[of _ _ _ _ "snd (session_step k e s)"]) simp
  with Cons.prems have "reach start (session_trans k) (fst (session_step k e s))" by (rule reach_step)
  from Cons.IH[OF this] show ?case by (simp add: case_prod_beta)
qed simp

text \<open>C13: Whatever the Hub sends, signed or not, and whatever Docker, the SSH clients, the Dashboard,
  the samplers and restarts of the process do in between, the state of the whole agent stays well
  formed: the tables of services and log streams satisfy their invariant, the replay guard is one of
  the default window without duplicates, and every terminal session belongs to an SSH client that was
  created for its id, as does its shell. So input for a session never reaches another session's shell.\<close>

theorem session_invariant:
  assumes "hex_sha1 (hu_sha1 k)" "reach (\<lambda>s. s = start_session l) (session_trans k) s"
  shows "session_inv (hu_sha1 k) s \<and>
    (\<forall>i d n. StreamWrite n d \<in> set (snd (write_terminal i d (hs_terminal s))) \<longrightarrow> made_for (hs_terminal s) i n)"
proof -
  have inv: "session_inv (hu_sha1 k) s" using sessions.inv_reach[OF assms(2)] assms(1) by blast
  then show ?thesis
    by (auto simp: session_inv_def terminal_safe_def write_terminal_def session_stream_def split: option.split_asm)
qed


definition busy_session :: hub_session where
  "busy_session = fst (session_run sample_setup
     [Ssh (HubOpen ''t1'' JNull JNull), command_by_hub, Ssh (SshReady 0), Ssh (SshShell 0 None)] known_session)"

theorem session_invariant_witness:
  "session_inv sample_sha1 busy_session \<and> made_for (hs_terminal busy_session) ''t1'' 0 \<and>
   write_terminal ''t1'' ''ls'' (hs_terminal busy_session) = (hs_terminal busy_session, [StreamWrite 0 ''ls''])"
proof -
  have sha: "hu_sha1 sample_setup = sample_sha1" by (simp add: sample_setup_def)
  have "reach (\<lambda>s. s = start_session known_agent) (session_trans sample_setup) busy_session"
    unfolding busy_session_def known_session_def by (intro reach_run reach_start) simp
  note inv = session_invariant[OF _ this, unfolded sha, OF sample_sha1]
  have w: "snd (write_terminal ''t1'' ''ls'' (hs_terminal busy_session)) = [StreamWrite 0 ''ls'']" by code_simp
  then have "StreamWrite 0 ''ls'' \<in> set (snd (write_terminal ''t1'' ''ls'' (hs_terminal busy_session)))" by simp
  then have "made_for (hs_terminal busy_session) ''t1'' 0" using inv by blast
  moreover have "fst (write_terminal ''t1'' ''ls'' (hs_terminal busy_session)) = hs_terminal busy_session"
    by (simp add: write_terminal_def)
  ultimately show ?thesis using inv w by (simp add: prod_eq_iff)
qed

section \<open>Ways around the signature\<close>

lemma hub_handlers_keys: "fst ` set (hub_handlers k w p) = fst ` set (hub_handlers k w' q)"
  by (simp add: hub_handlers_def)

lemma invoked_iff:
  assumes "event \<in> fst ` set (hub_handlers k w p)" "event \<notin> set unverified_events" "lk_secret (hs_link s) = JStr key"
  shows "Invoked event p \<in> set (fst (snd (receive_packet k w event p s))) \<longleftrightarrow>
    fst (verify (hu_mac k) (wo_clock w) event p (Some key) default_options (Some (hs_guard s))) = Inr VOk"
proof -
  obtain h where m: "map_of (hub_handlers k w p) event = Some h"
    using assms(1) by (cases "map_of (hub_handlers k w p) event") (auto simp: map_of_eq_None_iff)
  obtain r s' out where h: "h s = (r, s', out)" by (cases "h s") auto
  let ?o = "on_event (hu_mac k) (wo_clock w) (Some key) (\<lambda>_. r) event p (hs_guard s)"
  have "fst (snd (receive_packet k w event p s)) = fst ?o"
    by (simp add: receive_packet_def m h hear_def unusable_secret_def secret_text_def assms(3) split: prod.split)
  moreover have "fst (verify (hu_mac k) (wo_clock w) event p (Some key) default_options (Some (hs_guard s))) = Inr VOk
      \<Longrightarrow> \<not> no_secret (Some key)"
    by (auto simp: verify_def)
  ultimately show ?thesis using handler_runs_iff[OF assms(2)] by auto
qed

lemma seq_after: "f s = (None, s1, out) \<Longrightarrow> Q (fst (snd (g s1))) \<Longrightarrow> Q (fst (snd (seq_op f g s)))"
  by (simp add: seq_op_def case_prod_beta)

lemma seq_keeps: "Q (fst (snd (f s))) \<Longrightarrow> keeps_link Q g \<Longrightarrow> Q (fst (snd (seq_op f g s)))"
  by (auto simp: seq_op_def keeps_link_def split: prod.split option.split)

lemma upsert_accepted:
  "upsert no_fault j (JStr t) s = (None, s\<lparr>lk_info := jm_set j t (lk_info s)\<rparr>, [])"
  by (simp add: upsert_def no_fault_def set_op_def)

lemma register_ok_seals:
  assumes "get_field d ''uuid'' = JStr u" "get_field d ''signingSecret'' = JStr key" "key \<noteq> []"
  shows "sealed key (fst (snd (register_ok no_fault d l)))"
proof -
  let ?first = "\<lambda>s. (if strictly_equal (lk_uuid s) (JStr u) then skip_op s
      else seq_op (set_op (\<lambda>s. s\<lparr>lk_uuid := JStr u\<rparr>)) (upsert no_fault ''agent-uuid'' (JStr u)) s)"
  let ?second = "seq_op (set_op (\<lambda>s. s\<lparr>lk_secret := JStr key\<rparr>)) (upsert no_fault secret_key (JStr key))"
  let ?rest = "seq_ops [upsert no_fault ''agent-code'' (get_field d ''code''),
      upsert no_fault ''agent-ip'' (get_field d ''ip''), (\<lambda>s. out_op (InitPool (lk_uuid s)) s)]"
  have first: "\<exists>l1. ?first l = (None, l1, [])"
    by (simp add: skip_op_def seq_op_def set_op_def upsert_accepted)
  have rest: "keeps_link (sealed key) ?rest"
    by (intro keeps_seq_ops) (simp add: sealing.keeps_other_row keeps_out_state)
  have second: "sealed key (fst (snd (?second s)))" for s
    by (simp add: seq_op_def set_op_def upsert_accepted sealed_def jsm.kv_laws)
  have form: "register_ok no_fault d = seq_op ?first (seq_op ?second ?rest)"
    using assms(3) by (simp add: register_ok_def Let_def assms(1,2))
  obtain l1 where "?first l = (None, l1, [])" using first by blast
  then show ?thesis
    unfolding form by (rule seq_after) (rule seq_keeps[where Q = "sealed key", OF second rest])
qed

lemma register_seals:
  assumes "get_field p ''code'' = JStr ''ok''" "get_field (get_field p ''data'') ''uuid'' = JStr u"
    and "get_field (get_field p ''data'') ''signingSecret'' = JStr key" "key \<noteq> []"
  shows "sealed key (fst (snd (on_register no_fault p l)))"
proof -
  let ?ok = "on_code p ''ok'' (seq_op (needs_data p) (register_ok no_fault (get_field p ''data'')))"
  let ?others = "seq_ops [on_code p ''deprecated_protocol_version'' (stop_reconnecting p),
      on_code p ''unknown_protocol_version'' (stop_reconnecting p),
      on_code p ''invalid_signature'' (stop_reconnecting p), on_code p ''registration_failed'' (needs_data p)]"
  have "\<not> nullish (get_field p ''data'')"
    using assms(2) by (cases "get_field p ''data''") (auto simp: nullish_def)
  then have "needs_data p l = (None, l, [])" by (simp add: needs_data_def skip_op_def)
  then have "sealed key (fst (snd (?ok l)))"
    unfolding on_code_def using assms(1) register_ok_seals[OF assms(2-4)] by (simp add: seq_after)
  moreover have "keeps_link (sealed key) ?others"
    unfolding on_code_def assms(1) by (intro keeps_seq_ops) (simp add: keeps_skip)
  ultimately have "sealed key (fst (snd (seq_op ?ok ?others l)))" by (rule seq_keeps)
  then show ?thesis by (simp only: on_register_def seq_ops.simps)
qed


lemma receive_registration:
  "fst (receive_packet k w ''register'' p s) = (fst (snd (registration w p s)))\<lparr>hs_guard := hs_guard s\<rparr>"
  by (simp add: receive_packet_def hub_handlers_def hear_def on_event_def unverified_events_def invoke_def
      split: prod.split)

text \<open>C14: A registration answer is taken without a signature even when the agent holds a secret: an
  \<open>ok\<close> answer with a uuid and a secret, from anybody who reaches the socket, replaces the secret in
  the process and in the table, whatever the agent's state. From then on a packet runs its handler
  exactly when it verifies under the new secret, so its sender commands the agent, and the Hub, which
  signs with the old one, no longer does.\<close>

theorem unsigned_answer_takes_over:
  assumes "get_field p ''code'' = JStr ''ok''" "get_field (get_field p ''data'') ''uuid'' = JStr u"
    and "get_field (get_field p ''data'') ''signingSecret'' = JStr key" "key \<noteq> []" "wo_db w = no_fault"
    and "event \<in> fst ` set (hub_handlers k w' q)" "event \<notin> set unverified_events"
  shows "(let s' = fst (session_step k (FromHub w ''register'' p) s) in
     sealed key (hs_link s') \<and>
     (Invoked event q \<in> set (fst (snd (receive_packet k w' event q s'))) \<longleftrightarrow>
       fst (verify (hu_mac k) (wo_clock w') event q (Some key) default_options (Some (hs_guard s))) = Inr VOk))"
proof -
  have p: "\<not> nullish p" using assms(1) by (cases p) (auto simp: nullish_def)
  let ?s = "fst (session_step k (FromHub w ''register'' p) s)"
  have s: "?s = (fst (snd (registration w p s)))\<lparr>hs_guard := hs_guard s\<rparr>"
    by (simp add: receive_registration case_prod_beta)
  have "sealed key (hs_link ?s)"
    unfolding s by (simp add: registration_def p assms(5) register_seals[OF assms(1-4)])
  moreover from this have "lk_secret (hs_link ?s) = JStr key" by (simp add: sealed_def)
  moreover have "hs_guard ?s = hs_guard s" unfolding s by simp
  ultimately show ?thesis
    unfolding Let_def using invoked_iff[OF assms(6,7), of ?s key] by simp
qed

theorem unsigned_answer_takes_over_witness:
  "(let s' = fst (session_step sample_setup (FromHub (world_at 1500) ''register'' (ok_answer (JStr ''intruder''))) known_session) in
     sealed ''intruder'' (hs_link s') \<and>
     Invoked ''command'' (disconnect_command (CHR ''b'')) \<in>
       set (fst (snd (receive_packet sample_setup (world_at 1500) ''command'' (disconnect_command (CHR ''b'')) s'))) \<and>
     snd (session_step sample_setup command_by_hub s') = []) \<and>
   snd (session_step sample_setup command_by_intruder known_session) = []"
proof -
  let ?p = "ok_answer (JStr ''intruder'')" and ?q = "disconnect_command (CHR ''b'')"
  let ?s = "fst (session_step sample_setup (FromHub (world_at 1500) ''register'' ?p) known_session)"
  have p: "get_field ?p ''code'' = JStr ''ok''" "get_field (get_field ?p ''data'') ''uuid'' = JStr ''u1''"
    "get_field (get_field ?p ''data'') ''signingSecret'' = JStr ''intruder''"
    by code_simp+
  have w: "wo_db (world_at 1500) = no_fault" by (simp add: world_at_def)
  have e: "''command'' \<in> fst ` set (hub_handlers sample_setup (world_at 1500) ?q)"
    "''command'' \<notin> set unverified_events"
    by (simp_all add: hub_handlers_def unverified_events_def)
  have v: "fst (verify (hu_mac sample_setup) (wo_clock (world_at 1500)) ''command'' ?q (Some ''intruder'') default_options
      (Some (hs_guard known_session))) = Inr VOk" by code_simp
  have "snd (session_step sample_setup command_by_hub ?s) = []"
    "snd (session_step sample_setup command_by_intruder known_session) = []" by code_simp+
  with unsigned_answer_takes_over[OF p _ w e, of known_session] v show ?thesis by (simp add: Let_def)
qed

text \<open>C15: A new process has forgotten the nonces. A packet that was accepted is accepted again after a
  restart, while its time stamp is within the window and the table holds the same secret: the same
  signed command runs twice.\<close>

theorem restart_forgets_nonces:
  assumes "sealed key (hs_link s)" "sealed key (hs_link s')"
    and "event \<in> fst ` set (hub_handlers k w p)" "event \<notin> set unverified_events"
    and "Invoked event p \<in> set (fst (snd (receive_packet k w event p s)))"
    and "envelope_of p = Some (sig, ts, n)" "\<bar>wo_clock w' - num_val ts\<bar> \<le> default_max_clock_skew_ms"
  shows "Invoked event p \<in> set (fst (snd (receive_packet k w' event p (fst (session_step k NewProcess s')))))"
proof -
  have key: "lk_secret (hs_link s) = JStr key" using assms(1) by (simp add: sealed_def)
  have key': "lk_secret (hs_link (fst (session_step k NewProcess s'))) = JStr key"
    using assms(2) by (simp add: start_session_def sealed_def link_start_def row_value_def)
  have "fst (verify (hu_mac k) (wo_clock w) event p (Some key) default_options (Some (hs_guard s))) = Inr VOk"
    using assms(5) by (simp add: invoked_iff[OF assms(3,4) key])
  then have k: "\<not> no_secret (Some key)" and a: "authentic (hu_mac k) key event p"
    using forged_verify[of "hu_mac k" key event p "wo_clock w"] by (auto simp: verify_def)
  have new: "fst (remember n (num_val ts) fresh_listener_guard)"
    by (simp add: remember_def fresh_listener_guard_def new_guard_def prune_def jm_has_get jsm.kv_laws Let_def)
  have e: "event \<in> fst ` set (hub_handlers k w' p)" using assms(3) hub_handlers_keys by blast
  show ?thesis
    unfolding invoked_iff[OF e assms(4) key']
    using a new assms(6,7) by (auto simp: verify_envelope[OF assms(6) k] authentic_def skew_ok_default
        start_session_def case_prod_beta split: sum.split sum.split_asm)
qed

theorem restart_forgets_nonces_witness:
  "(let s = fst (session_step sample_setup command_by_hub known_session) in
     snd (session_step sample_setup command_by_hub s) = [] \<and>
     Invoked ''command'' (disconnect_command (CHR ''a'')) \<in> set (fst (snd (receive_packet sample_setup (world_at 2500) ''command''
       (disconnect_command (CHR ''a'')) (fst (session_step sample_setup NewProcess s))))))"
proof -
  let ?p = "disconnect_command (CHR ''a'')"
  let ?s = "fst (session_step sample_setup command_by_hub known_session)"
  have sealed: "sealed ''s1'' (hs_link ?s)" by (rule sealed_step[OF _ known_sealed]) simp
  have e: "''command'' \<in> fst ` set (hub_handlers sample_setup (world_at 1500) ?p)"
    "''command'' \<notin> set unverified_events"
    by (simp_all add: hub_handlers_def unverified_events_def)
  have i: "Invoked ''command'' ?p \<in> set (fst (snd (receive_packet sample_setup (world_at 1500) ''command'' ?p known_session)))"
    by code_simp
  have env: "envelope_of ?p = Some (replicate 64 (CHR ''a''), num_of_int 1000, ''ab'')" by code_simp
  have t: "\<bar>wo_clock (world_at 2500) - num_val (num_of_int 1000)\<bar> \<le> default_max_clock_skew_ms"
    by (simp add: world_at_def default_max_clock_skew_ms_def)
  have "snd (session_step sample_setup command_by_hub ?s) = []" by code_simp
  with restart_forgets_nonces[OF known_sealed sealed e i env t] show ?thesis by (simp add: Let_def)
qed

end
