(* ===== verification/Http_Api.thy ===== *)
theory Http_Api
  imports Command_Dispatch Js_Path
begin

text \<open>
  What the dashboard reaches over HTTP, and what is set up around it: the metric queries of
  \<open>app.controller.ts\<close>, the deployment of \<open>service.controller.ts\<close>, where the database is
  (\<open>prisma.service.ts\<close>), and the text logged for a failure nobody handled (\<open>processGuard.util.ts\<close>).
\<close>

section \<open>parseInt\<close>

definition digits_value :: "nat \<Rightarrow> string \<Rightarrow> int" where
  "digits_value base ds = foldl (\<lambda>a c. int base * a + int (hex_val c)) 0 ds"

text \<open>\<open>parseInt\<close> without a radix; \<open>None\<close> is \<open>NaN\<close>.\<close>

definition js_parse_int :: "string \<Rightarrow> int option" where
  "js_parse_int s0 =
    (let s = dropWhile is_space s0;
         neg = (s \<noteq> [] \<and> hd s = CHR ''-'');
         r = (if s \<noteq> [] \<and> (hd s = CHR ''-'' \<or> hd s = CHR ''+'') then tl s else s);
         hex = (js_lower (take 2 r) = ''0x'');
         ds = (if hex then takeWhile is_hex (drop 2 r) else takeWhile is_digit r);
         n = digits_value (if hex then 16 else 10) ds
     in if ds = [] then None else Some (if neg then - n else n))"

section \<open>Metric queries\<close>

record metric_row =
  mr_timestamp :: int
  mr_peak :: jsnum
  mr_average :: jsnum
  mr_min :: jsnum
  mr_total :: "jsnum option"

definition week_ms :: int where
  "week_ms = 7 * 24 * 60 * 60 * 1000"

definition query_bound :: "string option \<Rightarrow> int \<Rightarrow> int option" where
  "query_bound q d = (case q of None \<Rightarrow> Some d | Some s \<Rightarrow> if s = [] then Some d else js_parse_int s)"

definition rows_between :: "int \<Rightarrow> int \<Rightarrow> metric_row list \<Rightarrow> metric_row list" where
  "rows_between a b rows = sort_key mr_timestamp (filter (\<lambda>r. a \<le> mr_timestamp r \<and> mr_timestamp r \<le> b) rows)"

text \<open>
  \<open>getCpuMetrics\<close> and \<open>getMemoryMetrics\<close> over the rows of the table; \<open>None\<close> is a bound that is no
  number, which the database client refuses.
\<close>

definition metrics_between ::
    "int \<Rightarrow> string option \<Rightarrow> string option \<Rightarrow> metric_row list \<Rightarrow> metric_row list option" where
  "metrics_between now f t rows =
    (case (query_bound f (now - week_ms), query_bound t now) of
       (Some a, Some b) \<Rightarrow> Some (rows_between a b rows)
     | _ \<Rightarrow> None)"

definition cpu_row :: "metric_row \<Rightarrow> jsval" where
  "cpu_row r = JObj 0 [(''timestamp'', JNum (num_of_int (mr_timestamp r))), (''peak'', JNum (mr_peak r)),
    (''average'', JNum (mr_average r)), (''min'', JNum (mr_min r))]"

definition memory_row :: "metric_row \<Rightarrow> jsval" where
  "memory_row r = JObj 0 [(''timestamp'', JNum (num_of_int (mr_timestamp r))), (''peak'', JNum (mr_peak r)),
    (''average'', JNum (mr_average r)), (''min'', JNum (mr_min r)),
    (''totalMemory'', case mr_total r of None \<Rightarrow> JNull | Some n \<Rightarrow> JNum n)]"

definition get_cpu_metrics :: "int \<Rightarrow> string option \<Rightarrow> string option \<Rightarrow> metric_row list \<Rightarrow> jsval list option" where
  "get_cpu_metrics now f t rows = map_option (map cpu_row) (metrics_between now f t rows)"

definition get_memory_metrics :: "int \<Rightarrow> string option \<Rightarrow> string option \<Rightarrow> metric_row list \<Rightarrow> jsval list option" where
  "get_memory_metrics now f t rows = map_option (map memory_row) (metrics_between now f t rows)"

text \<open>The answer is in order of time, holds every row between the bounds as often as the table does,
  and no other.\<close>

lemma metrics_between_rows:
  assumes "query_bound f (now - week_ms) = Some a" "query_bound t now = Some b"
    "metrics_between now f t rows = Some out"
  shows "sorted (map mr_timestamp out) \<and> mset out = filter_mset (\<lambda>r. a \<le> mr_timestamp r \<and> mr_timestamp r \<le> b) (mset rows)"
  using assms by (auto simp: metrics_between_def rows_between_def)

section \<open>Deploying over HTTP\<close>

text \<open>\<open>POST /v1/service/deploy\<close>: nobody is told of the progress.\<close>

definition silent_emit :: "'s emitter" where
  "silent_emit ev = ret ()"

definition http_deploy :: "(string \<Rightarrow> string) \<Rightarrow> config \<Rightarrow> jsval \<Rightarrow> (agent, unit) op" where
  "http_deploy sha1 cfg body =
    bind_op (v1_deploy_service sha1 cfg (deploy_request body) silent_emit) (\<lambda>_. ret ())"

section \<open>The database\<close>

definition container_database :: string where
  "container_database = ''file:/app/data/data.db''"

text \<open>\<open>databaseUrl\<close>, with the directory it creates first, if any\<close>

definition database_url :: "bool \<Rightarrow> string option \<Rightarrow> string list \<Rightarrow> string \<times> string option" where
  "database_url in_container configured cwd =
    (if in_container then (case configured of None \<Rightarrow> container_database | Some c \<Rightarrow> c, None)
     else if configured \<noteq> None \<and> configured \<noteq> Some [] \<and> configured \<noteq> Some container_database then (the configured, None)
     else (let dir = path_text (path_resolve cwd ''data'')
           in (''file:'' @ path_join dir ''data.db'', Some dir)))"

section \<open>Unhandled failures\<close>

datatype failure = NotAnError string | AnError string "string option"

text \<open>\<open>describeFailure\<close>: the message and the stack without its first line\<close>

definition describe_failure :: "failure \<Rightarrow> string" where
  "describe_failure r =
    (case r of
       NotAnError s \<Rightarrow> s
     | AnError msg stack \<Rightarrow>
         (let t = (case stack of None \<Rightarrow> []
                   | Some st \<Rightarrow> js_join [CHR 0x0A] (map (\<lambda>l. ''  '' @ js_trim l) (tl (split_on (CHR 0x0A) st))))
          in if t \<noteq> [] then msg @ [CHR 0x0A] @ t else msg))"

end
