(* ===== verification/Json_Roundtrip.thy ===== *)
theory Json_Roundtrip
  imports Link_Laws Hash_Util
begin

text \<open>
  What is printed is read back. A numeral is read as the number it prints, a string literal as the
  string, and the text of a value made by a JSON parser as a copy of that value. With that, a
  connection request that was stored comes back field by field.
\<close>

section \<open>Numerals\<close>

declare read_digits_Nil [simp] read_digits_zeros [simp]

lemma read_digits_zero [simp]: "read_digits (CHR ''0'' # s) = read_digits s"
  by (simp add: read_digits_def digit_val_def)

lemma strip10_shift: "m mod 10 \<noteq> 0 \<Longrightarrow> strip10 (m * 10 ^ z) e = (m, e + int z)"
proof (induction z arbitrary: e)
  case 0
  then have "m \<noteq> 0" by (cases m) auto
  with 0 show ?case by (subst strip10.simps) simp
next
  case (Suc z)
  then have "m \<noteq> 0" by (cases m) auto
  then have "strip10 (m * 10 ^ Suc z) e = strip10 (m * 10 ^ z) (e + 1)"
    by (subst strip10.simps) simp
  with Suc show ?case by simp
qed

lemma mk_dec_shift: "m mod 10 \<noteq> 0 \<Longrightarrow> mk_dec (int (m * 10 ^ z)) e = NDec (int m) (e + int z)"
proof -
  assume m: "m mod 10 \<noteq> 0"
  then have "0 < m" by (cases m) auto
  then show ?thesis
    using strip10_shift[OF m, of z e] by (simp add: mk_dec_def sgn_if nat_mult_distrib nat_power_eq)
qed

lemma show_nat_all_digits: "list_all is_digit (show_nat m)" "list_all is_digit (take n (show_nat m))"
    "list_all is_digit (drop n (show_nat m))" "list_all is_digit (tl (show_nat m))" "is_digit (hd (show_nat m))"
proof -
  have d: "\<forall>c \<in> set (show_nat m). is_digit c" using show_nat_digits[of m] by (simp add: list_all_iff)
  then show "list_all is_digit (show_nat m)" "list_all is_digit (take n (show_nat m))"
    "list_all is_digit (drop n (show_nat m))"
    by (auto simp: list_all_iff dest: in_set_takeD in_set_dropD)
  have ne: "show_nat m \<noteq> []" by (subst show_nat.simps) simp
  show "list_all is_digit (tl (show_nat m))" using d ne by (cases "show_nat m") (auto simp: list_all_iff)
  show "is_digit (hd (show_nat m))" using d ne by (cases "show_nat m") auto
qed

lemma digits_cut:
  "list_all is_digit s \<Longrightarrow> r = [] \<or> \<not> is_digit (hd r) \<Longrightarrow> takeWhile is_digit (s @ r) = s \<and> dropWhile is_digit (s @ r) = r"
  by (cases r) (induction s; auto)+

lemma split_exp_show: "split_exp (CHR ''e'' # (if x < 0 then CHR ''-'' else CHR ''+'') # show_nat (nat \<bar>x\<bar>)) = Some x"
proof -
  have "show_nat (nat \<bar>x\<bar>) \<noteq> []" by (subst show_nat.simps) simp
  then show ?thesis by (simp add: split_exp_def show_nat_digits read_show_nat)
qed

lemma read_print_layout:
  assumes "m mod 10 \<noteq> 0"
  shows "read_dec (print_layout (show_nat m) (layout_of m e)) = NDec (int m) e"
proof -
  let ?s = "show_nat m" and ?k = "int (length (show_nat m))"
  have ne: "?s \<noteq> []" by (subst show_nat.simps) simp
  note digits = show_nat_all_digits[where m = m]
  have canon: "mk_dec (int m) x = NDec (int m) x" for x using mk_dec_shift[OF assms, of 0 x] by simp
  show ?thesis
  proof (cases "layout_of m e")
    case (Plain z)
    then have e: "e = int z" by (auto simp: layout_of_def Let_def split: if_splits)
    have "list_all is_digit (?s @ replicate z (CHR ''0''))" using digits(1) by (auto simp: list_all_iff)
    from digits_cut[OF this, of "[]"] have f: "takeWhile is_digit (?s @ replicate z (CHR ''0'')) = ?s @ replicate z (CHR ''0'')"
      "dropWhile is_digit (?s @ replicate z (CHR ''0'')) = []" by simp_all
    have "read_dec (?s @ replicate z (CHR ''0'')) = mk_dec (int (m * 10 ^ z)) 0"
      using ne unfolding read_dec_def f by (simp add: split_exp_def read_digits_append read_show_nat)
    then show ?thesis unfolding Plain using mk_dec_shift[OF assms, of z 0] e by simp
  next
    case (Point n)
    then have n: "int n = ?k + e" "0 < n" "n < length ?s" by (auto simp: layout_of_def Let_def split: if_splits)
    have d: "takeWhile is_digit (drop n ?s) = drop n ?s" "dropWhile is_digit (drop n ?s) = []"
      using digits_cut[OF digits(3)[of n], of "[]"] by simp_all
    have ip: "takeWhile is_digit (take n ?s @ CHR ''.'' # drop n ?s) = take n ?s"
      "dropWhile is_digit (take n ?s @ CHR ''.'' # drop n ?s) = CHR ''.'' # drop n ?s"
      using digits_cut[OF digits(2)[of n], of "CHR ''.'' # drop n ?s"] by simp_all
    have "read_dec (take n ?s @ CHR ''.'' # drop n ?s) = mk_dec (int m) (- int (length ?s - n))"
      using n unfolding read_dec_def ip Let_def list.sel d by (simp add: split_exp_def read_show_nat)
    moreover have "- int (length ?s - n) = e" using n by simp
    ultimately show ?thesis by (simp add: Point canon)
  next
    case (Small z)
    then have z: "- int z = ?k + e" by (auto simp: layout_of_def Let_def split: if_splits)
    let ?f = "replicate z (CHR ''0'') @ ?s"
    have "list_all is_digit ?f" using digits(1) by (auto simp: list_all_iff)
    from digits_cut[OF this, of "[]"] have f: "takeWhile is_digit ?f = ?f" "dropWhile is_digit ?f = []" by simp_all
    have "- (int z + ?k) = e" using z by simp
    then show ?thesis
      by (simp add: Small read_dec_def f split_exp_def canon read_digits_append read_show_nat)
  next
    case (Expo x)
    then have x: "x = ?k + e - 1" by (auto simp: layout_of_def Let_def split: if_splits)
    let ?x = "CHR ''e'' # (if x < 0 then CHR ''-'' else CHR ''+'') # show_nat (nat \<bar>x\<bar>)"
    show ?thesis
    proof (cases "length ?s = 1")
      case True
      then show ?thesis
        using x digits_cut[OF digits(1), of ?x] ne
        by (simp add: Expo read_dec_def split_exp_show canon read_show_nat)
    next
      case False
      then obtain c w where w: "?s = c # w" "w \<noteq> []" using ne by (cases ?s) auto
      have d: "takeWhile is_digit (w @ ?x) = w" "dropWhile is_digit (w @ ?x) = ?x"
        using digits_cut[of w ?x] digits(4) w by simp_all
      have "read_digits (c # w) = m" using w read_show_nat[of m] by simp
      moreover have "x - int (length w) = e" using x w by simp
      moreover have "is_digit c" using digits(5) w by simp
      ultimately show ?thesis
        using False w d by (simp add: Expo read_dec_def split_exp_show canon)
    qed
  qed
qed


lemma num_char_no_x: "is_num_char c \<Longrightarrow> lower_char c \<notin> {CHR ''x'', CHR ''o'', CHR ''b''}"
proof -
  assume "is_num_char c"
  then have "lower_char c = c"
    by (intro code_inject[THEN iffD1]) (auto simp: code_lower_char is_num_char_def is_digit_def)
  then show ?thesis using \<open>is_num_char c\<close> by (auto simp: is_num_char_def is_digit_def)
qed

lemma num_char_no_space: "is_num_char c \<Longrightarrow> \<not> is_space c"
  by (auto simp: is_num_char_def is_space_def is_digit_def)

lemma trim_numeral: "list_all is_num_char s \<Longrightarrow> js_trim s = s"
proof -
  assume s: "list_all is_num_char s"
  have no: "dropWhile is_space w = w" if "list_all is_num_char w" for w
    using that num_char_no_space by (cases w) auto
  have "list_all is_num_char (rev s)" using s by (simp add: list_all_iff)
  with no[OF s] no show ?thesis by (simp add: js_trim_def)
qed

lemma radix_prefix:
  assumes "list_all is_num_char s"
  shows "js_lower (take 2 s) \<notin> {''0x'', ''0o'', ''0b''}"
proof -
  have no: "c \<notin> set (js_lower (take 2 s))" if "c \<in> {CHR ''x'', CHR ''o'', CHR ''b''}" for c
  proof
    assume "c \<in> set (js_lower (take 2 s))"
    then obtain d where "d \<in> set (take 2 s)" "c = lower_char d" by (auto simp: js_lower_def)
    moreover from this have "is_num_char d" using assms by (auto simp: list_all_iff dest: in_set_takeD)
    ultimately show False using num_char_no_x that by blast
  qed
  have other: "w \<noteq> [a, c]" if "c \<notin> set w" for w and a c :: char using that by auto
  show ?thesis
    using no[of "CHR ''x''"] no[of "CHR ''o''"] no[of "CHR ''b''"] other by blast
qed

lemma last_digit_abs:
  assumes "m mod 10 \<noteq> (0 :: int)"
  shows "nat \<bar>m\<bar> mod 10 \<noteq> 0"
proof -
  have "int (nat \<bar>m\<bar> mod 10) = \<bar>m\<bar> mod 10" by (simp add: zmod_int)
  moreover have "\<bar>m\<bar> mod 10 \<noteq> 0" using assms by presburger
  ultimately show ?thesis by (metis of_nat_0)
qed

lemma read_numeral:
  assumes "num_finite x" "num_wf x"
  shows "string_to_num (num_to_string x) = x"
proof -
  obtain m e where x: "x = NDec m e" using assms(1) by (cases x) auto
  let ?t = "num_to_string x"
  have chars: "list_all is_num_char ?t" by (rule num_to_string_chars[OF assms(1)])
  note plain = trim_numeral[OF chars] num_to_string_nonempty[of x] radix_prefix[OF chars]
  have hd_digit: "is_digit (hd (pos_to_string n e))" for n
  proof -
    have "show_nat n \<noteq> []" by (subst show_nat.simps) simp
    then have "show_nat n = hd (show_nat n) # tl (show_nat n)" by simp
    then show ?thesis
      using show_nat_all_digits(5)[of n] layout_of_ok[of n e]
      unfolding pos_to_string_layout
      by (cases "layout_of n e") (auto simp: hd_append hd_take split: if_splits)
  qed
  have unsigned: "read_unsigned (pos_to_string n e) = NDec (int n) e" if "n mod 10 \<noteq> 0" for n
  proof -
    have "pos_to_string n e \<noteq> ''Infinity''" using hd_digit[of n] by (auto simp: is_digit_def)
    then show ?thesis
      using read_print_layout[OF that, of e] by (simp add: read_unsigned_def pos_to_string_layout)
  qed
  show ?thesis
  proof (cases "m = 0")
    case True
    then have "x = NDec 0 0" using assms(2) x by simp
    moreover have "string_to_num ''0'' = NDec 0 0" by code_simp
    ultimately show ?thesis by simp
  next
    case False
    then have m: "m mod 10 \<noteq> 0" using assms(2) x by simp
    show ?thesis
    proof (cases "m < 0")
      case True
      then have "nat (- m) mod 10 \<noteq> 0" using last_digit_abs[OF m] by simp
      with unsigned[OF this] True x plain show ?thesis by (simp add: string_to_num_def Let_def)
    next
      case False
      then have "nat m mod 10 \<noteq> 0" using last_digit_abs[OF m] by simp
      moreover have "hd (pos_to_string (nat m) e) \<noteq> CHR ''-''" "hd (pos_to_string (nat m) e) \<noteq> CHR ''+''"
        using hd_digit[of "nat m"] by (auto simp: is_digit_def)
      ultimately show ?thesis
        using unsigned[of "nat m"] False \<open>m \<noteq> 0\<close> x plain by (simp add: string_to_num_def Let_def)
    qed
  qed
qed


section \<open>Numerals in a JSON text\<close>

lemma num_char_json: "is_num_char c \<Longrightarrow> is_json_num_char c"
  by (auto simp: is_num_char_def is_json_num_char_def)

lemma delimited_no_num: "delimited r \<Longrightarrow> takeWhile is_json_num_char r = [] \<and> dropWhile is_json_num_char r = r"
  by (cases r) (auto simp: delimited_def is_json_num_char_def is_digit_def)

lemma cut_numeral:
  assumes "list_all is_num_char s" "delimited r"
  shows "takeWhile is_json_num_char (s @ r) = s" "dropWhile is_json_num_char (s @ r) = r"
proof -
  have "\<forall>c \<in> set s. is_json_num_char c" using assms(1) num_char_json by (simp add: list_all_iff)
  then show "takeWhile is_json_num_char (s @ r) = s" "dropWhile is_json_num_char (s @ r) = r"
    using delimited_no_num[OF assms(2)] by simp_all
qed

text \<open>The integer digits, without a superfluous zero, then a fraction\<close>

lemma valid_parts:
  assumes "list_all is_digit d" "d \<noteq> []" "d = ''0'' \<or> hd d \<noteq> CHR ''0''" "valid_fraction r"
    and "r = [] \<or> \<not> is_digit (hd r)"
  shows "valid_json_num (d @ r)" "valid_json_num (CHR ''-'' # d @ r)"
proof -
  note cut = digits_cut[OF assms(1,5)]
  have "hd d \<noteq> CHR ''-''" using assms(1,2) by (cases d) (auto simp: is_digit_def)
  then show "valid_json_num (d @ r)" "valid_json_num (CHR ''-'' # d @ r)"
    using cut assms(2-4) by (simp_all add: valid_json_num_def digits_first_def Let_def)
qed

lemma valid_exponent_show:
  "valid_exponent (CHR ''e'' # (if x < 0 then CHR ''-'' else CHR ''+'') # show_nat (nat \<bar>x\<bar>))"
proof -
  have "show_nat (nat \<bar>x\<bar>) \<noteq> []" by (subst show_nat.simps) simp
  then show ?thesis by (simp add: valid_exponent_def show_nat_digits)
qed

lemma valid_fraction_digits:
  "list_all is_digit d \<Longrightarrow> d \<noteq> [] \<Longrightarrow> valid_exponent r \<Longrightarrow> r = [] \<or> \<not> is_digit (hd r) \<Longrightarrow>
    valid_fraction (CHR ''.'' # d @ r)"
  using digits_cut[of d r] by (simp add: valid_fraction_def digits_first_def)

lemma plain_show_nat: "m mod 10 \<noteq> 0 \<Longrightarrow> show_nat m \<noteq> [] \<and> hd (show_nat m) \<noteq> CHR ''0''"
  using show_nat_plain_digits[of m] by (cases m) (auto simp: plain_digits_def)

text \<open>A positive decimal is an integer part and a fraction.\<close>

lemma layout_parts:
  assumes "m mod 10 \<noteq> 0"
  obtains d r where "print_layout (show_nat m) (layout_of m e) = d @ r" "list_all is_digit d" "d \<noteq> []"
    "d = ''0'' \<or> hd d \<noteq> CHR ''0''" "valid_fraction r" "r = [] \<or> \<not> is_digit (hd r)"
proof -
  let ?s = "show_nat m"
  note digits = show_nat_all_digits[where m = m]
  have ne: "?s \<noteq> []" and hd: "hd ?s \<noteq> CHR ''0''" using plain_show_nat[OF assms] by blast+
  have none: "valid_fraction []" by (simp add: valid_fraction_def valid_exponent_def)
  show thesis
  proof (cases "layout_of m e")
    case (Plain z)
    show thesis
      by (rule that[of "?s @ replicate z (CHR ''0'')" "[]"]) (use Plain digits(1) ne hd none in \<open>auto simp: list_all_iff\<close>)
  next
    case (Point n)
    then have n: "0 < n" "n < length ?s" using layout_of_ok[of m e] by simp_all
    have "valid_fraction (CHR ''.'' # drop n ?s @ [])"
      by (rule valid_fraction_digits) (use digits(3) n in \<open>simp_all add: valid_exponent_def\<close>)
    then show thesis
      by (intro that[of "take n ?s" "CHR ''.'' # drop n ?s"]) (use Point digits(2) n ne hd in \<open>auto simp: hd_take\<close>)
  next
    case (Small z)
    have "valid_fraction (CHR ''.'' # (replicate z (CHR ''0'') @ ?s) @ [])"
      by (rule valid_fraction_digits) (use digits(1) ne in \<open>auto simp: valid_exponent_def list_all_iff\<close>)
    then show thesis
      by (intro that[of "''0''" "CHR ''.'' # replicate z (CHR ''0'') @ ?s"]) (use Small in simp_all)
  next
    case (Expo x)
    let ?x = "CHR ''e'' # (if x < 0 then CHR ''-'' else CHR ''+'') # show_nat (nat \<bar>x\<bar>)"
    note ex = valid_exponent_show[of x]
    show thesis
    proof (cases "length ?s = 1")
      case True
      have "valid_fraction ?x" using ex by (simp add: valid_fraction_def)
      then show thesis
        by (intro that[of ?s ?x]) (use Expo True digits(1) ne hd in simp_all)
    next
      case False
      then obtain c w where w: "?s = c # w" "w \<noteq> []" using ne by (cases ?s) auto
      have "valid_fraction (CHR ''.'' # w @ ?x)"
        by (rule valid_fraction_digits) (use digits(4) w ex in simp_all)
      then show thesis
        by (intro that[of "[c]" "CHR ''.'' # w @ ?x"]) (use Expo w digits(5) hd in simp_all)
    qed
  qed
qed

lemma json_numeral:
  assumes "num_finite x" "num_wf x" "delimited r"
  shows "json_number (num_to_string x @ r) = Some (JNum x, r)"
proof -
  obtain m e where x: "x = NDec m e" using assms(1) by (cases x) auto
  have "valid_json_num (num_to_string x)"
  proof (cases "m = 0")
    case True
    have "valid_json_num ''0''" by code_simp
    with True x show ?thesis by simp
  next
    case False
    then have "m mod 10 \<noteq> 0" using assms(2) x by simp
    then have m: "nat \<bar>m\<bar> mod 10 \<noteq> 0" by (rule last_digit_abs)
    obtain d r where p: "print_layout (show_nat (nat \<bar>m\<bar>)) (layout_of (nat \<bar>m\<bar>) e) = d @ r"
      "list_all is_digit d" "d \<noteq> []" "d = ''0'' \<or> hd d \<noteq> CHR ''0''" "valid_fraction r" "r = [] \<or> \<not> is_digit (hd r)"
      by (rule layout_parts[OF m])
    have "num_to_string x = (if m < 0 then CHR ''-'' # d @ r else d @ r)"
      using False p(1) by (cases "m < 0") (simp_all add: x pos_to_string_layout)
    with valid_parts[OF p(2-6)] show ?thesis by simp
  qed
  then show ?thesis
    by (simp add: json_number_def Let_def cut_numeral[OF num_to_string_chars[OF assms(1)] assms(3)] read_numeral[OF assms(1,2)])
qed


section \<open>Strings in a JSON text\<close>

lemma json_chars_plain:
  "x \<noteq> [] \<Longrightarrow> code c \<ge> 32 \<Longrightarrow> c \<noteq> CHR 0x22 \<Longrightarrow> c \<noteq> CHR 0x5C \<Longrightarrow>
    json_chars (c # x) = map_option (\<lambda>(s, t). (c # s, t)) (json_chars x)"
  by (cases x) (auto split: option.split)

lemma json_chars_escape:
  "e \<noteq> CHR ''u'' \<Longrightarrow> simple_escape e = Some d \<Longrightarrow>
    json_chars (CHR 0x5C # e # x) = map_option (\<lambda>(s, t). (d # s, t)) (json_chars x)"
  by (auto split: option.split)

lemma json_chars_unicode:
  "unicode_escape (CHR ''0'') (CHR ''0'') y z = Some d \<Longrightarrow>
    json_chars (CHR 0x5C # CHR ''u'' # CHR ''0'' # CHR ''0'' # y # z # x) =
      map_option (\<lambda>(s, t). (d # s, t)) (json_chars x)"
  by (auto split: option.split)

lemma hex_digit_of_digit: "d < 16 \<Longrightarrow> hex_digit_of (hex_digit d) = Some d"
  by (simp add: hex_digit_of_def hex_digit_def lower_char_def is_hex_def is_hex_lower_def is_digit_def
      of_char_of Let_def)

lemma unicode_of_code:
  assumes "code c < 256"
  shows "unicode_escape (CHR ''0'') (CHR ''0'') (hex_digit (code c div 16)) (hex_digit (code c mod 16)) = Some c"
proof -
  have "hex_digit_of (CHR ''0'') = Some 0" by code_simp
  moreover have "code c div 16 < 16" using assms by (simp add: less_mult_imp_div_less)
  ultimately show ?thesis
    using assms by (simp add: unicode_escape_def hex_digit_of_digit Let_def)
qed

lemma json_chars_quote_char:
  assumes "x \<noteq> []"
  shows "json_chars (quote_char c @ x) = map_option (\<lambda>(s, t). (c # s, t)) (json_chars x)"
proof -
  have esc: "simple_escape (CHR ''b'') = Some (CHR 0x08)" "simple_escape (CHR ''t'') = Some (CHR 0x09)"
    "simple_escape (CHR ''n'') = Some (CHR 0x0A)" "simple_escape (CHR ''f'') = Some (CHR 0x0C)"
    "simple_escape (CHR ''r'') = Some (CHR 0x0D)" "simple_escape (CHR 0x22) = Some (CHR 0x22)"
    "simple_escape (CHR 0x5C) = Some (CHR 0x5C)"
    by code_simp+
  have c: "c = d" if "code c = code d" for d using that by (simp add: code_inject)
  consider "c = CHR 0x22" | "c = CHR 0x5C" | "c = CHR 0x08" | "c = CHR 0x09" | "c = CHR 0x0A" | "c = CHR 0x0C" | "c = CHR 0x0D"
    | "code c < 32" "code c \<notin> {8, 9, 10, 12, 13}" | "32 \<le> code c" "code c \<noteq> 34" "code c \<noteq> 92"
    using c[of "CHR 0x22"] c[of "CHR 0x5C"] c[of "CHR 0x08"] c[of "CHR 0x09"] c[of "CHR 0x0A"] c[of "CHR 0x0C"]
      c[of "CHR 0x0D"] by fastforce
  then show ?thesis
  proof cases
    case 8
    then show ?thesis
      using unicode_of_code[OF code_less_256[of c]]
      by (simp add: quote_char_def Let_def json_chars_unicode del: json_chars.simps)
  next
    case 9
    then have "c \<noteq> CHR 0x22" "c \<noteq> CHR 0x5C" by auto
    with 9 assms show ?thesis
      by (simp add: quote_char_def Let_def json_chars_plain del: json_chars.simps)
  qed (use esc in \<open>simp_all add: quote_char_def Let_def json_chars_escape del: json_chars.simps\<close>)
qed

lemma json_chars_body:
  "json_chars (concat (map quote_char s) @ CHR 0x22 # r) = Some (s, r)"
proof (induction s)
  case Nil
  show ?case by (cases r) simp_all
next
  case (Cons c s)
  then show ?case by (simp add: json_chars_quote_char del: json_chars.simps)
qed


section \<open>Values\<close>

text \<open>
  The copy a parser makes of a value: the same texts, numbers, truth values and \<open>null\<close>, new arrays and
  objects, whose members are defined one after the other.
\<close>

fun reread :: "jsval \<Rightarrow> jsval" where
  "reread (JArr a vs) = JArr 0 (map reread vs)"
| "reread (JObj a kvs) = JObj 0 (foldl (\<lambda>ms kv. obj_define (fst kv) (snd kv) ms) [] (map (\<lambda>(k, v). (k, reread v)) kvs))"
| "reread v = v"

definition shown :: "jsval \<Rightarrow> string" where
  "shown v = print (plain_json v)"

definition shown_member :: "string \<times> jsval \<Rightarrow> string" where
  "shown_member kv = quote (fst kv) @ CHR '':'' # shown (snd kv)"

lemma shown_simps:
  "shown JNull = ''null''" "shown (JBool b) = (if b then ''true'' else ''false'')"
  "shown (JNum x) = num_to_string x" "shown (JStr s) = quote s"
  "shown (JArr a vs) = CHR ''['' # js_join '','' (map shown vs) @ '']''"
  "shown (JObj a kvs) = CHR ''{'' # js_join '','' (map shown_member kvs) @ ''}''"
  by (auto simp: shown_def shown_member_def wrap_def comp_def case_prod_beta intro!: arg_cong[where f = "js_join _"])

text \<open>How the text of a value begins: not with space, nor with a closing bracket\<close>

definition starts_value :: "string \<Rightarrow> bool" where
  "starts_value s = (s \<noteq> [] \<and> \<not> is_json_space (hd s) \<and> hd s \<notin> {CHR '']'', CHR ''}''})"

lemma starts_shown: "parsed v \<Longrightarrow> starts_value (shown v)"
proof (cases v)
  case (JNum x)
  assume "parsed v"
  then have "num_finite x" using JNum by simp
  then have "is_num_char (hd (num_to_string x))"
    using num_to_string_chars[of x] num_to_string_nonempty[of x] JNum by (cases "num_to_string x") auto
  then show ?thesis
    using num_to_string_nonempty[of x] JNum
    by (auto simp: shown_simps starts_value_def is_json_space_def is_num_char_def is_digit_def)
qed (auto simp: shown_simps starts_value_def is_json_space_def quote_def)

lemma skip_starts: "starts_value s \<Longrightarrow> skip_ws (s @ r) = s @ r"
  by (cases s) (simp_all add: starts_value_def skip_ws_def)

lemma join_cons: "js_join '','' (w # v # ws) = w @ CHR '','' # js_join '','' (v # ws)"
  by simp

lemma json_items_shown:
  assumes "vs \<noteq> []" "2 * length (js_join '','' (map shown vs)) + 1 \<le> f"
    and "\<And>v n r. v \<in> set vs \<Longrightarrow> 2 * length (shown v) \<le> n \<Longrightarrow> delimited r \<Longrightarrow>
      json_value n (shown v @ r) = Some (reread v, r)"
  shows "json_items f (js_join '','' (map shown vs) @ CHR '']'' # r) = Some (map reread vs, r)"
  using assms
proof (induction vs arbitrary: f)
  case (Cons v vs)
  obtain n where f: "f = Suc n" using Cons.prems(2) by (cases f) simp_all
  have ws: "skip_ws (c # x) = c # x" if "c \<in> {CHR '']'', CHR '',''}" for c x
    using that by (auto simp: skip_ws_def is_json_space_def)
  show ?case
  proof (cases vs)
    case Nil
    then have "json_value n (shown v @ CHR '']'' # r) = Some (reread v, CHR '']'' # r)"
      using Cons.prems(2) f by (intro Cons.prems(3)) simp_all
    then show ?thesis by (simp add: Nil f ws)
  next
    case (Cons u us)
    let ?rest = "js_join '','' (map shown vs) @ CHR '']'' # r"
    have e: "js_join '','' (map shown (v # vs)) @ CHR '']'' # r = shown v @ CHR '','' # ?rest"
      by (simp add: Cons)
    have len: "2 * length (shown v) + 2 + 2 * length (js_join '','' (map shown vs)) \<le> n"
      using Cons.prems(2) by (simp add: f Cons)
    have "json_value n (shown v @ CHR '','' # ?rest) = Some (reread v, CHR '','' # ?rest)"
      using len by (intro Cons.prems(3)) simp_all
    moreover have "json_items n ?rest = Some (map reread vs, r)"
      using len Cons Cons.prems(3) by (intro Cons.IH) simp_all
    ultimately show ?thesis unfolding e f by (simp add: ws)
  qed
qed simp

lemma json_members_shown:
  assumes "kvs \<noteq> []" "2 * length (js_join '','' (map shown_member kvs)) + 1 \<le> f"
    and "\<And>kv n r. kv \<in> set kvs \<Longrightarrow> 2 * length (shown (snd kv)) \<le> n \<Longrightarrow> delimited r \<Longrightarrow>
      json_value n (shown (snd kv) @ r) = Some (reread (snd kv), r)"
  shows "json_members f ms (js_join '','' (map shown_member kvs) @ CHR ''}'' # r) =
    Some (foldl (\<lambda>ms kv. obj_define (fst kv) (snd kv) ms) ms (map (\<lambda>(k, v). (k, reread v)) kvs), r)"
  using assms
proof (induction kvs arbitrary: f ms)
  case (Cons kv kvs)
  obtain n where f: "f = Suc n" using Cons.prems(2) by (cases f) simp_all
  obtain k v where kv: "kv = (k, v)" by (cases kv)
  have ws: "skip_ws (c # x) = c # x" if "c \<in> {CHR ''}'', CHR '','', CHR '':'', CHR 0x22}" for c x
    using that by (auto simp: skip_ws_def is_json_space_def)
  have head: "shown_member (k, v) @ x = CHR 0x22 # concat (map quote_char k) @ CHR 0x22 # CHR '':'' # shown v @ x" for x
    by (simp add: shown_member_def quote_def)
  have len: "length (shown v) + 3 \<le> length (shown_member kv)"
    by (simp add: shown_member_def kv quote_def)
  show ?case
  proof (cases kvs)
    case Nil
    then have "json_value n (shown v @ CHR ''}'' # r) = Some (reread v, CHR ''}'' # r)"
      using Cons.prems(2) Cons.prems(3)[of kv] f len by (simp add: kv)
    then show ?thesis
      by (simp add: Nil f head ws json_chars_body kv del: json_chars.simps)
  next
    case (Cons u us)
    let ?rest = "js_join '','' (map shown_member kvs) @ CHR ''}'' # r"
    have e: "js_join '','' (map shown_member (kv # kvs)) @ CHR ''}'' # r = shown_member kv @ CHR '','' # ?rest"
      by (simp add: Cons)
    have l: "2 * length (shown v) + 2 + 2 * length (js_join '','' (map shown_member kvs)) \<le> n"
      using Cons.prems(2) len by (simp add: f Cons)
    have "json_value n (shown v @ CHR '','' # ?rest) = Some (reread v, CHR '','' # ?rest)"
      using l Cons.prems(3)[of kv] by (simp add: kv)
    moreover have "json_members n (obj_define k (reread v) ms) ?rest =
        Some (foldl (\<lambda>ms kv. obj_define (fst kv) (snd kv) ms) (obj_define k (reread v) ms)
          (map (\<lambda>(k, v). (k, reread v)) kvs), r)"
      using l Cons Cons.prems(3) by (intro Cons.IH) simp_all
    ultimately show ?thesis
      unfolding e f by (simp add: head ws json_chars_body kv del: json_chars.simps)
  qed
qed simp


lemma json_value_shown:
  "parsed v \<Longrightarrow> 2 * length (shown v) \<le> f \<Longrightarrow> delimited r \<Longrightarrow> json_value f (shown v @ r) = Some (reread v, r)"
proof (induction v arbitrary: f r rule: measure_induct_rule[of size])
  case (less v)
  obtain n where f: "f = Suc n" using less.prems(1,2) starts_shown[of v] by (cases f) (auto simp: starts_value_def)
  have skip: "skip_ws (shown v @ r) = shown v @ r" by (rule skip_starts[OF starts_shown[OF less.prems(1)]])
  have one: "skip_ws (c # x) = c # x" if "c \<in> {CHR '']'', CHR ''}''}" for c x
    using that by (auto simp: skip_ws_def is_json_space_def)
  show ?case
  proof (cases v)
    case (JNum x)
    then have x: "num_finite x" "num_wf x" using less.prems(1) by simp_all
    have "is_num_char (hd (num_to_string x))"
      using num_to_string_chars[OF x(1)] num_to_string_nonempty[of x] by (cases "num_to_string x") auto
    moreover obtain c w where w: "num_to_string x = c # w" using num_to_string_nonempty[of x] by (cases "num_to_string x") auto
    ultimately have c: "is_num_char c" by simp
    have "json_number (c # w @ r) = Some (JNum x, r)" using json_numeral[OF x less.prems(3)] w by simp
    moreover have "skip_ws (c # w @ r) = c # w @ r" using skip JNum w by (simp add: shown_simps)
    moreover have "c \<notin> {CHR 0x22, CHR ''['', CHR ''{'', CHR ''t'', CHR ''f'', CHR ''n''}"
      using c by (auto simp: is_num_char_def is_digit_def)
    ultimately show ?thesis by (simp add: JNum f shown_simps w)
  next
    case (JStr s)
    then show ?thesis using skip by (simp add: f shown_simps quote_def json_chars_body del: json_chars.simps)
  next
    case (JArr a vs)
    show ?thesis
    proof (cases "vs = []")
      case True
      then show ?thesis using skip by (simp add: JArr f shown_simps one)
    next
      case False
      then obtain u us where vs: "vs = u # us" by (cases vs) auto
      have "json_items n (js_join '','' (map shown vs) @ CHR '']'' # r) = Some (map reread vs, r)"
      proof (rule json_items_shown[OF False])
        show "2 * length (js_join '','' (map shown vs)) + 1 \<le> n" using less.prems(2) by (simp add: JArr f shown_simps)
        fix v m q assume "v \<in> set vs" "2 * length (shown v) \<le> m" "delimited q"
        then show "json_value m (shown v @ q) = Some (reread v, q)"
          using less.prems(1) JArr by (intro less.IH) (auto simp: less_Suc_eq_le size_list_estimation')
      qed
      moreover have "starts_value (js_join '','' (map shown vs))"
        using starts_shown[of u] less.prems(1) vs JArr by (cases us) (auto simp: starts_value_def)
      then obtain d w where "js_join '','' (map shown vs) = d # w" "\<not> is_json_space d" "d \<noteq> CHR '']''"
        by (cases "js_join '','' (map shown vs)") (auto simp: starts_value_def)
      ultimately show ?thesis using skip by (simp add: JArr f shown_simps skip_ws_def)
    qed
  next
    case (JObj a kvs)
    show ?thesis
    proof (cases "kvs = []")
      case True
      then show ?thesis using skip by (simp add: JObj f shown_simps one)
    next
      case False
      have "json_members n [] (js_join '','' (map shown_member kvs) @ CHR ''}'' # r) =
          Some (foldl (\<lambda>ms kv. obj_define (fst kv) (snd kv) ms) [] (map (\<lambda>(k, v). (k, reread v)) kvs), r)"
      proof (rule json_members_shown[OF False])
        show "2 * length (js_join '','' (map shown_member kvs)) + 1 \<le> n"
          using less.prems(2) by (simp add: JObj f shown_simps)
        fix kv m q assume kv: "kv \<in> set kvs" "2 * length (shown (snd kv)) \<le> m" "delimited q"
        have "size (snd kv) \<le> size_list (size_prod (\<lambda>_. 0) size) kvs"
          using kv(1) by (rule size_list_estimation') (cases kv, simp)
        then show "json_value m (shown (snd kv) @ q) = Some (reread (snd kv), q)"
          using less.prems(1) JObj kv by (intro less.IH) auto
      qed
      moreover have "starts_value (js_join '','' (map shown_member kvs))"
        using False by (cases kvs; cases "tl kvs") (auto simp: starts_value_def shown_member_def quote_def is_json_space_def)
      then obtain d w where "js_join '','' (map shown_member kvs) = d # w" "\<not> is_json_space d" "d \<noteq> CHR ''}''"
        by (cases "js_join '','' (map shown_member kvs)") (auto simp: starts_value_def)
      ultimately show ?thesis using skip by (simp add: JObj f shown_simps skip_ws_def)
    qed
  qed (use less.prems(1) skip in \<open>simp_all add: f shown_simps literal_def starts_with_def\<close>)
qed

text \<open>The text of a value made by a parser is parsed again to a copy of it.\<close>

lemma json_parse_shown: "parsed v \<Longrightarrow> json_parse (shown v) = Some (reread v)"
  using json_value_shown[of v "Suc (2 * length (shown v))" "[]"] by (simp add: json_parse_def skip_ws_def)


section \<open>What is stringified\<close>

lemma stringify_elems_shown:
  "(\<And>v. v \<in> set vs \<Longrightarrow> stringify (plain_json v) = Inr (Some (shown v))) \<Longrightarrow>
    stringify_elems (map plain_json vs) = Inr (map shown vs)"
  by (induction vs) simp_all

text \<open>An undefined member is left out.\<close>

lemma stringify_members_shown:
  "(\<And>kv. kv \<in> set kvs \<Longrightarrow> snd kv \<noteq> JUndef \<Longrightarrow> stringify (plain_json (snd kv)) = Inr (Some (shown (snd kv)))) \<Longrightarrow>
    stringify_members (map (\<lambda>(k, v). (k, plain_json v)) kvs) = Inr (map shown_member (filter (\<lambda>kv. snd kv \<noteq> JUndef) kvs))"
proof (induction kvs)
  case (Cons kv kvs)
  obtain k v where kv: "kv = (k, v)" by (cases kv)
  have "stringify_members (map (\<lambda>(k, v). (k, plain_json v)) kvs) = Inr (map shown_member (filter (\<lambda>kv. snd kv \<noteq> JUndef) kvs))"
    using Cons.prems by (intro Cons.IH) simp_all
  then show ?case
    using Cons.prems[of kv] by (cases "v = JUndef") (simp_all add: kv shown_member_def)
qed simp

lemma stringify_shown: "parsed v \<Longrightarrow> stringify (plain_json v) = Inr (Some (shown v))"
proof (induction v)
  case (JArr a vs)
  then show ?case by (simp add: stringify_elems_shown shown_simps wrap_def)
next
  case (JObj a kvs)
  have "stringify (plain_json (snd kv)) = Inr (Some (shown (snd kv)))" if "kv \<in> set kvs" for kv
    using JObj.IH[OF that, of "snd kv"] JObj.prems that by (cases kv) auto
  note members = stringify_members_shown[OF this]
  have "filter (\<lambda>kv. snd kv \<noteq> JUndef) kvs = kvs" using JObj.prems by (auto intro!: filter_True)
  with members show ?case by (simp add: shown_simps wrap_def)
qed (simp_all add: shown_simps)

section \<open>The stored connection request\<close>

lemma map_of_defined:
  "distinct (map fst kvs) \<Longrightarrow> \<forall>kv \<in> set kvs. \<not> is_index (fst kv) \<Longrightarrow>
    map_of (foldl (\<lambda>ms kv. obj_define (fst kv) (snd kv) ms) ms kvs) j =
      (case map_of kvs j of None \<Rightarrow> map_of ms j | Some v \<Rightarrow> Some v)"
proof (induction kvs arbitrary: ms)
  case (Cons kv kvs)
  have "map_of kvs (fst kv) = None" using Cons.prems(1) by (simp add: map_of_eq_None_iff)
  then show ?case using Cons by (cases "j = fst kv") (simp_all add: map_of_obj_define split: option.split)
qed simp

definition present_fields :: "jsval \<Rightarrow> (string \<times> jsval) list" where
  "present_fields p = filter (\<lambda>kv. snd kv \<noteq> JUndef) (map (\<lambda>k. (k, get_field p k)) request_fields)"

lemma parsed_field: "parsed p \<Longrightarrow> get_field p k \<noteq> JUndef \<Longrightarrow> parsed (get_field p k)"
  by (cases p) (auto simp: obj_get_def split: option.split_asm dest: map_of_SomeD)


lemma stored_text:
  assumes "parsed p"
  shows "stringify (plain_json (connect_request p)) = Inr (Some (shown (JObj 0 (present_fields p))))"
proof -
  let ?kvs = "map (\<lambda>k. (k, get_field p k)) request_fields"
  have "stringify_members (map (\<lambda>(k, v). (k, plain_json v)) ?kvs) = Inr (map shown_member (present_fields p))"
    unfolding present_fields_def using parsed_field[OF assms]
    by (intro stringify_members_shown) (auto intro: stringify_shown)
  then show ?thesis unfolding connect_request_def plain_json.simps stringify.simps by (simp add: shown_simps wrap_def)
qed

lemma present_parsed: "parsed p \<Longrightarrow> parsed (JObj 0 (present_fields p))"
proof -
  assume p: "parsed p"
  have "distinct request_fields" by (simp add: request_fields_def)
  then have "distinct (map fst (present_fields p))"
    by (auto simp: present_fields_def distinct_map inj_on_def intro!: distinct_filter)
  then show ?thesis using parsed_field[OF p] by (auto simp: present_fields_def)
qed

lemma reread_fields:
  assumes "parsed p"
  shows "get_field (reread (JObj 0 (present_fields p))) k =
    (if k \<in> set request_fields then reread (get_field p k) else JUndef)"
proof -
  let ?F = "map (\<lambda>(k, v). (k, reread v)) (present_fields p)"
  have "map fst ?F = map fst (present_fields p)" by (auto simp: case_prod_beta)
  then have d: "distinct (map fst ?F)" using present_parsed[OF assms] by (simp only: parsed.simps)
  have i: "\<not> is_index j" if "j \<in> set request_fields" for j
    using that by (auto simp: request_fields_def is_index_def is_digit_def)
  then have n: "\<forall>kv \<in> set ?F. \<not> is_index (fst kv)" by (auto simp: present_fields_def)
  have m: "map_of (filter (\<lambda>kv. snd kv \<noteq> JUndef) (map (\<lambda>k. (k, get_field p k)) ks)) k =
      (if k \<in> set ks \<and> get_field p k \<noteq> JUndef then Some (get_field p k) else None)" for ks
    by (induction ks) auto
  show ?thesis
    using map_of_defined[OF d n, of "[]" k] m[of request_fields]
    by (simp add: obj_get_def map_of_map_values present_fields_def[symmetric] split: option.split)
qed

text \<open>C36: A connection request survives its storage. Once the Hub's request was taken without a fault
  of the database, what the Dashboard reads back, at once or in a later process, has exactly the five
  fields of the contract, each with the value the Hub sent: the same text, number, truth value or
  \<open>null\<close>, a copy of an array or object, and none where the Hub sent none. Nothing else of the payload,
  the signature envelope in particular, is kept.\<close>

theorem pending_request_returns:
  assumes "parsed p"
  shows "case get_pending_request (fst (snd (link_start (fst (snd (on_connect_request no_fault p s)))))) of
      Inl e \<Rightarrow> False
    | Inr w \<Rightarrow> \<forall>k. get_field w k = (if k \<in> set request_fields then reread (get_field p k) else JUndef)"
proof -
  have "jm_get (lk_info (fst (snd (on_connect_request no_fault p s)))) ''pending-connect-request'' =
      Some (shown (JObj 0 (present_fields p)))"
    by (simp add: on_connect_request_def save_pending_request_def stored_text[OF assms] upsert_def no_fault_def
        set_op_def seq_op_def out_op_def jsm.kv_laws)
  then have "get_pending_request (fst (snd (link_start (fst (snd (on_connect_request no_fault p s)))))) =
      Inr (reread (JObj 0 (present_fields p)))"
    by (simp add: get_pending_request_def link_start_def json_parse_shown[OF present_parsed[OF assms]])
  then show ?thesis using reread_fields[OF assms] by simp
qed

definition sample_request :: jsval where
  "sample_request = JObj 7 [(''workspaceName'', JStr ''a \"b\" c''), (''workspaceIndex'', JNum (num_of_int (-120))),
     (''workspaceOwnerName'', JArr 8 [JNull, JBool True]), (''_sig'', JStr ''ab'')]"

theorem pending_request_returns_witness:
  "get_pending_request (fst (snd (link_start (fst (snd (on_connect_request no_fault sample_request known_agent)))))) =
     Inr (JObj 0 [(''workspaceOwnerName'', JArr 0 [JNull, JBool True]), (''workspaceName'', JStr ''a \"b\" c''),
       (''workspaceIndex'', JNum (num_of_int (-120)))]) \<and>
   (case get_pending_request (fst (snd (link_start (fst (snd (on_connect_request no_fault sample_request known_agent)))))) of
      Inl e \<Rightarrow> False | Inr w \<Rightarrow> get_field w ''_sig'' = JUndef)"
proof
  show "get_pending_request (fst (snd (link_start (fst (snd (on_connect_request no_fault sample_request known_agent)))))) =
     Inr (JObj 0 [(''workspaceOwnerName'', JArr 0 [JNull, JBool True]), (''workspaceName'', JStr ''a \"b\" c''),
       (''workspaceIndex'', JNum (num_of_int (-120)))])" by code_simp
  have "parsed sample_request" by (simp add: sample_request_def)
  from pending_request_returns[OF this, of known_agent]
  show "case get_pending_request (fst (snd (link_start (fst (snd (on_connect_request no_fault sample_request known_agent)))))) of
      Inl e \<Rightarrow> False | Inr w \<Rightarrow> get_field w ''_sig'' = JUndef"
    by (auto simp: request_fields_def split: sum.split)
qed

end
