(* ===== verification/Local_Server.thy ===== *)
theory Local_Server
  imports Http_Api Hub_Session Json_Roundtrip
begin

text \<open>
  The server on the user's own network: \<open>main.ts\<close>, which starts it, the validation of a deployment
  posted to it, installing the process guards, and the three gateways, which push to the Dashboard
  what the components hand them. What NestJS does with routes, namespaces and CORS headers is a library's.
\<close>

section \<open>Start\<close>

datatype cors_rule = AnyOrigin | Origins "string list"

datatype boot_effect =
    OnProcess string
  | CreateApp
  | GlobalValidation
  | UriVersioning
  | EnableCors cors_rule bool
  | Listen string
  | LogFailure string
  | ExitProcess int

text \<open>\<open>installProcessGuards\<close>: the module's flag, and the process events listened to\<close>

definition install_process_guards :: "bool \<Rightarrow> bool \<times> boot_effect list" where
  "install_process_guards installed =
    (if installed then (installed, [])
     else (True, [OnProcess ''unhandledRejection'', OnProcess ''uncaughtException'']))"

definition failure_message :: "failure \<Rightarrow> string" where
  "failure_message r = (case r of NotAnError s \<Rightarrow> s | AnError msg stack \<Rightarrow> msg)"

definition cors_origins :: "string option \<Rightarrow> cors_rule" where
  "cors_origins configured = (case configured of None \<Rightarrow> AnyOrigin | Some s \<Rightarrow> Origins (split_on (CHR '','') s))"

text \<open>\<open>created\<close> and \<open>listening\<close> tell how making the application and listening end.\<close>

definition bootstrap ::
    "bool \<Rightarrow> string option \<Rightarrow> string option \<Rightarrow> failure option \<Rightarrow> failure option \<Rightarrow> bool \<times> boot_effect list" where
  "bootstrap installed cors port created listening =
    (let (installed', guards) = install_process_guards installed;
         fail = (\<lambda>r. [LogFailure (failure_message r), ExitProcess 1])
     in (installed', guards @ CreateApp #
          (case created of
             Some r \<Rightarrow> fail r
           | None \<Rightarrow>
               [GlobalValidation, UriVersioning, EnableCors (cors_origins cors) True,
                Listen (case port of None \<Rightarrow> show_nat 3001 | Some p \<Rightarrow> p)] @
               (case listening of Some r \<Rightarrow> fail r | None \<Rightarrow> []))))"

text \<open>The guards are in place before anything else starts, and are installed once per process.\<close>

lemma guards_first:
  "take 2 (snd (bootstrap False cors port created listening)) =
     [OnProcess ''unhandledRejection'', OnProcess ''uncaughtException''] \<and>
   fst (bootstrap b cors port created listening) \<and>
   snd (install_process_guards (fst (install_process_guards b))) = []"
  by (cases b) (simp_all add: bootstrap_def install_process_guards_def Let_def)

text \<open>The process is only ended when the application could not be made or could not listen.\<close>

lemma exits_iff:
  "(\<exists>n. ExitProcess n \<in> set (snd (bootstrap b cors port created listening))) \<longleftrightarrow>
    created \<noteq> None \<or> listening \<noteq> None"
  by (cases b; cases created; cases listening) (simp_all add: bootstrap_def install_process_guards_def Let_def)

section \<open>Validation of a posted deployment\<close>

definition is_number :: "jsval \<Rightarrow> bool" where
  "is_number v = (case v of JNum n \<Rightarrow> num_finite n | _ \<Rightarrow> False)"

definition is_text :: "jsval \<Rightarrow> bool" where
  "is_text v = (str_value v \<noteq> None)"

definition is_list :: "jsval \<Rightarrow> bool" where
  "is_list v = (case v of JArr a vs \<Rightarrow> True | _ \<Rightarrow> False)"

definition not_empty :: "jsval \<Rightarrow> bool" where
  "not_empty v = (\<not> nullish v \<and> v \<noteq> JStr [])"

definition optional :: "(jsval \<Rightarrow> bool) \<Rightarrow> jsval \<Rightarrow> bool" where
  "optional check v = (nullish v \<or> check v)"

definition deploy_options :: "string list" where
  "deploy_options = [''DOCKERFILE'', ''COMPOSE'', ''PRESET_NEST'']"

definition is_deploy_option :: "jsval \<Rightarrow> bool" where
  "is_deploy_option v = (case v of JStr s \<Rightarrow> s \<in> set deploy_options | _ \<Rightarrow> False)"

text \<open>The decorators of \<open>DeployCommand\<close>; the elements of a list are not looked at.\<close>

definition valid_deploy_command :: "jsval \<Rightarrow> bool" where
  "valid_deploy_command b =
    (is_number (get_field b ''serviceIndex'') \<and> not_empty (get_field b ''serviceIndex'') \<and>
     not_empty (get_field b ''sourceUrl'') \<and>
     optional is_text (get_field b ''rootDirectory'') \<and>
     optional is_text (get_field b ''apiKey'') \<and>
     not_empty (get_field b ''serviceName'') \<and> is_text (get_field b ''serviceName'') \<and>
     not_empty (get_field b ''serviceVersion'') \<and> is_text (get_field b ''serviceVersion'') \<and>
     not_empty (get_field b ''servicePort'') \<and> is_number (get_field b ''servicePort'') \<and>
     optional is_number (get_field b ''serviceHostPort'') \<and>
     optional is_number (get_field b ''serviceContainerPort'') \<and>
     optional is_list (get_field b ''servicePortMappings'') \<and>
     not_empty (get_field b ''deployPreset'') \<and> is_deploy_option (get_field b ''deployPreset''))"

definition post_deploy :: "(string \<Rightarrow> string) \<Rightarrow> config \<Rightarrow> jsval \<Rightarrow> (agent, unit) op" where
  "post_deploy sha1 cfg body =
    (if valid_deploy_command body then http_deploy sha1 cfg body else throw ''BadRequestException'')"

text \<open>
  A body that is refused changes nothing. One that is taken names its service, and its preset is
  one the deployment knows, so choosing between Compose and a Dockerfile does not throw.
\<close>

lemma post_deploy_checked:
  "\<not> valid_deploy_command b \<Longrightarrow> post_deploy sha1 cfg b env s tr = (Inl ''BadRequestException'', s, tr)"
  "valid_deploy_command b \<Longrightarrow> \<exists>nm. dc_name (deploy_request b) = JStr nm \<and> nm \<noteq> []"
  "valid_deploy_command b \<Longrightarrow> \<exists>c. is_compose_preset (dc_preset (deploy_request b)) env s tr = (Inr c, s, tr)"
  by (auto simp: post_deploy_def valid_deploy_command_def deploy_request_def is_text_def not_empty_def
      is_deploy_option_def is_compose_preset_def preset_upper_def run_bind
      elim!: str_value.elims split: jsval.split_asm)

section \<open>Gateways\<close>

text \<open>A message to every Dashboard: the namespace, the event and the payload\<close>

type_synonym push = "string \<times> string \<times> jsval"

definition push_status :: "index \<Rightarrow> string \<Rightarrow> push" where
  "push_status idx st =
    (''/service'', ''service-status'', JObj 0 [(''serviceIndex'', idx), (''status'', JStr st)])"

definition push_log :: "index \<Rightarrow> string \<Rightarrow> string \<Rightarrow> (string \<times> jsval) list \<Rightarrow> push" where
  "push_log idx line timestamp meta =
    (''/service'', ''service-log'',
     JObj 0 (foldl (\<lambda>ms kv. obj_define (fst kv) (snd kv) ms)
       [(''serviceIndex'', idx), (''log'', JStr line), (''timestamp'', JStr timestamp)] meta))"

definition push_connect_request :: "jsval \<Rightarrow> push" where
  "push_connect_request payload = (''/notification'', ''notification'', payload)"

definition send_metric :: "jsval \<Rightarrow> push" where
  "send_metric metric = (''/info'', ''info'', metric)"

text \<open>What \<open>updatePerformance\<close> hands over\<close>

definition metric_message :: "system_metrics \<Rightarrow> jsval" where
  "metric_message m =
    (let row = (\<lambda>r. [(''timestamp'', JNum (num_of_int (me_timestamp m))), (''peak'', JNum (rm_peak r)),
                     (''average'', JNum (rm_average r)), (''min'', JNum (rm_min r))])
     in JObj 0 [(''cpu'', JObj 1 (row (me_cpu m))),
                (''memory'', JObj 2 (row (me_mem m) @ [(''totalMemory'', JNum (me_total m))]))])"

text \<open>What the Dashboard is shown of the effects of a session\<close>

fun dashboard_push :: "session_effect \<Rightarrow> push option" where
  "dashboard_push (OnAgent (GatewayStatus idx st)) = Some (push_status idx st)"
| "dashboard_push (OnLink (PushRequest p)) = Some (push_connect_request p)"
| "dashboard_push _ = None"

text \<open>
  The Dashboard is shown a connection request without the envelope it came in, and what it reads
  back later agrees with what it was shown.
\<close>

lemma shown_request_is_stored:
  assumes "parsed p"
  shows "(case lift_link (on_connect_request no_fault p) s of (r, s', out) \<Rightarrow>
      map dashboard_push out = [Some (push_connect_request (connect_request p))] \<and>
      get_pending_request (hs_link s') = Inr (reread (JObj 0 (present_fields p))))"
  by (simp add: lift_link_def on_connect_request_def save_pending_request_def stored_text[OF assms] upsert_def
      no_fault_def set_op_def seq_op_def out_op_def get_pending_request_def jsm.kv_laws
      json_parse_shown[OF present_parsed[OF assms]])

end
