(* ===== verification/History_Laws.thy ===== *)
theory History_Laws
  imports Docker_Logs
begin

text \<open>
  What the Hub is told while the history of a container is loaded (\<open>streamContainerLog\<close>, lines 42-59
  of \<open>docker-log.service.ts\<close>, with the callbacks of \<open>tunnel.service.ts\<close>, lines 536-545): the batches are the
  history, and the progress messages between them count what has arrived.
\<close>

section \<open>Batches\<close>

lemma batches_Nil [simp]: "batches n [] = []"
  by (simp add: batches.simps)

lemma batches_step: "xs \<noteq> [] \<Longrightarrow> batches n xs = take (max 1 n) xs # batches n (drop (max 1 n) xs)"
  by (subst batches.simps) simp

section \<open>The messages of a loading\<close>

text \<open>The two callbacks the tunnel passes\<close>

abbreviation tell_progress :: "index \<Rightarrow> progress \<Rightarrow> ('s, unit) op" where
  "tell_progress idx p \<equiv> perform (Hub ''log-load-progress'' (PProgress idx p))"

abbreviation tell_history :: "index \<Rightarrow> log_entry list \<Rightarrow> ('s, unit) op" where
  "tell_history idx es \<equiv> perform (Hub ''service-log-history'' (PHistory idx None es None True))"

fun told_entries :: "trace \<Rightarrow> log_entry list" where
  "told_entries [] = []"
| "told_entries (Hub ev (PHistory i b es m old) # tr) = es @ told_entries tr"
| "told_entries (e # tr) = told_entries tr"

fun told_progress :: "trace \<Rightarrow> progress list" where
  "told_progress [] = []"
| "told_progress (Hub ev (PProgress i p) # tr) = p # told_progress tr"
| "told_progress (e # tr) = told_progress tr"

text \<open>
  The reader of the channel keeps \<open>n\<close>, the number of entries it has received. Every message is a batch
  of at most 2000 entries or a progress message that gives exactly this number.
\<close>

fun accurate :: "index \<Rightarrow> nat \<Rightarrow> nat \<Rightarrow> trace \<Rightarrow> bool" where
  "accurate idx tot n [] = (n = tot)"
| "accurate idx tot n (Hub ev (PHistory i b es m old) # tr) =
    (ev = ''service-log-history'' \<and> i = idx \<and> b = None \<and> m = None \<and> old \<and>
     es \<noteq> [] \<and> length es \<le> 2000 \<and> accurate idx tot (n + length es) tr)"
| "accurate idx tot n (Hub ev (PProgress i p) # tr) =
    (ev = ''log-load-progress'' \<and> i = idx \<and> pr_loaded p = n \<and> pr_total p = tot \<and>
     pr_percent p = percent_of n tot \<and> accurate idx tot n tr)"
| "accurate idx tot n (e # tr) = False"

text \<open>Between two messages the percentage rises by five or reaches a hundred.\<close>

fun spaced :: "int \<Rightarrow> progress list \<Rightarrow> bool" where
  "spaced l [] = True"
| "spaced l (p # ps) =
    ((pr_percent p = 100 \<or> l + 5 \<le> int (pr_percent p)) \<and> spaced (int (pr_percent p)) ps)"

lemma percent_of_all [simp]: "percent_of n n = 100"
  by (simp add: percent_of_def to_double_small)

definition final_reports :: "nat \<Rightarrow> progress list" where
  "final_reports tot =
    [\<lparr>pr_loaded = tot, pr_total = tot, pr_percent = 100, pr_phase = ''complete''\<rparr>,
     \<lparr>pr_loaded = tot, pr_total = tot, pr_percent = 100, pr_phase = ''streaming''\<rparr>]"

text \<open>What one call of \<open>emitProgress\<close> while loading adds\<close>

lemma loading_report:
  assumes "emit_progress l n tot ''loading'' = (l', p)"
  obtains (silent) "p = None" "l' = l"
  | (told) q where "p = Some q" "pr_loaded q = n" "pr_total q = tot" "pr_percent q = percent_of n tot"
      "pr_phase q = ''loading''" "l' = int (pr_percent q)" "pr_percent q = 100 \<or> l + 5 \<le> l'"
proof (cases p)
  case None
  then show ?thesis using assms silent by (auto simp: emit_progress_def Let_def split: if_splits)
next
  case (Some q)
  then have q: "q = \<lparr>pr_loaded = n, pr_total = tot, pr_percent = percent_of n tot, pr_phase = ''loading''\<rparr>"
      "l' = int (percent_of n tot)" "percent_of n tot = 100 \<or> l + 5 \<le> l'"
    using assms by (auto simp: emit_progress_def Let_def split: if_splits)
  show ?thesis by (rule told[of q]) (use Some q in auto)
qed

text \<open>The messages of a loading that has told \<open>n\<close> of \<open>tot\<close> entries and has \<open>xs\<close> to tell\<close>

definition good_messages :: "index \<Rightarrow> nat \<Rightarrow> nat \<Rightarrow> int \<Rightarrow> log_entry list \<Rightarrow> trace \<Rightarrow> bool" where
  "good_messages idx tot n l xs new =
    (told_entries new = xs \<and> accurate idx tot n new \<and> spaced l (told_progress new) \<and>
     (\<exists>ps. told_progress new = ps @ final_reports tot \<and> list_all (\<lambda>p. pr_phase p = ''loading'') ps))"

lemma good_end:
  "good_messages idx tot tot l [] (map (\<lambda>p. Hub ''log-load-progress'' (PProgress idx p)) (final_reports tot))"
  by (simp add: good_messages_def final_reports_def)

lemma good_batch:
  assumes "good_messages idx tot (n + length b) l xs new" "b \<noteq> []" "length b \<le> 2000"
  shows "good_messages idx tot n l (b @ xs)
    (Hub ''service-log-history'' (PHistory idx None b None True) # new)"
  using assms by (auto simp: good_messages_def)

lemma good_progress:
  assumes "good_messages idx tot n (int (pr_percent q)) xs new"
    "pr_loaded q = n" "pr_total q = tot" "pr_percent q = percent_of n tot" "pr_phase q = ''loading''"
    "pr_percent q = 100 \<or> l + 5 \<le> int (pr_percent q)"
  shows "good_messages idx tot n l xs (Hub ''log-load-progress'' (PProgress idx q) # new)"
proof -
  obtain ps where "told_progress new = ps @ final_reports tot" "list_all (\<lambda>p. pr_phase p = ''loading'') ps"
    using assms(1) by (auto simp: good_messages_def)
  then have "\<exists>ps. q # told_progress new = ps @ final_reports tot \<and> list_all (\<lambda>p. pr_phase p = ''loading'') ps"
    using assms(5) by (intro exI[of _ "q # ps"]) simp
  then show ?thesis using assms by (simp add: good_messages_def)
qed

text \<open>A progress message, told or not, before messages that are good\<close>

lemma good_report:
  assumes "emit_progress l n tot ''loading'' = (l', p)"
    and rest: "\<And>tr. \<exists>new. m env s tr = (Inr (), s, tr @ new) \<and> good_messages idx tot n l' xs new"
  shows "\<exists>new. then_op (report_progress (tell_progress idx) p) m env s tr = (Inr (), s, tr @ new) \<and>
    good_messages idx tot n l xs new"
  using assms(1)
proof (cases rule: loading_report)
  case silent
  then show ?thesis using rest[of tr] by (simp add: report_progress_def)
next
  case (told q)
  obtain new where "m env s (tr @ [Hub ''log-load-progress'' (PProgress idx q)]) =
      (Inr (), s, (tr @ [Hub ''log-load-progress'' (PProgress idx q)]) @ new)"
    "good_messages idx tot n l' xs new" using rest by blast
  then show ?thesis using told good_progress[of idx tot n q xs new l]
    by (intro exI[of _ "Hub ''log-load-progress'' (PProgress idx q) # new"]) (simp add: report_progress_def)
qed

lemma history_loop_messages:
  "min off tot + length xs = tot \<Longrightarrow>
   \<exists>new. history_loop (tell_progress idx) (tell_history idx) tot off l (batches history_batch_size xs) env s tr =
      (Inr (), s, tr @ new) \<and> good_messages idx tot (min off tot) l xs new"
proof (induction "length xs" arbitrary: xs off l tr rule: less_induct)
  case less
  show ?case
  proof (cases "xs = []")
    case True
    then show ?thesis using less.prems good_end[of idx tot l]
      by (intro exI[of _ "map (\<lambda>p. Hub ''log-load-progress'' (PProgress idx p)) (final_reports tot)"])
        (simp add: emit_progress_def report_progress_def final_reports_def)
  next
    case False
    define b where "b = take 2000 xs"
    define ys where "ys = drop 2000 xs"
    have xs: "xs = b @ ys" "b \<noteq> []" "length b \<le> 2000" "length ys < length xs"
      using False by (auto simp: b_def ys_def)
    have n: "min (off + 2000) tot = min off tot + length b" "min (off + 2000) tot + length ys = tot"
      using less.prems False by (auto simp: b_def ys_def min_def split: if_splits)
    obtain l' p where ep: "emit_progress l (min (off + 2000) tot) tot ''loading'' = (l', p)"
      by (cases "emit_progress l (min (off + 2000) tot) tot ''loading''")
    have "\<exists>new. then_op (report_progress (tell_progress idx) p)
        (history_loop (tell_progress idx) (tell_history idx) tot (off + 2000) l' (batches history_batch_size ys))
        env s (tr @ [Hub ''service-log-history'' (PHistory idx None b None True)]) =
          (Inr (), s, (tr @ [Hub ''service-log-history'' (PHistory idx None b None True)]) @ new) \<and>
        good_messages idx tot (min (off + 2000) tot) l ys new"
      by (rule good_report[OF ep]) (rule less.hyps[OF xs(4) n(2)])
    then obtain new where new:
      "then_op (report_progress (tell_progress idx) p)
        (history_loop (tell_progress idx) (tell_history idx) tot (off + 2000) l' (batches history_batch_size ys))
        env s (tr @ [Hub ''service-log-history'' (PHistory idx None b None True)]) =
          (Inr (), s, (tr @ [Hub ''service-log-history'' (PHistory idx None b None True)]) @ new)"
      "good_messages idx tot (min off tot + length b) l ys new"
      unfolding n(1) by blast
    have "batches history_batch_size xs = b # batches history_batch_size ys"
      using False by (simp add: batches_step b_def ys_def history_batch_size_def)
    then show ?thesis using ep new(1) good_batch[OF new(2) xs(2,3)]
      by (intro exI[of _ "Hub ''service-log-history'' (PHistory idx None b None True) # new"])
        (simp add: history_batch_size_def xs(1))
  qed
qed

lemma spaced_positive: "spaced l ps \<Longrightarrow> - 5 < l \<Longrightarrow> list_all (\<lambda>p. 0 < pr_percent p) ps"
  by (induction ps arbitrary: l) fastforce+

text \<open>C25: telling the Hub a history that has been read, through callbacks that only emit, as the tunnel's
  do. This part of \<open>streamContainerLog\<close> throws nothing and changes nothing of the agent (reading the
  history comes before it and may throw). The batches the Hub receives, put together, are the
  history, and each is of at most 2000 entries; every progress message between them gives the number
  of entries received before it, the total and the percentage, \<open>Math.round\<close> of the doubles; from one
  message to the next it rises by five or reaches a hundred; the last two say complete and streaming.
  The opening message of nothing loaded is never sent: no percentage is zero.\<close>

theorem history_delivered:
  "\<exists>new ps.
     send_history (\<lambda>p. perform (Hub ''log-load-progress'' (PProgress idx p)))
       (\<lambda>es. perform (Hub ''service-log-history'' (PHistory idx None es None True))) logs env s tr =
       (Inr (), s, tr @ new) \<and>
     told_entries new = logs \<and>
     accurate idx (length logs) 0 new \<and>
     told_progress new = ps @ final_reports (length logs) \<and>
     list_all (\<lambda>p. pr_phase p = ''loading'') ps \<and>
     spaced (- 1) (told_progress new) \<and>
     list_all (\<lambda>p. 0 < pr_percent p) (told_progress new)"
proof -
  obtain l' p where ep: "emit_progress (- 1) 0 (length logs) ''loading'' = (l', p)"
    by (cases "emit_progress (- 1) 0 (length logs) ''loading''")
  have "\<exists>new. then_op (report_progress (tell_progress idx) p)
      (history_loop (tell_progress idx) (tell_history idx) (length logs) 0 l' (batches history_batch_size logs))
      env s tr = (Inr (), s, tr @ new) \<and> good_messages idx (length logs) 0 (- 1) logs new"
    using history_loop_messages[of 0 "length logs" logs] by (intro good_report[OF ep]) simp
  then obtain new where "send_history (tell_progress idx) (tell_history idx) logs env s tr = (Inr (), s, tr @ new)"
    and "good_messages idx (length logs) 0 (- 1) logs new"
    using ep by (auto simp: send_history_def)
  then show ?thesis using spaced_positive[of "- 1" "told_progress new"]
    by (auto simp: good_messages_def)
qed

end
