(* ===== verification/Refusal_Laws.thy ===== *)
theory Refusal_Laws
  imports Service_Laws
begin

text \<open>
  What an operation on a service reports when Docker refuses one of its calls, in whatever
  environment: the outcome is tied to the answers the environment gave to the calls in the trace.
\<close>

section \<open>Refused calls\<close>

text \<open>
  A call is refused when the engine answers with an error or the command ends otherwise than with
  exit code 0. Removing an image is not counted: the code takes a refusal for \<open>no image found\<close>.
\<close>

fun is_call :: "effect \<Rightarrow> bool" where
  "is_call (Engine (ERemoveImage n)) = False"
| "is_call (Engine c) = True"
| "is_call (CliRun args cwd) = True"
| "is_call _ = False"

fun refused :: "env \<Rightarrow> trace \<Rightarrow> effect \<Rightarrow> bool" where
  "refused env tr (CliRun args cwd) = (snd (en_cli env (tr @ [CliRun args cwd])) \<noteq> Closed (Some 0))"
| "refused env tr e = (is_call e \<and> en_engine env (tr @ [e]) \<noteq> None)"

text \<open>Docker obeyed every call that \<open>new\<close> added to the trace.\<close>

fun obeyed :: "env \<Rightarrow> trace \<Rightarrow> trace \<Rightarrow> bool" where
  "obeyed env tr [] = True"
| "obeyed env tr (e # new) = (\<not> refused env tr e \<and> obeyed env (tr @ [e]) new)"

lemma obeyed_append [simp]: "obeyed env tr (a @ b) \<longleftrightarrow> obeyed env tr a \<and> obeyed env (tr @ a) b"
  by (induction a arbitrary: tr) simp_all



section \<open>A judgement on outcomes\<close>

text \<open>
  When \<open>m\<close> returns, Docker obeyed all its calls, among them those of \<open>R\<close>; when it throws and \<open>strict\<close>
  holds, Docker refused one.
\<close>

definition answers :: "bool \<Rightarrow> effect set \<Rightarrow> ('s, 'a) op \<Rightarrow> bool" where
  "answers strict R m = (\<forall>env s tr r s' tr'. m env s tr = (r, s', tr') \<longrightarrow>
     (\<exists>new. tr' = tr @ new \<and>
       (case r of Inr x \<Rightarrow> obeyed env tr new \<and> R \<subseteq> set new
        | Inl e \<Rightarrow> strict \<longrightarrow> \<not> obeyed env tr new)))"














lemma answers_loose: "answers True R m \<Longrightarrow> answers strict R m"
  unfolding answers_def by (fastforce split: sum.splits)

section \<open>The operations on a service\<close>

















section \<open>The law\<close>




end
