(* ===== verification/Spec2Isabelle.thy ===== *)
theory Spec2Isabelle
  imports Socket_Channel Tunnel_Laws Agent_Laws Terminal_Laws Link_Laws Updater_Laws Metric_Laws Agent_Version Session_Laws Local_Server History_Laws Refusal_Laws
begin

text \<open>
  A verification library for the OPTiCS Agent, the program that runs on a user's host, keeps a signed
  socket to the OPTiCS Hub and drives Docker there. Sources are named below \<open>src/src/\<close>.

  \<^bold>\<open>The program.\<close> \<open>tunnel/tunnel.service.ts\<close> holds the socket. Everything it sends goes through
  \<open>createSocketEmitter\<close>, which signs, and everything it handles through \<open>createSocketListener\<close>, which
  verifies and refuses replays. A \<open>command\<close> goes to \<open>service/service-lifecycle.service.ts\<close>, which calls
  the Docker services under \<open>docker/\<close>: deployment, container operations, inspection, logs. Docker's own
  events come back through \<open>docker-event.service.ts\<close>. Beside that run the pool of reverse tunnels
  (\<open>tunnel/reverse-tunnel.service.ts\<close>), SSH terminals (\<open>terminal/\<close>), the registration and the connection
  requests (\<open>notify/\<close>), the metrics (\<open>utility/systemMetric.util.ts\<close>) and the self update
  (\<open>app.service.ts\<close>, \<open>docker/self-inspect.service.ts\<close>).

  \<^bold>\<open>Foundations.\<close> \<open>Agent_Prelude\<close>: JavaScript \<open>Map\<close> and \<open>Set\<close> as lists, the locale \<open>kv_store\<close> of a keyed
  store with its interpretation \<open>jsm\<close>, reachability and the locale \<open>step_invariant\<close> of an inductive
  invariant, results that may be an error. \<open>Js_Text\<close>, \<open>Js_Numbers\<close>, \<open>Js_Values\<close>, \<open>Js_Coerce\<close>, \<open>Js_Canonical\<close>,
  \<open>Js_Print\<close>, \<open>Json_Parse\<close>, \<open>Js_Date\<close>, \<open>Js_Path\<close>: what the sources use of JavaScript and Node.
  \<open>Js_Bytes\<close> is the UTF-8 decoder behind \<open>Buffer.toString\<close>, \<open>Js_Double\<close> the rounding of a rational to a double. \<open>Agent_Ops\<close>: the
  language of operations that read an environment, may throw, and leave a trace of effects, with
  the predicate \<open>contract\<close> (invariant kept, effects of a class, results of a class) and its rules.

  \<^bold>\<open>Components.\<close>
  \<^item> \<open>Hash_Util\<close>, \<open>Hash_Laws\<close> (\<open>utility/hash.util.ts\<close>): canonical JSON, signing, verification, the replay
    guard. \<open>canonicalize\<close> prints two payloads alike exactly when they have the same content; what is
    accepted is exactly what was signed, in time and new.
  \<^item> \<open>Socket_Channel\<close> (\<open>createSocketEmitter.util.ts\<close>, \<open>createSocketListener.util.ts\<close>): no handler runs on
    an event that fails verification, and none twice on one packet unless a time stamp was ahead.
  \<^item> \<open>Line_Reader\<close>, \<open>Tunnel_Pool\<close>, \<open>Tunnel_Pool_Inv\<close>, \<open>Tunnel_Progress\<close>, \<open>Tunnel_Laws\<close>: the pool of reverse tunnels
    as a machine whose events are those of its sockets and timers; size of the pool, back-off,
    refills, the rejection after which the pool stays empty, independence of chunks, delivery of bytes.
  \<^item> \<open>Docker_Names\<close>, \<open>Container_Status\<close>, \<open>Deploy_Command\<close>, \<open>Build_Workspace\<close>, \<open>Container_Inspect\<close>,
    \<open>Container_Lifecycle\<close>, \<open>Deploy_Service\<close>, \<open>Docker_Logs\<close>: one theory per group of files under \<open>docker/\<close>.
    \<open>History_Laws\<close>: what the Hub is told of a history is the history, with progress that counts it.
  \<^item> \<open>Agent_State\<close>, \<open>Service_Lifecycle\<close>, \<open>Command_Dispatch\<close>: the tables of the agent, the operations on
    services, the handler of commands. \<open>Status_Protocol\<close>, \<open>Service_Laws\<close>, \<open>Refusal_Laws\<close>, \<open>Command_Laws\<close>,
    \<open>Agent_Laws\<close>: which sequences of statuses an operation reports and that the last one tells whether Docker obeyed, what deleting may remove, that build directories
    stay inside their root, one response per command, commands that only look, the invariant of
    the tables over all reachable states.
  \<^item> \<open>Ssh_Terminal\<close>, \<open>Terminal_Laws\<close>: terminal sessions, shown to refine an abstract machine per session.
  \<^item> \<open>Hub_Link\<close>, \<open>Link_Laws\<close>: registration, stored identity, connection requests; the secret is kept. The
    locale \<open>secret_invariant\<close> holds what an invariant of the identity has to satisfy. \<open>Json_Roundtrip\<close>: what
    \<open>JSON.stringify\<close> prints is read back by \<open>JSON.parse\<close>, and so is a stored connection request.
  \<^item> \<open>Updater\<close>, \<open>Updater_Laws\<close>: the self update; what it starts, and the lines it reports.
  \<^item> \<open>System_Metrics\<close>, \<open>Metric_Laws\<close>: samples and what an interval is reported as.
  \<^item> \<open>Direct_Tunnel\<close>, \<open>Http_Api\<close>, \<open>Local_Server\<close>: the tunnel opened on request; the metric queries, the
    deployment over HTTP, the place of the database, the text of an unhandled failure; the start of
    the server, the validation of a posted deployment, the messages of the gateways.
  \<^item> \<open>Agent_Version\<close>: the upward search for the version, which always ends.

  \<^bold>\<open>Composition.\<close> \<open>Hub_Session\<close> joins the components to one state behind the one socket, as \<open>onModuleInit\<close>
  does: a packet passes the listener of \<open>Socket_Channel\<close> under the secret \<open>Hub_Link\<close> holds at that moment,
  and then the handler registered for its event runs on the tables, the terminals, the identity or
  the sampler. \<open>Session_Laws\<close>: while one secret is held, packets of the signed events without a valid signature can be
  deleted from any run without a trace; when a listener's callback throws; the invariants of the
  components hold together in every reachable state; and the two ways around the signature, an
  unsigned answer to a registration and a restart.

  \<^bold>\<open>Conventions and bounds.\<close> Strings are lists of characters up to U+00FF. What is decoded from bytes, in
  \<open>Line_Reader\<close> and in \<open>Updater\<close>, may hold wider characters: white space among them is read as a no-break
  space and any other as U+001A, once for each code unit. Numbers are decimals. Sums are not rounded to
  doubles; the percentage of a loaded history is computed in doubles (\<open>percent_of\<close>), and the other
  divisions that matter are parameters.
  Object graphs are given by their unfolding, and a cycle is cut at the repeated object. The JSON
  reader has fuel of twice the length of its text and one, more than the nesting and the members of
  a text can use. SHA-1, the HMAC, \<open>Date.parse\<close> beyond the ISO formats, the file system, Docker, the
  database, the network and the clock are parameters; an answer of the environment may depend on
  all that was done before. The version search is a partial function, and that it returns is a
  theorem. Handlers run one at a time: what happens while one awaits an answer is not interleaved,
  except in the tunnel pool, the terminals and the log streams, whose events are steps of their own.
  A deployment whose service name is no string ends as the name's first use does. A terminal packet
  whose session id is no string is dropped, where the code would use the value as a key of its \<open>Map\<close>.
  \<open>on_event\<close> takes the secret at its declared type, a string or none; \<open>hear\<close> adds the values that are no string.

  \<^bold>\<open>Not modelled.\<close> The module declarations, which are wiring of NestJS; Prisma's client; the DTO classes
  no controller names, whose decorators nothing runs; log lines; and the shell script of the updater.
  The timers of the metrics are the calls of the sampling functions. In \<open>Hub_Session\<close> the pool of reverse
  tunnels is only started, which is one of the events of \<open>Tunnel_Pool\<close>.
\<close>

end
